(* ===== verification/Prelude.thy ===== *)
theory Prelude
  imports Main "HOL-Library.Word"
begin

unbundle bit_operations_syntax

text \<open>
  Shared vocabulary of the development.

  \<^item> Machine integers of the C sources (\<open>u8\<close> to \<open>u64\<close>) and the negative \<open>errno\<close> values the
    modules return.
  \<^item> \<open>fault\<close>: the ways a C statement of the sources can go wrong (a NULL dereference, an access
    outside an object, \<open>...\<close>). A model function that can reach such a statement returns
    \<open>fault + 'a\<close>; \<open>rbind\<close> sequences such functions and stops at the first fault, as the kernel
    would.
  \<^item> Byte buffers: \<open>slice\<close> and \<open>put\<close> are the two directions of \<open>memcpy\<close>; \<open>be16_at\<close>, \<open>be32_at\<close>
    and \<open>be16_bytes\<close> read and write the network-order fields (\<open>ntohs\<close>, \<open>ntohl\<close>, \<open>htons\<close>).

  The lemma collections are \<open>mem_simps\<close> (reading a buffer after writing it) and
  \<open>res_simps\<close> (running and inverting a sequence of fallible steps).
\<close>

named_theorems mem_simps
named_theorems res_simps

section \<open>Machine integers and error numbers\<close>

type_synonym u8 = "8 word"
type_synonym u16 = "16 word"
type_synonym u32 = "32 word"
type_synonym u64 = "64 word"
type_synonym bytes = "u8 list"

abbreviation EFAULT :: int where "EFAULT \<equiv> 14"
abbreviation ENOMEM :: int where "ENOMEM \<equiv> 12"
abbreviation EBUSY :: int where "EBUSY \<equiv> 16"
abbreviation ENODEV :: int where "ENODEV \<equiv> 19"
abbreviation EINVAL :: int where "EINVAL \<equiv> 22"
abbreviation EOPNOTSUPP :: int where "EOPNOTSUPP \<equiv> 95"

section \<open>Sizes and numbers of the protocol headers\<close>

abbreviation ETH_ALEN :: nat where "ETH_ALEN \<equiv> 6"
abbreviation ETH_HLEN :: nat where "ETH_HLEN \<equiv> 14"
abbreviation ETH_ZLEN :: nat where "ETH_ZLEN \<equiv> 60"
abbreviation ETH_DATA_LEN :: nat where "ETH_DATA_LEN \<equiv> 1500"
abbreviation ETH_P_IP :: u16 where "ETH_P_IP \<equiv> 0x0800"
abbreviation ETH_P_ARP :: u16 where "ETH_P_ARP \<equiv> 0x0806"
abbreviation IPPROTO_ICMP :: u8 where "IPPROTO_ICMP \<equiv> 1"
abbreviation IPPROTO_TCP :: u8 where "IPPROTO_TCP \<equiv> 6"
abbreviation IPPROTO_UDP :: u8 where "IPPROTO_UDP \<equiv> 17"
abbreviation SIZEOF_IPHDR :: nat where "SIZEOF_IPHDR \<equiv> 20"

section \<open>Faults and sequencing\<close>

datatype fault = NullDeref | UseAfterFree | DoubleFree | OutOfBounds | Deadlock | OutOfFuel

type_synonym 'a res = "fault + 'a"

definition rbind :: "'a res \<Rightarrow> ('a \<Rightarrow> 'b res) \<Rightarrow> 'b res" where
  "rbind m f = (case m of Inl e \<Rightarrow> Inl e | Inr x \<Rightarrow> f x)"

lemma rbind_Inl [simp, res_simps]: "rbind (Inl e) f = Inl e"
  by (simp add: rbind_def)

lemma rbind_Inr [simp, res_simps]: "rbind (Inr x) f = f x"
  by (simp add: rbind_def)

lemma rbind_eq_Inr [res_simps]:
  "rbind m f = Inr y \<longleftrightarrow> (\<exists>x. m = Inr x \<and> f x = Inr y)"
  by (cases m) simp_all

lemma rbind_eq_Inl [res_simps]:
  "rbind m f = Inl e \<longleftrightarrow> m = Inl e \<or> (\<exists>x. m = Inr x \<and> f x = Inl e)"
  by (cases m) simp_all

lemma rbind_assoc: "rbind (rbind m f) g = rbind m (\<lambda>x. rbind (f x) g)"
  by (cases m) simp_all

lemma rbind_cong [fundef_cong]:
  "m = m' \<Longrightarrow> (\<And>x. m' = Inr x \<Longrightarrow> f x = f' x) \<Longrightarrow> rbind m f = rbind m' f'"
  by (cases m') simp_all

text \<open>A pointer that may be NULL: reading through NULL is a fault.\<close>

definition deref :: "'a option \<Rightarrow> 'a res" where
  "deref p = (case p of None \<Rightarrow> Inl NullDeref | Some a \<Rightarrow> Inr a)"

lemma deref_simps [simp, res_simps]: "deref None = Inl NullDeref" "deref (Some a) = Inr a"
  by (simp_all add: deref_def)

section \<open>Byte buffers\<close>

definition slice :: "'a list \<Rightarrow> nat \<Rightarrow> nat \<Rightarrow> 'a list" where
  "slice bs i n = take n (drop i bs)"

definition put :: "nat \<Rightarrow> 'a list \<Rightarrow> 'a list \<Rightarrow> 'a list" where
  "put i vs bs = take i bs @ vs @ drop (i + length vs) bs"

definition be16_at :: "bytes \<Rightarrow> nat \<Rightarrow> u16" where
  "be16_at bs i = of_nat (256 * unat (bs ! i) + unat (bs ! Suc i))"

definition be32_at :: "bytes \<Rightarrow> nat \<Rightarrow> u32" where
  "be32_at bs i = of_nat (16777216 * unat (bs ! i) + 65536 * unat (bs ! (i + 1))
                          + 256 * unat (bs ! (i + 2)) + unat (bs ! (i + 3)))"

definition be16_bytes :: "u16 \<Rightarrow> bytes" where
  "be16_bytes w = [of_nat (unat w div 256), of_nat (unat w)]"

lemma length_slice [simp, mem_simps]: "i + n \<le> length bs \<Longrightarrow> length (slice bs i n) = n"
  by (simp add: slice_def)

lemma nth_slice [simp, mem_simps]: "i + n \<le> length bs \<Longrightarrow> j < n \<Longrightarrow> slice bs i n ! j = bs ! (i + j)"
  by (simp add: slice_def)

lemma length_put [simp, mem_simps]: "i + length vs \<le> length bs \<Longrightarrow> length (put i vs bs) = length bs"
  by (simp add: put_def)

lemma nth_put [mem_simps]:
  assumes "i + length vs \<le> length bs" "j < length bs"
  shows "put i vs bs ! j = (if i \<le> j \<and> j < i + length vs then vs ! (j - i) else bs ! j)"
  using assms by (auto simp: put_def nth_append min_def)

lemma put_append_same: "length vs = length ws \<Longrightarrow> put (length xs) ws (xs @ vs @ ys) = xs @ ws @ ys"
  by (simp add: put_def)

lemma length_be16_bytes [simp, mem_simps]: "length (be16_bytes w) = 2"
  by (simp add: be16_bytes_def)

lemma slice_eqI:
  assumes "i + n \<le> length bs" "length vs = n" "\<And>j. j < n \<Longrightarrow> bs ! (i + j) = vs ! j"
  shows "slice bs i n = vs"
  using assms by (intro nth_equalityI) auto

lemma slice_put_same: "i + length vs \<le> length bs \<Longrightarrow> n = length vs \<Longrightarrow> slice (put i vs bs) i n = vs"
  by (simp add: slice_def put_def)

lemma slice_put_other:
  assumes "i + length vs \<le> length bs" "k + n \<le> length bs" "k + n \<le> i \<or> i + length vs \<le> k"
  shows "slice (put i vs bs) k n = slice bs k n"
  using assms by (intro slice_eqI) (auto simp: nth_put)

lemma slice_put_inside:
  assumes "i \<le> k" "k + length vs \<le> i + n" "i + n \<le> length bs"
  shows "slice (put k vs bs) i n = put (k - i) vs (slice bs i n)"
  using assms by (intro slice_eqI) (auto simp: nth_put add.commute)

lemma unat_byte_less [simp]: "unat (b :: u8) < 256"
  using unsigned_less [of b] by simp

lemma unat_of_nat_small: "n < 2 ^ LENGTH('a :: len) \<Longrightarrow> unat (of_nat n :: 'a word) = n"
  by (simp only: unat_of_nat mod_less)

lemma unat_be16_at: "unat (be16_at bs i) = 256 * unat (bs ! i) + unat (bs ! Suc i)"
proof -
  have "256 * unat (bs ! i) + unat (bs ! Suc i) < 65536"
    using unat_byte_less [of "bs ! i"] unat_byte_less [of "bs ! Suc i"] by linarith
  then show ?thesis unfolding be16_at_def by (subst unat_of_nat_small) simp_all
qed

lemma be16_bytes_roundtrip: "be16_at (be16_bytes w) 0 = w"
proof -
  have w: "unat w < 65536" using unsigned_less [of w] by simp
  have "unat (of_nat (unat w div 256) :: u8) = unat w div 256"
    using w by (subst unat_of_nat_small) simp_all
  moreover have "unat (of_nat (unat w) :: u8) = unat w mod 256"
    by (simp only: unat_of_nat) simp
  ultimately have "unat (be16_at (be16_bytes w) 0) = unat w"
    unfolding unat_be16_at be16_bytes_def by simp
  then show ?thesis by (simp only: word_unat_eq_iff)
qed

lemma be16_at_put:
  assumes "i + 2 \<le> length bs"
  shows "be16_at (put i (be16_bytes w) bs) i = w"
proof -
  have "be16_at (put i (be16_bytes w) bs) i = be16_at (be16_bytes w) 0"
    using assms by (simp add: be16_at_def nth_put be16_bytes_def)
  then show ?thesis by (simp add: be16_bytes_roundtrip)
qed

lemma be16_at_put_other:
  assumes "i + length vs \<le> length bs" "k + 2 \<le> length bs" "k + 2 \<le> i \<or> i + length vs \<le> k"
  shows "be16_at (put i vs bs) k = be16_at bs k"
  using assms by (auto simp: be16_at_def nth_put)

lemma be16_at_list_update:
  "j \<noteq> k \<Longrightarrow> j \<noteq> Suc k \<Longrightarrow> be16_at (bs[j := b]) k = be16_at bs k"
  by (simp add: be16_at_def)

end
