(* ===== verification/Checksum.thy ===== *)
theory Checksum
  imports Prelude
begin

text \<open>
  The Internet checksum of RFC 1071, the documented behaviour of the kernel's
  \<open>ip_fast_csum\<close> and \<open>csum_fold (csum_partial ...)\<close>. No source file defines it: the drivers call
  the kernel, so the model passes those functions as parameters and the theorems assume of them
  that they compute \<open>inet_csum\<close>. What is shown here is the law the drivers rely on: a block whose
  checksum field was zeroed and then filled with the checksum of the zeroed block verifies.
\<close>

section \<open>One's complement sums\<close>

fun sum16 :: "bytes \<Rightarrow> nat" where
  "sum16 [] = 0"
| "sum16 [a] = 256 * unat a"
| "sum16 (a # b # bs) = 256 * unat a + unat b + sum16 bs"

function fold16 :: "nat \<Rightarrow> nat" where
  "fold16 n = (if n < 65536 then n else fold16 (n mod 65536 + n div 65536))"
  by pat_completeness auto
termination
proof (relation "measure id")
  fix n :: nat
  assume "\<not> n < 65536"
  then have "1 \<le> n div 65536" by simp
  moreover have "n = 65536 * (n div 65536) + n mod 65536" by simp
  ultimately have "n mod 65536 + n div 65536 < n" by linarith
  then show "(n mod 65536 + n div 65536, n) \<in> measure id" by simp
qed simp

declare fold16.simps [simp del]

definition inet_csum :: "bytes \<Rightarrow> u16" where
  "inet_csum bs = of_nat (65535 - fold16 (sum16 bs))"

definition csum_valid :: "bytes \<Rightarrow> bool" where
  "csum_valid bs \<longleftrightarrow> fold16 (sum16 bs) = 65535"

section \<open>Folding keeps the residue modulo 65535\<close>

lemma fold16_props: "fold16 n < 65536 \<and> fold16 n mod 65535 = n mod 65535 \<and> (fold16 n = 0 \<longleftrightarrow> n = 0)"
proof (induction n rule: fold16.induct)
  case (1 n)
  show ?case
  proof (cases "n < 65536")
    case True
    then show ?thesis by (simp add: fold16.simps [of n])
  next
    case False
    define q r where "q = n div 65536" and "r = n mod 65536"
    have "n = 65535 * q + (r + q)" using div_mult_mod_eq [of n 65536] by (simp add: q_def r_def)
    then have "n mod 65535 = (r + q) mod 65535" by (simp only: mod_mult_self4)
    then have "n mod 65535 = (n mod 65536 + n div 65536) mod 65535" by (simp only: q_def r_def)
    moreover have "0 < n div 65536" using False by (simp add: div_greater_zero_iff)
    ultimately show ?thesis using 1 [OF False] False by (simp add: fold16.simps [of n])
  qed
qed

lemma fold16_less: "fold16 n < 65536"
  using fold16_props by blast

lemma fold16_complement: "fold16 (n + (65535 - fold16 n)) = 65535"
proof -
  define m where "m = n + (65535 - fold16 n)"
  have "int n mod 65535 = int (fold16 n) mod 65535"
    using fold16_props [of n] by (metis of_nat_mod of_nat_numeral)
  then have "65535 dvd int n - int (fold16 n)" by (simp only: mod_eq_dvd_iff)
  moreover have "int m = (int n - int (fold16 n)) + 65535"
    using fold16_less [of n] by (simp add: m_def of_nat_diff)
  ultimately have "65535 dvd int m" by simp
  then have "m mod 65535 = 0" by presburger
  then have "65535 dvd fold16 m" using fold16_props [of m] by (simp add: dvd_eq_mod_eq_0)
  then obtain k where k: "fold16 m = 65535 * k" by blast
  have "m \<noteq> 0" using fold16_props [of n] by (cases "n = 0") (auto simp: m_def)
  then have "fold16 m \<noteq> 0" using fold16_props [of m] by blast
  then have "k = 1" using k fold16_less [of m] by simp
  then show ?thesis using k by (simp add: m_def)
qed

section \<open>Filling a zeroed checksum field\<close>

lemma sum16_append: "even (length xs) \<Longrightarrow> sum16 (xs @ ys) = sum16 xs + sum16 ys"
  by (induction xs rule: sum16.induct) auto

lemma sum16_be16_bytes: "sum16 (be16_bytes w @ bs) = unat w + sum16 bs"
proof -
  have "256 * unat (be16_bytes w ! 0) + unat (be16_bytes w ! 1) = unat w"
    using unat_be16_at [of "be16_bytes w" 0] by (simp add: be16_bytes_roundtrip)
  then show ?thesis by (simp add: be16_bytes_def)
qed

lemma sum16_put:
  assumes "even i" "i + 2 \<le> length bs"
  shows "sum16 (put i (be16_bytes w) bs) = sum16 (put i (be16_bytes 0) bs) + unat w"
  using assms by (simp add: put_def sum16_append sum16_be16_bytes)

lemma csum_valid_put:
  assumes "even i" "i + 2 \<le> length bs"
  defines "z \<equiv> put i (be16_bytes 0) bs"
  shows "csum_valid (put i (be16_bytes (inet_csum z)) bs)"
proof -
  have "unat (inet_csum z) = 65535 - fold16 (sum16 z)"
    unfolding inet_csum_def by (rule unat_of_nat_small) simp
  then show ?thesis
    unfolding csum_valid_def sum16_put [OF assms(1,2)] z_def [symmetric]
    by (simp add: fold16_complement)
qed

lemma put_put_same: "i + length vs \<le> length bs \<Longrightarrow> length ws = length vs \<Longrightarrow> put i ws (put i vs bs) = put i ws bs"
  by (simp add: put_def)

end
