(* ===== verification/Dummy_Hw.thy ===== *)
theory Dummy_Hw
  imports Prelude "HOL-Library.Multiset"
begin

text \<open>
  The simulated hardware of \<open>linux-netdevice-driver-test/dummy-hw.c\<close>: a FIFO of frames pending
  transmission, the receive callback the Ethernet driver registers, and the kernel thread that
  loops every frame back through that callback.

  \<^item> State: \<open>dummy_hw\<close> (the three file-level variables). The kernel's \<open>sk_buff_head\<close> is its
    contents in order. What the callback changes is the second component \<open>'e\<close>, any extension of
    \<open>klog\<close>, the record of what became of each \<open>sk_buff\<close>.
  \<^item> Operations: \<open>dummy_hw_send_irq\<close>, \<open>hw_drain\<close> and \<open>dummy_hw_thread\<close> (the thread's inner and outer
    loop), \<open>lt_hw_tx\<close>, \<open>lt_request_irq\<close>, \<open>dummy_hw_init\<close>, \<open>dummy_hw_exit\<close>.
  \<^item> Concurrency: \<open>hw_step\<close> interleaves the thread, statement by statement, with transmitters
    and with a client inside \<open>lt_request_irq\<close> (test, assignment and purge are separate steps),
    which run on other CPUs; \<open>skb_queue_tail\<close>, \<open>skb_dequeue\<close> and \<open>skb_queue_purge\<close>, which take the
    queue's lock, are one step each, and so is the callback.
  \<^item> Interface: the locale \<open>rx_callback\<close> is what the hardware layer needs of a callback (it
    disposes of the frame it is given, and of no other); conservation of frames is proved
    from it once.
\<close>

section \<open>What becomes of an sk_buff\<close>

datatype 'skb skb_event = NetifRx 'skb | KfreeSkb 'skb

fun event_skb :: "'skb skb_event \<Rightarrow> 'skb" where
  "event_skb (NetifRx s) = s"
| "event_skb (KfreeSkb s) = s"

record 'skb klog =
  skb_log :: "'skb skb_event list"

definition dev_kfree_skb :: "'skb \<Rightarrow> ('skb, 'm) klog_scheme \<Rightarrow> ('skb, 'm) klog_scheme" where
  "dev_kfree_skb s e = e\<lparr>skb_log := skb_log e @ [KfreeSkb s]\<rparr>"

section \<open>The module's state and operations\<close>

type_synonym ('skb, 'm) rx_fn = "('skb, 'm) klog_scheme \<Rightarrow> 'skb \<Rightarrow> (int \<times> ('skb, 'm) klog_scheme) res"

datatype task_ptr = TaskNull | TaskErr int | Task

record ('skb, 'm) dummy_hw =
  skb_tx_q :: "'skb list"
  dummy_drv_rx :: "('skb, 'm) rx_fn option"
  hw_thread_id :: task_ptr

definition dummy_hw_send_irq ::
  "('skb, 'm) dummy_hw \<Rightarrow> ('skb, 'm) klog_scheme \<Rightarrow> (('skb, 'm) dummy_hw \<times> ('skb, 'm) klog_scheme) res" where
  "dummy_hw_send_irq hw e =
     (case skb_tx_q hw of
        [] \<Rightarrow> Inr (hw, e)
      | skb # q \<Rightarrow>
          let hw = hw\<lparr>skb_tx_q := q\<rparr> in
          (case dummy_drv_rx hw of
             None \<Rightarrow> Inr (hw, dev_kfree_skb skb e)
           | Some rx \<Rightarrow> rbind (rx e skb) (\<lambda>(_, e). Inr (hw, e))))"

lemma dummy_hw_send_irq_queue:
  "dummy_hw_send_irq hw e = Inr (hw', e') \<Longrightarrow>
     hw' = hw\<lparr>skb_tx_q := tl (skb_tx_q hw)\<rparr>"
  by (auto simp: dummy_hw_send_irq_def Let_def rbind_eq_Inr split: list.splits option.splits)

function hw_drain ::
  "('skb, 'm) dummy_hw \<Rightarrow> ('skb, 'm) klog_scheme \<Rightarrow> (('skb, 'm) dummy_hw \<times> ('skb, 'm) klog_scheme) res" where
  "hw_drain hw e =
     (if skb_tx_q hw = [] then Inr (hw, e)
      else rbind (dummy_hw_send_irq hw e) (\<lambda>(hw, e). hw_drain hw e))"
  by pat_completeness auto
termination
  by (relation "measure (\<lambda>(hw, e). length (skb_tx_q hw))")
     (auto dest: dummy_hw_send_irq_queue)

declare hw_drain.simps [simp del]

text \<open>\<open>rounds\<close> is the number of times \<open>kthread_should_stop()\<close> answers false.\<close>

primrec dummy_hw_thread ::
  "nat \<Rightarrow> ('skb, 'm) dummy_hw \<Rightarrow> ('skb, 'm) klog_scheme \<Rightarrow> (('skb, 'm) dummy_hw \<times> ('skb, 'm) klog_scheme) res" where
  "dummy_hw_thread 0 hw e = Inr (hw, e)"
| "dummy_hw_thread (Suc rounds) hw e =
     rbind (hw_drain hw e) (\<lambda>(hw, e). dummy_hw_thread rounds hw e)"

definition lt_hw_tx :: "('skb, 'm) dummy_hw \<Rightarrow> 'skb \<Rightarrow> int \<times> ('skb, 'm) dummy_hw" where
  "lt_hw_tx hw skb = (0, hw\<lparr>skb_tx_q := skb_tx_q hw @ [skb]\<rparr>)"

definition skb_queue_purge ::
  "('skb, 'm) dummy_hw \<Rightarrow> ('skb, 'm) klog_scheme \<Rightarrow> ('skb, 'm) dummy_hw \<times> ('skb, 'm) klog_scheme" where
  "skb_queue_purge hw e = (hw\<lparr>skb_tx_q := []\<rparr>, fold dev_kfree_skb (skb_tx_q hw) e)"

definition lt_request_irq ::
  "bool \<Rightarrow> ('skb, 'm) rx_fn option \<Rightarrow> ('skb, 'm) dummy_hw \<Rightarrow> ('skb, 'm) klog_scheme
     \<Rightarrow> int \<times> ('skb, 'm) dummy_hw \<times> ('skb, 'm) klog_scheme" where
  "lt_request_irq mode rx_fn hw e =
     (if mode \<and> dummy_drv_rx hw = None then (0, hw\<lparr>dummy_drv_rx := rx_fn\<rparr>, e)
      else if \<not> mode \<and> dummy_drv_rx hw \<noteq> None
      then (0, skb_queue_purge (hw\<lparr>dummy_drv_rx := None\<rparr>) e)
      else (0, hw, e))"

text \<open>The argument is what \<open>kthread_run\<close> returns: a task or an \<open>ERR_PTR\<close>.\<close>

definition dummy_hw_init :: "task_ptr \<Rightarrow> ('skb, 'm) dummy_hw \<Rightarrow> int \<times> ('skb, 'm) dummy_hw" where
  "dummy_hw_init t hw =
     (let hw = hw\<lparr>skb_tx_q := [], dummy_drv_rx := None, hw_thread_id := t\<rparr> in
      case t of TaskErr err \<Rightarrow> (err, hw) | _ \<Rightarrow> (0, hw))"

text \<open>
  \<open>rounds\<close> is the number of rounds the thread still makes before \<open>kthread_stop\<close> returns; without
  a thread it is not called.
\<close>

definition dummy_hw_exit ::
  "nat \<Rightarrow> ('skb, 'm) dummy_hw \<Rightarrow> ('skb, 'm) klog_scheme \<Rightarrow> (('skb, 'm) dummy_hw \<times> ('skb, 'm) klog_scheme) res" where
  "dummy_hw_exit rounds hw e =
     rbind (case hw_thread_id hw of Task \<Rightarrow> dummy_hw_thread rounds hw e | _ \<Rightarrow> Inr (hw, e))
       (\<lambda>(hw, e). Inr (skb_queue_purge hw e))"

section \<open>The thread interleaved with its clients\<close>

text \<open>
  \<open>TSleep\<close>: in \<open>msleep\<close>; \<open>TLoop\<close>: about to test \<open>skb_queue_empty\<close>; \<open>TDequeue\<close>: entering
  \<open>dummy_hw_send_irq\<close>; \<open>TGot s\<close>: about to compare \<open>dummy_drv_rx\<close> with NULL; \<open>TFree s\<close> and
  \<open>TCall s\<close>: in the branch taken; \<open>TFault s\<close>: the call went through a NULL pointer or faulted.

  The client of \<open>lt_request_irq\<close> (module load and unload, which exclude each other): \<open>CIdle\<close>
  outside; \<open>CSet\<close>, \<open>CClear\<close>: past the test, about to assign \<open>dummy_drv_rx\<close>; \<open>CPurge\<close>: pointer
  cleared, queue not yet flushed. \<open>LReg\<close> and \<open>LDereg\<close> enter the function, \<open>LClient\<close> goes on in it.
\<close>

datatype 'skb hw_pc = TSleep | TLoop | TDequeue | TGot 'skb | TFree 'skb | TCall 'skb | TFault 'skb

datatype client_pc = CIdle | CSet | CClear | CPurge

datatype 'skb hw_lbl = LThread | LTx 'skb | LReg | LDereg | LClient

record ('skb, 'm) hw_sys =
  hw_of :: "('skb, 'm) dummy_hw"
  env_of :: "('skb, 'm) klog_scheme"
  pc_of :: "'skb hw_pc"
  client_of :: client_pc

inductive hw_step :: "('skb, 'm) rx_fn \<Rightarrow> ('skb, 'm) hw_sys \<Rightarrow> 'skb hw_lbl \<Rightarrow> ('skb, 'm) hw_sys \<Rightarrow> bool"
  for rx where
  wake: "pc_of s = TSleep \<Longrightarrow> hw_step rx s LThread (s\<lparr>pc_of := TLoop\<rparr>)"
| idle: "pc_of s = TLoop \<Longrightarrow> skb_tx_q (hw_of s) = [] \<Longrightarrow> hw_step rx s LThread (s\<lparr>pc_of := TSleep\<rparr>)"
| more: "pc_of s = TLoop \<Longrightarrow> skb_tx_q (hw_of s) \<noteq> [] \<Longrightarrow> hw_step rx s LThread (s\<lparr>pc_of := TDequeue\<rparr>)"
| deq_none: "pc_of s = TDequeue \<Longrightarrow> skb_tx_q (hw_of s) = [] \<Longrightarrow>
    hw_step rx s LThread (s\<lparr>pc_of := TLoop\<rparr>)"
| deq_some: "pc_of s = TDequeue \<Longrightarrow> skb_tx_q (hw_of s) = skb # q \<Longrightarrow>
    hw_step rx s LThread (s\<lparr>hw_of := (hw_of s)\<lparr>skb_tx_q := q\<rparr>, pc_of := TGot skb\<rparr>)"
| test_null: "pc_of s = TGot skb \<Longrightarrow> dummy_drv_rx (hw_of s) = None \<Longrightarrow>
    hw_step rx s LThread (s\<lparr>pc_of := TFree skb\<rparr>)"
| test_set: "pc_of s = TGot skb \<Longrightarrow> dummy_drv_rx (hw_of s) \<noteq> None \<Longrightarrow>
    hw_step rx s LThread (s\<lparr>pc_of := TCall skb\<rparr>)"
| free_skb: "pc_of s = TFree skb \<Longrightarrow>
    hw_step rx s LThread (s\<lparr>env_of := dev_kfree_skb skb (env_of s), pc_of := TLoop\<rparr>)"
| call_null: "pc_of s = TCall skb \<Longrightarrow> dummy_drv_rx (hw_of s) = None \<Longrightarrow>
    hw_step rx s LThread (s\<lparr>pc_of := TFault skb\<rparr>)"
| call_fault: "pc_of s = TCall skb \<Longrightarrow> dummy_drv_rx (hw_of s) = Some f \<Longrightarrow> f (env_of s) skb = Inl x \<Longrightarrow>
    hw_step rx s LThread (s\<lparr>pc_of := TFault skb\<rparr>)"
| call_ok: "pc_of s = TCall skb \<Longrightarrow> dummy_drv_rx (hw_of s) = Some f \<Longrightarrow> f (env_of s) skb = Inr (r, e) \<Longrightarrow>
    hw_step rx s LThread (s\<lparr>env_of := e, pc_of := TLoop\<rparr>)"
| tx: "lt_hw_tx (hw_of s) skb = (0, hw) \<Longrightarrow> hw_step rx s (LTx skb) (s\<lparr>hw_of := hw\<rparr>)"
| reg_test: "client_of s = CIdle \<Longrightarrow> dummy_drv_rx (hw_of s) = None \<Longrightarrow>
    hw_step rx s LReg (s\<lparr>client_of := CSet\<rparr>)"
| reg_skip: "client_of s = CIdle \<Longrightarrow> dummy_drv_rx (hw_of s) \<noteq> None \<Longrightarrow> hw_step rx s LReg s"
| reg_set: "client_of s = CSet \<Longrightarrow>
    hw_step rx s LClient (s\<lparr>hw_of := (hw_of s)\<lparr>dummy_drv_rx := Some rx\<rparr>, client_of := CIdle\<rparr>)"
| dereg_test: "client_of s = CIdle \<Longrightarrow> dummy_drv_rx (hw_of s) \<noteq> None \<Longrightarrow>
    hw_step rx s LDereg (s\<lparr>client_of := CClear\<rparr>)"
| dereg_skip: "client_of s = CIdle \<Longrightarrow> dummy_drv_rx (hw_of s) = None \<Longrightarrow> hw_step rx s LDereg s"
| dereg_clear: "client_of s = CClear \<Longrightarrow>
    hw_step rx s LClient (s\<lparr>hw_of := (hw_of s)\<lparr>dummy_drv_rx := None\<rparr>, client_of := CPurge\<rparr>)"
| dereg_purge: "client_of s = CPurge \<Longrightarrow> skb_queue_purge (hw_of s) (env_of s) = (hw, e) \<Longrightarrow>
    hw_step rx s LClient (s\<lparr>hw_of := hw, env_of := e, client_of := CIdle\<rparr>)"

inductive hw_run :: "('skb, 'm) rx_fn \<Rightarrow> ('skb, 'm) hw_sys \<Rightarrow> 'skb hw_lbl list \<Rightarrow> ('skb, 'm) hw_sys \<Rightarrow> bool"
  for rx where
  none: "hw_run rx s [] s"
| step: "hw_run rx s ls t \<Longrightarrow> hw_step rx t l u \<Longrightarrow> hw_run rx s (ls @ [l]) u"

text \<open>The module right after \<open>dummy_hw_init\<close>, its thread about to sleep.\<close>

definition hw_start :: "('skb, 'm) klog_scheme \<Rightarrow> ('skb, 'm) hw_sys" where
  "hw_start e =
     \<lparr>hw_of = \<lparr>skb_tx_q = [], dummy_drv_rx = None, hw_thread_id = Task\<rparr>, env_of = e, pc_of = TSleep,
      client_of = CIdle\<rparr>"

lemma hw_run_append:
  assumes "hw_run rx s ls t" "hw_run rx t ls' u"
  shows "hw_run rx s (ls @ ls') u"
  using assms(2,1)
  by (induction rule: hw_run.induct) (auto intro: hw_run.step simp flip: append_assoc)

text \<open>
  A client that nobody interrupts runs the sequential \<open>lt_request_irq\<close>: its steps, one after the
  other, change the module as the function does.
\<close>

lemma lt_request_irq_runs:
  assumes "client_of s = CIdle"
    and "lt_request_irq mode (if mode then Some rx else None) (hw_of s) (env_of s) = (r, hw, e)"
  shows "\<exists>ls. set ls \<subseteq> {LReg, LDereg, LClient} \<and> hw_run rx s ls (s\<lparr>hw_of := hw, env_of := e\<rparr>)"
proof -
  have one: "hw_step rx s l u \<Longrightarrow> hw_run rx s [l] u" for s u :: "('a, 'b) hw_sys" and l
    using hw_run.step [OF hw_run.none, of rx s l u] by simp
  consider (set) "mode" "dummy_drv_rx (hw_of s) = None" | (skip) "mode" "dummy_drv_rx (hw_of s) \<noteq> None"
    | (clear) "\<not> mode" "dummy_drv_rx (hw_of s) \<noteq> None" | (none) "\<not> mode" "dummy_drv_rx (hw_of s) = None"
    by blast
  then show ?thesis
  proof cases
    case set
    have "hw_run rx s ([LReg] @ [LClient]) (s\<lparr>client_of := CSet,
        hw_of := (hw_of s)\<lparr>dummy_drv_rx := Some rx\<rparr>, client_of := CIdle\<rparr>)"
      using hw_step.reg_test [OF assms(1) set(2), of rx]
        hw_step.reg_set [of "s\<lparr>client_of := CSet\<rparr>" rx]
      by (intro hw_run_append one) auto
    then show ?thesis
      using assms set by (intro exI [of _ "[LReg, LClient]"]) (cases s; auto simp: lt_request_irq_def)
  next
    case skip
    then show ?thesis
      using assms one [OF hw_step.reg_skip [OF assms(1) skip(2), of rx]]
      by (intro exI [of _ "[LReg]"]) (auto simp: lt_request_irq_def)
  next
    case clear
    let ?s1 = "s\<lparr>client_of := CClear\<rparr>"
    let ?s2 = "?s1\<lparr>hw_of := (hw_of s)\<lparr>dummy_drv_rx := None\<rparr>, client_of := CPurge\<rparr>"
    let ?s3 = "?s2\<lparr>hw_of := hw, env_of := e, client_of := CIdle\<rparr>"
    have p: "skb_queue_purge (hw_of ?s2) (env_of ?s2) = (hw, e)"
      using assms(2) clear by (simp add: lt_request_irq_def)
    have "hw_run rx s ([LDereg] @ [LClient] @ [LClient]) ?s3"
      using hw_step.dereg_test [OF assms(1) clear(2), of rx] hw_step.dereg_clear [of ?s1 rx]
        hw_step.dereg_purge [OF _ p, of rx]
      by (intro hw_run_append one) auto
    moreover have "?s3 = s\<lparr>hw_of := hw, env_of := e\<rparr>" using assms(1) by (cases s) simp
    ultimately show ?thesis by (intro exI [of _ "[LDereg, LClient, LClient]"]) auto
  next
    case none
    then show ?thesis
      using assms one [OF hw_step.dereg_skip [OF assms(1) none(2), of rx]]
      by (intro exI [of _ "[LDereg]"]) (auto simp: lt_request_irq_def)
  qed
qed

section \<open>Where each frame is\<close>

fun pc_skbs :: "'skb hw_pc \<Rightarrow> 'skb list" where
  "pc_skbs (TGot s) = [s]"
| "pc_skbs (TFree s) = [s]"
| "pc_skbs (TCall s) = [s]"
| "pc_skbs (TFault s) = [s]"
| "pc_skbs _ = []"

definition held :: "('skb \<Rightarrow> 'i) \<Rightarrow> ('skb, 'm) hw_sys \<Rightarrow> 'i multiset" where
  "held ident s =
     image_mset ident (mset (skb_tx_q (hw_of s)) + mset (pc_skbs (pc_of s)))
     + image_mset (ident \<circ> event_skb) (mset (skb_log (env_of s)))"

fun sent :: "'skb hw_lbl list \<Rightarrow> 'skb list" where
  "sent [] = []"
| "sent (LTx s # ls) = s # sent ls"
| "sent (_ # ls) = sent ls"

lemma sent_append: "sent (xs @ ys) = sent xs @ sent ys"
  by (induction xs rule: sent.induct) auto

lemma skb_log_kfree [simp]: "skb_log (dev_kfree_skb s e) = skb_log e @ [KfreeSkb s]"
  by (simp add: dev_kfree_skb_def)

lemma skb_log_purge: "skb_log (fold dev_kfree_skb ss e) = skb_log e @ map KfreeSkb ss"
  by (induction ss arbitrary: e) auto

section \<open>Clients of a well-behaved callback\<close>

text \<open>
  The contract of the registered callback: it either faults or disposes of exactly the frame it
  was given (identified by \<open>ident\<close>, since it may rewrite the bytes first).
\<close>

locale rx_callback =
  fixes rx :: "('skb, 'm) rx_fn"
    and ident :: "'skb \<Rightarrow> 'i"
  assumes consumes: "rx e s = Inr (r, e') \<Longrightarrow>
    \<exists>ev. skb_log e' = skb_log e @ [ev] \<and> ident (event_skb ev) = ident s"
begin

definition registered_ok :: "('skb, 'm) hw_sys \<Rightarrow> bool" where
  "registered_ok s \<longleftrightarrow> dummy_drv_rx (hw_of s) \<in> {None, Some rx}"

lemma step_registered_ok: "hw_step rx s l t \<Longrightarrow> registered_ok s \<Longrightarrow> registered_ok t"
  by (induction rule: hw_step.induct)
     (auto simp: registered_ok_def lt_hw_tx_def skb_queue_purge_def)

lemma step_held:
  assumes "hw_step rx s l t" "registered_ok s"
  shows "held ident t = held ident s + image_mset ident (mset (sent [l]))"
  using assms
proof (induction rule: hw_step.induct)
  case (call_ok s skb f r e)
  then have "rx (env_of s) skb = Inr (r, e)" by (auto simp: registered_ok_def)
  then obtain ev where "skb_log e = skb_log (env_of s) @ [ev]" "ident (event_skb ev) = ident skb"
    using consumes by blast
  then show ?case using call_ok by (simp add: held_def)
qed (auto simp: held_def lt_hw_tx_def skb_queue_purge_def skb_log_purge
       multiset.map_comp comp_def)

lemma run_registered_ok: "hw_run rx s ls t \<Longrightarrow> registered_ok s \<Longrightarrow> registered_ok t"
  by (induction rule: hw_run.induct) (auto intro: step_registered_ok)

lemma run_held:
  "hw_run rx s ls t \<Longrightarrow> registered_ok s \<Longrightarrow>
     held ident t = held ident s + image_mset ident (mset (sent ls))"
proof (induction rule: hw_run.induct)
  case (step s ls t l u)
  then have "registered_ok t" using run_registered_ok by blast
  then show ?case using step_held [OF step.hyps(2)] step by (simp add: sent_append)
qed simp

lemma start_registered_ok: "registered_ok (hw_start e)"
  by (simp add: registered_ok_def hw_start_def)

text \<open>The sequential inner loop hands every queued frame to the callback, once and in order.\<close>

lemma drain_log:
  "hw_drain hw e = Inr (hw', e') \<Longrightarrow> dummy_drv_rx hw = Some rx \<Longrightarrow>
     skb_tx_q hw' = [] \<and> (\<exists>evs. skb_log e' = skb_log e @ evs
        \<and> map (ident \<circ> event_skb) evs = map ident (skb_tx_q hw))"
proof (induction hw e rule: hw_drain.induct)
  case (1 hw e)
  show ?case
  proof (cases "skb_tx_q hw")
    case Nil
    then show ?thesis using "1.prems" by (simp add: hw_drain.simps [of hw e])
  next
    case (Cons skb q)
    let ?hw = "hw\<lparr>skb_tx_q := q\<rparr>"
    have "\<exists>r e1. rx e skb = Inr (r, e1) \<and> hw_drain ?hw e1 = Inr (hw', e')"
      using "1.prems" Cons
      by (subst (asm) hw_drain.simps) (auto simp: dummy_hw_send_irq_def rbind_eq_Inr)
    then obtain r e1 where rx1: "rx e skb = Inr (r, e1)" and d1: "hw_drain ?hw e1 = Inr (hw', e')"
      by blast
    have send: "dummy_hw_send_irq hw e = Inr (?hw, e1)"
      using Cons rx1 "1.prems" by (simp add: dummy_hw_send_irq_def)
    obtain ev where ev: "skb_log e1 = skb_log e @ [ev]" "ident (event_skb ev) = ident skb"
      using consumes [OF rx1] by blast
    have "skb_tx_q hw' = [] \<and> (\<exists>evs. skb_log e' = skb_log e1 @ evs
        \<and> map (ident \<circ> event_skb) evs = map ident q)"
      using "1.IH" [OF _ send refl d1] Cons "1.prems" by (simp add: comp_def)
    then obtain evs where evs: "skb_tx_q hw' = []" "skb_log e' = skb_log e1 @ evs"
        "map (ident \<circ> event_skb) evs = map ident q" by blast
    have "skb_log e' = skb_log e @ (ev # evs)
        \<and> map (ident \<circ> event_skb) (ev # evs) = map ident (skb_tx_q hw)"
      using evs ev Cons by simp
    then show ?thesis using evs(1) by blast
  qed
qed

end

section \<open>Faults of the thread\<close>

text \<open>
  As long as nobody deregisters the callback, the thread never calls through NULL: once it has
  seen a callback, that callback stays.
\<close>

definition call_safe :: "('skb, 'm) rx_fn \<Rightarrow> ('skb, 'm) hw_sys \<Rightarrow> bool" where
  "call_safe rx s \<longleftrightarrow>
     dummy_drv_rx (hw_of s) \<in> {None, Some rx} \<and> client_of s \<in> {CIdle, CSet}
     \<and> (\<forall>skb. pc_of s = TCall skb \<longrightarrow> dummy_drv_rx (hw_of s) = Some rx)"

lemma step_call_safe: "hw_step rx s l t \<Longrightarrow> l \<noteq> LDereg \<Longrightarrow> call_safe rx s \<Longrightarrow> call_safe rx t"
  by (induction rule: hw_step.induct)
     (auto simp: call_safe_def lt_hw_tx_def)

lemma run_call_safe: "hw_run rx s ls t \<Longrightarrow> LDereg \<notin> set ls \<Longrightarrow> call_safe rx s \<Longrightarrow> call_safe rx t"
  by (induction rule: hw_run.induct) (auto intro: step_call_safe)

lemma start_call_safe: "call_safe rx (hw_start e)"
  by (simp add: call_safe_def hw_start_def)

end
