(* ===== verification/Dummy_Eth.thy ===== *)
theory Dummy_Eth
  imports Checksum Dummy_Hw
begin

unbundle bit_operations_syntax

text \<open>
  The Ethernet driver of \<open>linux-netdevice-driver-test/dummy-eth.c\<close>: the receive reflector
  (\<open>dummy_eth_rx\<close> with \<open>dummy_arp_reply\<close> and \<open>dummy_icmp_reply\<close>), the transmit path and the
  other \<open>net_device_ops\<close>, and module load and unload.

  \<^item> A frame is an \<open>sk_buff\<close> with a linear part (the bytes from \<open>skb->data\<close> on), the rest in
    fragments, the identity of the buffer behind \<open>skb->data\<close>, and the bytes between
    \<open>mac_header\<close> and \<open>skb->data\<close>. Header pointers are a buffer and an offset. Every access through
    one goes through \<open>skb_read\<close> or \<open>skb_write\<close>, which check that the buffer is still the frame's
    (\<open>pskb_may_pull\<close> may have moved the data; the access is then \<open>UseAfterFree\<close>) and that
    the bytes lie in the linear part (otherwise \<open>OutOfBounds\<close>).
  \<^item> \<open>netdevs\<close> holds every \<open>net_device\<close> from \<open>alloc_netdev\<close> to \<open>free_netdev\<close>, registered or not.
  \<^item> The kernel functions that answer or compute are the fields of \<open>eth_kernel\<close>;
    \<open>eth_kernel_ok\<close> states what the kernel documents of them.
  \<^item> Shown: the ARP answer as a refinement of \<open>arp_answer\<close> on decoded packets; the ICMP answer byte
    for byte with both checksums valid; that \<open>dummy_eth_rx\<close> meets the contract \<open>rx_callback\<close>
    of the hardware layer; the accounting of \<open>dummy_get_stats64\<close>; the roll-back of a failed load;
    and the two faults the reflector can run into.
\<close>

section \<open>Frames, devices and the kernel's answers\<close>

record sk_buff =
  skb_id :: nat
  skb_lin :: bytes
  skb_frags :: bytes
  skb_mac :: bytes
  skb_head :: nat
  skb_dev :: "nat option"
  pkt_type :: u8
  protocol :: u16

definition skb_len :: "sk_buff \<Rightarrow> nat" where
  "skb_len s = length (skb_lin s) + length (skb_frags s)"

record pcpu_dstats =
  rx_packets :: u64
  rx_bytes :: u64
  tx_packets :: u64
  tx_bytes :: u64

datatype netif_feature = NETIF_F_SG | NETIF_F_FRAGLIST | NETIF_F_HIGHDMA

record deth_dev =
  dstats :: "(nat \<Rightarrow> pcpu_dstats) option"
  carrier :: bool
  queue_stopped :: bool
  features :: "netif_feature set"
  needs_free_netdev :: bool
  dev_addr :: bytes
  reg_state :: bool

record eth_env = "sk_buff klog" +
  netdevs :: "nat \<Rightarrow> deth_dev option"
  pcpu_leaked :: nat
  link_registered :: bool

record eth_kernel =
  pull_k :: "sk_buff \<Rightarrow> nat \<Rightarrow> (bytes \<times> bytes \<times> nat) option"
  ip_fast_csum :: "bytes \<Rightarrow> nat \<Rightarrow> u16"
  csum_partial :: "bytes \<Rightarrow> u32"
  csum_fold :: "u32 \<Rightarrow> u16"
  eth_type_k :: "sk_buff \<Rightarrow> nat option \<Rightarrow> u16 \<times> u8"

definition pskb_may_pull :: "eth_kernel \<Rightarrow> sk_buff \<Rightarrow> nat \<Rightarrow> sk_buff option" where
  "pskb_may_pull K s n =
     map_option (\<lambda>(l, f, h). s\<lparr>skb_lin := l, skb_frags := f, skb_head := h\<rparr>) (pull_k K s n)"

text \<open>
  \<open>eth_type_trans\<close> sets the device, makes \<open>skb->data\<close> the MAC header, pulls the \<open>ETH_HLEN\<close> bytes of
  it off the data (\<open>skb->len\<close> shrinks) and returns the protocol; the kernel decides the
  protocol and the packet type from the header and the device's address.
\<close>

definition eth_type_trans :: "eth_kernel \<Rightarrow> sk_buff \<Rightarrow> nat option \<Rightarrow> u16 \<times> sk_buff" where
  "eth_type_trans K s dev =
     (let (proto, pt) = eth_type_k K s dev in
      (proto, s\<lparr>skb_dev := dev, skb_mac := take ETH_HLEN (skb_lin s),
                 skb_lin := drop ETH_HLEN (skb_lin s), pkt_type := pt\<rparr>))"

text \<open>
  Pointers into the frame. \<open>skb_data s\<close> is \<open>skb->data\<close>; it points to the buffer the frame has now.
\<close>

type_synonym frame_ptr = "nat \<times> nat"

definition skb_data :: "sk_buff \<Rightarrow> frame_ptr" where
  "skb_data s = (skb_head s, 0)"

definition padd :: "frame_ptr \<Rightarrow> nat \<Rightarrow> frame_ptr" where
  "padd p n = (fst p, snd p + n)"

definition access :: "sk_buff \<Rightarrow> frame_ptr \<Rightarrow> nat \<Rightarrow> 'a \<Rightarrow> 'a res" where
  "access s p n x =
     (if fst p \<noteq> skb_head s then Inl UseAfterFree
      else if length (skb_lin s) < snd p + n then Inl OutOfBounds else Inr x)"

definition skb_read :: "sk_buff \<Rightarrow> frame_ptr \<Rightarrow> nat \<Rightarrow> bytes res" where
  "skb_read s p n = access s p n (slice (skb_lin s) (snd p) n)"

definition skb_write :: "frame_ptr \<Rightarrow> bytes \<Rightarrow> sk_buff \<Rightarrow> sk_buff res" where
  "skb_write p vs s = access s p (length vs) (s\<lparr>skb_lin := put (snd p) vs (skb_lin s)\<rparr>)"

definition skb_read8 :: "sk_buff \<Rightarrow> frame_ptr \<Rightarrow> u8 res" where
  "skb_read8 s p = rbind (skb_read s p 1) (\<lambda>b. Inr (b ! 0))"

definition skb_read16 :: "sk_buff \<Rightarrow> frame_ptr \<Rightarrow> u16 res" where
  "skb_read16 s p = rbind (skb_read s p 2) (\<lambda>b. Inr (be16_at b 0))"

text \<open>
  The documented behaviour: a pull within the linear part changes nothing, a pull beyond the
  frame fails, a successful pull keeps the bytes and makes the linear part long enough; the
  checksum helpers compute the Internet checksum.
\<close>

definition pull_ok :: "eth_kernel \<Rightarrow> bool" where
  "pull_ok K \<longleftrightarrow>
     (\<forall>s n. n \<le> length (skb_lin s) \<longrightarrow> pull_k K s n = Some (skb_lin s, skb_frags s, skb_head s))
     \<and> (\<forall>s n. skb_len s < n \<longrightarrow> pull_k K s n = None)
     \<and> (\<forall>s n l f h. pull_k K s n = Some (l, f, h) \<longrightarrow> l @ f = skb_lin s @ skb_frags s \<and> n \<le> length l)"

definition csum_ok :: "eth_kernel \<Rightarrow> bool" where
  "csum_ok K \<longleftrightarrow>
     (\<forall>bs ihl. 5 \<le> ihl \<longrightarrow> length bs = 4 * ihl \<longrightarrow> ip_fast_csum K bs ihl = inet_csum bs)
     \<and> (\<forall>bs. csum_fold K (csum_partial K bs) = inet_csum bs)"

definition eth_kernel_ok :: "eth_kernel \<Rightarrow> bool" where
  "eth_kernel_ok K \<longleftrightarrow> pull_ok K \<and> csum_ok K"

section \<open>The receive reflector\<close>

definition dummy_fake_mac :: "bytes \<Rightarrow> bytes" where
  "dummy_fake_mac ip4 = [0x02, 0xde, ip4 ! 0, ip4 ! 1, ip4 ! 2, ip4 ! 3]"

text \<open>
  Offsets from \<open>arp\<close>: \<open>ar_pro\<close> at +2, \<open>ar_hln\<close> at +4, \<open>ar_pln\<close> at +5, \<open>ar_op\<close> at +6, the payload \<open>p\<close>
  at +8; from \<open>eth\<close>: \<open>h_dest\<close> at +0, \<open>h_source\<close> at +6. \<open>arp_rejects\<close> is the condition of the
  second \<open>if\<close>, evaluated left to right; \<open>arp_rewrite\<close> is the rest of the function.
\<close>

definition arp_rejects :: "sk_buff \<Rightarrow> frame_ptr \<Rightarrow> bool res" where
  "arp_rejects skb arp =
     rbind (skb_read16 skb (padd arp 6)) (\<lambda>ar_op. if ar_op \<noteq> 1 then Inr True else
     rbind (skb_read16 skb (padd arp 2)) (\<lambda>ar_pro. if ar_pro \<noteq> ETH_P_IP then Inr True else
     rbind (skb_read8 skb (padd arp 4)) (\<lambda>ar_hln. if ar_hln \<noteq> 6 then Inr True else
     rbind (skb_read8 skb (padd arp 5)) (\<lambda>ar_pln. Inr (ar_pln \<noteq> 4)))))"

definition arp_rewrite :: "frame_ptr \<Rightarrow> frame_ptr \<Rightarrow> sk_buff \<Rightarrow> sk_buff res" where
  "arp_rewrite eth arp skb =
     (let p = padd arp 8 in
      rbind (skb_read skb p ETH_ALEN) (\<lambda>sha.
      rbind (skb_read skb (padd p ETH_ALEN) 4) (\<lambda>sip.
      rbind (skb_read skb (padd p (ETH_ALEN + 4 + ETH_ALEN)) 4) (\<lambda>tip.
      let fake = dummy_fake_mac tip in
      rbind (skb_write (padd arp 6) (be16_bytes 2) skb) (\<lambda>skb.
      rbind (skb_write p fake skb) (\<lambda>skb.
      rbind (skb_write (padd p ETH_ALEN) tip skb) (\<lambda>skb.
      rbind (skb_write (padd p (ETH_ALEN + 4)) sha skb) (\<lambda>skb.
      rbind (skb_write (padd p (ETH_ALEN + 4 + ETH_ALEN)) sip skb) (\<lambda>skb.
      rbind (skb_write eth sha skb) (\<lambda>skb.
      skb_write (padd eth ETH_ALEN) fake skb))))))))))"

definition dummy_arp_reply :: "eth_kernel \<Rightarrow> sk_buff \<Rightarrow> (int \<times> sk_buff) res" where
  "dummy_arp_reply K skb =
     (let eth = skb_data skb; arp = padd (skb_data skb) ETH_HLEN in
      case pskb_may_pull K skb (ETH_HLEN + 8 + 2 * (ETH_ALEN + 4)) of
        None \<Rightarrow> Inr (- EINVAL, skb)
      | Some skb \<Rightarrow>
          rbind (arp_rejects skb arp) (\<lambda>no.
            if no then Inr (- EINVAL, skb)
            else rbind (arp_rewrite eth arp skb) (\<lambda>skb. Inr (0, skb))))"

text \<open>
  Offsets from \<open>iph\<close>: \<open>ihl\<close> in the low nibble of +0, \<open>tot_len\<close> at +2, \<open>protocol\<close> at +9,
  \<open>check\<close> at +10, \<open>saddr\<close> at +12, \<open>daddr\<close> at +16; from \<open>icmph\<close>: \<open>type\<close> at +0,
  \<open>checksum\<close> at +2. \<open>icmp_len\<close> is an \<open>unsigned int\<close> and wraps.
\<close>

definition icmp_swap :: "frame_ptr \<Rightarrow> frame_ptr \<Rightarrow> frame_ptr \<Rightarrow> sk_buff \<Rightarrow> sk_buff res" where
  "icmp_swap eth iph icmph skb =
     rbind (skb_read skb eth ETH_ALEN) (\<lambda>mac.
     rbind (skb_read skb (padd eth ETH_ALEN) ETH_ALEN) (\<lambda>src.
     rbind (skb_write eth src skb) (\<lambda>skb.
     rbind (skb_write (padd eth ETH_ALEN) mac skb) (\<lambda>skb.
     rbind (skb_read skb (padd iph 16) 4) (\<lambda>addr.
     rbind (skb_read skb (padd iph 12) 4) (\<lambda>saddr.
     rbind (skb_write (padd iph 16) saddr skb) (\<lambda>skb.
     rbind (skb_write (padd iph 12) addr skb) (\<lambda>skb.
     skb_write icmph [0] skb))))))))"

definition icmp_ip_check :: "eth_kernel \<Rightarrow> frame_ptr \<Rightarrow> sk_buff \<Rightarrow> sk_buff res" where
  "icmp_ip_check K iph skb =
     rbind (skb_write (padd iph 10) (be16_bytes 0) skb) (\<lambda>skb.
     rbind (skb_read8 skb iph) (\<lambda>b.
     let ihl = unat (b AND 15) in
     rbind (skb_read skb iph (4 * ihl)) (\<lambda>hdr.
     skb_write (padd iph 10) (be16_bytes (ip_fast_csum K hdr ihl)) skb)))"

definition icmp_checksum ::
  "eth_kernel \<Rightarrow> frame_ptr \<Rightarrow> frame_ptr \<Rightarrow> nat \<Rightarrow> sk_buff \<Rightarrow> sk_buff res" where
  "icmp_checksum K iph icmph ihl skb =
     rbind (skb_read16 skb (padd iph 2)) (\<lambda>tot_len.
     let icmp_len = unat (of_nat (unat tot_len) - of_nat ihl :: u32) in
     rbind (skb_write (padd icmph 2) (be16_bytes 0) skb) (\<lambda>skb.
     rbind (skb_read skb icmph icmp_len) (\<lambda>msg.
     skb_write (padd icmph 2) (be16_bytes (csum_fold K (csum_partial K msg))) skb)))"

definition icmp_rewrite ::
  "eth_kernel \<Rightarrow> frame_ptr \<Rightarrow> frame_ptr \<Rightarrow> frame_ptr \<Rightarrow> nat \<Rightarrow> sk_buff \<Rightarrow> sk_buff res" where
  "icmp_rewrite K eth iph icmph ihl skb =
     rbind (icmp_swap eth iph icmph skb) (\<lambda>skb.
     rbind (icmp_ip_check K iph skb) (\<lambda>skb.
     icmp_checksum K iph icmph ihl skb))"

text \<open>\<open>icmp_answer\<close> is the function from its second \<open>pskb_may_pull\<close> on.\<close>

definition icmp_answer ::
  "eth_kernel \<Rightarrow> frame_ptr \<Rightarrow> frame_ptr \<Rightarrow> nat \<Rightarrow> sk_buff \<Rightarrow> (int \<times> sk_buff) res" where
  "icmp_answer K eth iph ihl skb =
     (let icmph = padd iph ihl in
      case pskb_may_pull K skb (ETH_HLEN + ihl + 8) of
        None \<Rightarrow> Inr (- EINVAL, skb)
      | Some skb \<Rightarrow>
          rbind (skb_read8 skb icmph) (\<lambda>type.
          if type \<noteq> 8 then Inr (- EINVAL, skb)
          else rbind (icmp_rewrite K eth iph icmph ihl skb) (\<lambda>skb. Inr (0, skb))))"

definition dummy_icmp_reply :: "eth_kernel \<Rightarrow> sk_buff \<Rightarrow> (int \<times> sk_buff) res" where
  "dummy_icmp_reply K skb =
     (let eth = skb_data skb; iph = padd (skb_data skb) ETH_HLEN in
      case pskb_may_pull K skb (ETH_HLEN + SIZEOF_IPHDR) of
        None \<Rightarrow> Inr (- EINVAL, skb)
      | Some skb \<Rightarrow>
          rbind (skb_read8 skb (padd iph 9)) (\<lambda>proto.
          if proto \<noteq> IPPROTO_ICMP then Inr (- EINVAL, skb)
          else rbind (skb_read8 skb iph) (\<lambda>b. icmp_answer K eth iph (4 * unat (b AND 15)) skb)))"

definition netif_rx :: "sk_buff \<Rightarrow> eth_env \<Rightarrow> eth_env" where
  "netif_rx s e = e\<lparr>skb_log := skb_log e @ [NetifRx s]\<rparr>"

text \<open>Updating the counters of one CPU through \<open>this_cpu_ptr(priv->dstats)\<close>.\<close>

definition upd_dstats :: "nat \<Rightarrow> nat \<Rightarrow> (pcpu_dstats \<Rightarrow> pcpu_dstats) \<Rightarrow> eth_env \<Rightarrow> eth_env res" where
  "upd_dstats dev cpu f e =
     (case netdevs e dev of
        None \<Rightarrow> Inl UseAfterFree
      | Some d \<Rightarrow>
          rbind (deref (dstats d)) (\<lambda>st.
            Inr (e\<lparr>netdevs := (netdevs e)(dev \<mapsto> d\<lparr>dstats := Some (st(cpu := f (st cpu)))\<rparr>)\<rparr>)))"

text \<open>The switch on the EtherType.\<close>

definition eth_dispatch :: "eth_kernel \<Rightarrow> sk_buff \<Rightarrow> (int \<times> sk_buff) res" where
  "eth_dispatch K skb =
     rbind (skb_read16 skb (padd (skb_data skb) 12)) (\<lambda>h_proto.
       if h_proto = ETH_P_ARP then dummy_arp_reply K skb
       else if h_proto = ETH_P_IP then dummy_icmp_reply K skb
       else Inr (- EINVAL, skb))"

definition dummy_eth_rx :: "eth_kernel \<Rightarrow> nat \<Rightarrow> eth_env \<Rightarrow> sk_buff option \<Rightarrow> (int \<times> eth_env) res" where
  "dummy_eth_rx K cpu e skb =
     (case skb of
        None \<Rightarrow> Inr (- EINVAL, e)
      | Some skb \<Rightarrow>
          let dev = skb_dev skb in
          (case pskb_may_pull K skb ETH_HLEN of
             None \<Rightarrow> Inr (- EINVAL, dev_kfree_skb skb e)
           | Some skb \<Rightarrow>
               rbind (eth_dispatch K skb)
                 (\<lambda>(ret, skb).
                    if ret \<noteq> 0 then Inr (ret, dev_kfree_skb skb e)
                    else
                      let len = skb_len skb;
                          skb = skb\<lparr>pkt_type := 0\<rparr>;
                          (proto, skb) = eth_type_trans K skb dev;
                          skb = skb\<lparr>protocol := proto\<rparr> in
                      rbind (case dev of
                               None \<Rightarrow> Inr e
                             | Some dev \<Rightarrow>
                                 upd_dstats dev cpu (\<lambda>st. st\<lparr>rx_packets := rx_packets st + 1,
                                   rx_bytes := rx_bytes st + of_nat len\<rparr>) e)
                        (\<lambda>e. Inr (0, netif_rx skb e)))))"

section \<open>The device operations\<close>

text \<open>\<open>ok\<close> says whether the per-CPU allocation succeeds; fresh counters are zero.\<close>

definition zero_dstats :: pcpu_dstats where
  "zero_dstats = \<lparr>rx_packets = 0, rx_bytes = 0, tx_packets = 0, tx_bytes = 0\<rparr>"

definition dummy_dev_init :: "bool \<Rightarrow> deth_dev \<Rightarrow> int \<times> deth_dev" where
  "dummy_dev_init ok d =
     (let d = d\<lparr>dstats := (if ok then Some (\<lambda>_. zero_dstats) else None)\<rparr> in
      if dstats d = None then (- ENOMEM, d) else (0, d))"

definition dummy_dev_uninit :: "deth_dev \<Rightarrow> deth_dev" where
  "dummy_dev_uninit d = d\<lparr>dstats := None\<rparr>"

definition dummy_open :: "deth_dev \<Rightarrow> int \<times> deth_dev" where
  "dummy_open d = (0, d\<lparr>carrier := True, queue_stopped := False\<rparr>)"

definition dummy_close :: "deth_dev \<Rightarrow> int \<times> deth_dev" where
  "dummy_close d = (0, d\<lparr>queue_stopped := True, carrier := False\<rparr>)"

definition dummy_change_carrier :: "deth_dev \<Rightarrow> bool \<Rightarrow> int \<times> deth_dev" where
  "dummy_change_carrier d new_carrier = (0, d\<lparr>carrier := new_carrier\<rparr>)"

type_synonym eth_hw = "(sk_buff, unit eth_env_ext) dummy_hw"

definition dummy_xmit ::
  "nat \<Rightarrow> eth_hw \<Rightarrow> eth_env \<Rightarrow> sk_buff \<Rightarrow> nat \<Rightarrow> (int \<times> eth_hw \<times> eth_env) res" where
  "dummy_xmit cpu hw e skb dev =
     rbind (upd_dstats dev cpu (\<lambda>st. st\<lparr>tx_packets := tx_packets st + 1,
              tx_bytes := tx_bytes st + of_nat (skb_len skb)\<rparr>) e)
       (\<lambda>e. let (r, hw) = lt_hw_tx hw skb in
            Inr (0, hw, if r \<noteq> 0 then dev_kfree_skb skb e else e))"

text \<open>
  \<open>cpus\<close> lists the possible CPUs. The retry loop of the statistics seqcount reads the four
  counters of one CPU as one snapshot.
\<close>

definition add_dstats :: "pcpu_dstats \<Rightarrow> pcpu_dstats \<Rightarrow> pcpu_dstats" where
  "add_dstats a b =
     \<lparr>rx_packets = rx_packets a + rx_packets b, rx_bytes = rx_bytes a + rx_bytes b,
      tx_packets = tx_packets a + tx_packets b, tx_bytes = tx_bytes a + tx_bytes b\<rparr>"

fun sum_dstats :: "nat list \<Rightarrow> (nat \<Rightarrow> pcpu_dstats) \<Rightarrow> pcpu_dstats \<Rightarrow> pcpu_dstats" where
  "sum_dstats [] st acc = acc"
| "sum_dstats (i # cpus) st acc = sum_dstats cpus st (add_dstats acc (st i))"

definition dummy_get_stats64 :: "nat list \<Rightarrow> eth_env \<Rightarrow> nat \<Rightarrow> pcpu_dstats \<Rightarrow> pcpu_dstats res" where
  "dummy_get_stats64 cpus e dev stats =
     (case netdevs e dev of
        None \<Rightarrow> Inl UseAfterFree
      | Some d \<Rightarrow> rbind (deref (dstats d)) (\<lambda>st. Inr (sum_dstats cpus st stats)))"

text \<open>\<open>ether_setup\<close> leaves a zeroed device; \<open>mac\<close> is what \<open>eth_hw_addr_random\<close> draws.\<close>

definition dummy_setup :: "bytes \<Rightarrow> deth_dev" where
  "dummy_setup mac =
     \<lparr>dstats = None, carrier = False, queue_stopped = False,
      features = {NETIF_F_SG, NETIF_F_FRAGLIST, NETIF_F_HIGHDMA},
      needs_free_netdev = True, dev_addr = mac, reg_state = False\<rparr>"

section \<open>Module load and unload\<close>

text \<open>
  The kernel's answers during load: the result of \<open>__rtnl_link_register\<close>, the address
  \<open>alloc_netdev\<close> returns (or NULL), the random MAC, whether the per-CPU allocation in \<open>ndo_init\<close>
  succeeds, and \<open>register_netdevice\<close>'s own result.
\<close>

record load_answers =
  link_r :: int
  alloc_r :: "nat option"
  mac_r :: bytes
  pcpu_r :: bool
  reg_r :: int

text \<open>
  \<open>alloc_netdev\<close> takes a \<open>net_device\<close> into \<open>netdevs\<close>, set up but not registered; \<open>free_netdev\<close> takes it
  out again, and per-CPU counters still allocated then are lost. \<open>register_netdevice\<close>
  calls \<open>ndo_init\<close> and, when it fails after that, \<open>ndo_uninit\<close>.
\<close>

definition free_netdev :: "nat \<Rightarrow> eth_env \<Rightarrow> eth_env" where
  "free_netdev dev e =
     (case netdevs e dev of
        None \<Rightarrow> e
      | Some d \<Rightarrow> e\<lparr>netdevs := (netdevs e)(dev := None),
                    pcpu_leaked := pcpu_leaked e + (if dstats d = None then 0 else 1)\<rparr>)"

definition register_netdevice :: "load_answers \<Rightarrow> deth_dev \<Rightarrow> int \<times> deth_dev" where
  "register_netdevice A d =
     (let (err, d) = dummy_dev_init (pcpu_r A) d in
      if err \<noteq> 0 then (err, d)
      else if reg_r A < 0 then (reg_r A, dummy_dev_uninit d) else (0, d\<lparr>reg_state := True\<rparr>))"

definition dummy_init_one ::
  "eth_kernel \<Rightarrow> nat \<Rightarrow> load_answers \<Rightarrow> eth_hw \<Rightarrow> eth_env \<Rightarrow> int \<times> eth_hw \<times> eth_env" where
  "dummy_init_one K cpu A hw e =
     (case alloc_r A of
        None \<Rightarrow> (- ENOMEM, hw, e)
      | Some dev_dummy \<Rightarrow>
          let d = dummy_setup (mac_r A);
              e = e\<lparr>netdevs := (netdevs e)(dev_dummy \<mapsto> d)\<rparr>;
              (err, d) = register_netdevice A d;
              e = e\<lparr>netdevs := (netdevs e)(dev_dummy \<mapsto> d)\<rparr> in
          if err < 0 then (err, hw, free_netdev dev_dummy e)
          else
            let (err, hw, e) = lt_request_irq True (Some (\<lambda>e s. dummy_eth_rx K cpu e (Some s))) hw e in
            if err \<noteq> 0 then (err, hw, free_netdev dev_dummy e)
            else (0, hw, e))"

definition dummy_init_module ::
  "eth_kernel \<Rightarrow> nat \<Rightarrow> load_answers \<Rightarrow> eth_hw \<Rightarrow> eth_env \<Rightarrow> int \<times> eth_hw \<times> eth_env" where
  "dummy_init_module K cpu A hw e =
     (if link_r A < 0 then (link_r A, hw, e)
      else
        let (err, hw, e) = dummy_init_one K cpu A hw (e\<lparr>link_registered := True\<rparr>) in
        if err < 0 then (err, hw, e\<lparr>link_registered := False\<rparr>) else (err, hw, e))"

text \<open>
  \<open>rtnl_link_unregister\<close> unregisters every device of the kind, and all devices of the model are of
  it: \<open>ndo_uninit\<close> releases the counters and, \<open>needs_free_netdev\<close> being set, the device is freed.
\<close>

definition dummy_cleanup_module :: "eth_hw \<Rightarrow> eth_env \<Rightarrow> eth_hw \<times> eth_env" where
  "dummy_cleanup_module hw e =
     (let (r, hw, e) = lt_request_irq False None hw e in
      (hw, e\<lparr>link_registered := False,
             netdevs := (\<lambda>dev. case map_option dummy_dev_uninit (netdevs e dev) of
                           None \<Rightarrow> None
                         | Some d \<Rightarrow> if needs_free_netdev d then None else Some d)\<rparr>))"

section \<open>Decoded ARP packets\<close>

record arp_pkt =
  a_dst :: bytes
  a_src :: bytes
  a_op :: u16
  a_sha :: bytes
  a_sip :: bytes
  a_tha :: bytes
  a_tip :: bytes

definition arp_view :: "bytes \<Rightarrow> arp_pkt" where
  "arp_view d = \<lparr>a_dst = slice d 0 6, a_src = slice d 6 6, a_op = be16_at d 20,
     a_sha = slice d 22 6, a_sip = slice d 28 4, a_tha = slice d 32 6, a_tip = slice d 38 4\<rparr>"

definition arp_answer :: "arp_pkt \<Rightarrow> arp_pkt" where
  "arp_answer p =
     (let fake = dummy_fake_mac (a_tip p) in
      \<lparr>a_dst = a_sha p, a_src = fake, a_op = 2, a_sha = fake, a_sip = a_tip p,
       a_tha = a_sha p, a_tip = a_sip p\<rparr>)"

definition is_arp_request :: "bytes \<Rightarrow> bool" where
  "is_arp_request d \<longleftrightarrow>
     42 \<le> length d \<and> be16_at d 20 = 1 \<and> be16_at d 16 = ETH_P_IP \<and> d ! 18 = 6 \<and> d ! 19 = 4"

definition is_echo_request :: "bytes \<Rightarrow> bool" where
  "is_echo_request d \<longleftrightarrow>
     (let ihl = 4 * unat (d ! 14 AND 15) in
      20 \<le> ihl \<and> 14 + ihl + 8 \<le> length d \<and> d ! 23 = IPPROTO_ICMP \<and> d ! (14 + ihl) = 8
      \<and> ihl + 8 \<le> unat (be16_at d 16) \<and> 14 + unat (be16_at d 16) \<le> length d)"

definition echo_header :: "bytes \<Rightarrow> bool" where
  "echo_header d \<longleftrightarrow>
     (let ihl = 4 * unat (d ! 14 AND 15) in
      20 \<le> ihl \<and> 14 + ihl + 8 \<le> length d \<and> d ! 23 = IPPROTO_ICMP \<and> d ! (14 + ihl) = 8)"

section \<open>The reflector's contract with the hardware layer\<close>

lemma skb_id_pull: "pskb_may_pull K s n = Some s' \<Longrightarrow> skb_id s' = skb_id s \<and> skb_dev s' = skb_dev s"
  by (auto simp: pskb_may_pull_def)

lemma eth_dispatch_eq:
  "14 \<le> length (skb_lin s) \<Longrightarrow> eth_dispatch K s =
     (if be16_at (skb_lin s) 12 = ETH_P_ARP then dummy_arp_reply K s
      else if be16_at (skb_lin s) 12 = ETH_P_IP then dummy_icmp_reply K s
      else Inr (- EINVAL, s))"
  by (simp add: eth_dispatch_def skb_read16_def skb_read_def access_def padd_def skb_data_def be16_at_def)

lemma skb_len_pull:
  assumes "pull_ok K" "pskb_may_pull K s n = Some s'"
  shows "skb_len s' = skb_len s"
proof -
  obtain l f h where "pull_k K s n = Some (l, f, h)"
      and s': "s' = s\<lparr>skb_lin := l, skb_frags := f, skb_head := h\<rparr>"
    using assms(2) by (auto simp: pskb_may_pull_def)
  then have "l @ f = skb_lin s @ skb_frags s" using assms(1) unfolding pull_ok_def by blast
  then have "skb_lin s' @ skb_frags s' = skb_lin s @ skb_frags s" using s' by simp
  then show ?thesis unfolding skb_len_def by (metis length_append)
qed

lemma skb_write_keeps:
  "skb_write p vs s = Inr s' \<Longrightarrow> skb_id s' = skb_id s \<and> skb_len s' = skb_len s
     \<and> length (skb_lin s') = length (skb_lin s)"
  by (auto simp: skb_write_def access_def skb_len_def split: if_splits)

lemma arp_rewrite_keeps:
  "arp_rewrite eth arp s = Inr s' \<Longrightarrow> skb_id s' = skb_id s \<and> skb_len s' = skb_len s
     \<and> length (skb_lin s') = length (skb_lin s)"
  by (auto simp: arp_rewrite_def Let_def rbind_eq_Inr dest!: skb_write_keeps)

lemma icmp_rewrite_keeps:
  "icmp_rewrite K eth iph icmph ihl s = Inr s' \<Longrightarrow> skb_id s' = skb_id s \<and> skb_len s' = skb_len s
     \<and> length (skb_lin s') = length (skb_lin s)"
  by (auto simp: icmp_rewrite_def icmp_swap_def icmp_ip_check_def icmp_checksum_def Let_def rbind_eq_Inr
      dest!: skb_write_keeps)

lemmas reply_keeps = skb_id_pull arp_rewrite_keeps icmp_rewrite_keeps

lemma arp_reply_id: "dummy_arp_reply K s = Inr (r, s') \<Longrightarrow> skb_id s' = skb_id s \<and> r \<in> {0, - EINVAL}"
  by (auto simp: dummy_arp_reply_def Let_def rbind_eq_Inr dest!: reply_keeps split: option.splits if_splits)

lemma icmp_answer_id:
  "icmp_answer K eth iph ihl s = Inr (r, s') \<Longrightarrow> skb_id s' = skb_id s \<and> r \<in> {0, - EINVAL}"
  by (auto simp: icmp_answer_def Let_def rbind_eq_Inr dest!: reply_keeps split: option.splits if_splits)

lemma icmp_reply_id: "dummy_icmp_reply K s = Inr (r, s') \<Longrightarrow> skb_id s' = skb_id s \<and> r \<in> {0, - EINVAL}"
  by (auto simp: dummy_icmp_reply_def Let_def rbind_eq_Inr dest!: skb_id_pull icmp_answer_id
      split: option.splits if_splits)

lemma eth_dispatch_props:
  "eth_dispatch K s = Inr (r, s') \<Longrightarrow> skb_id s' = skb_id s \<and> r \<in> {0, - EINVAL}"
  by (auto simp: eth_dispatch_def rbind_eq_Inr split: if_splits dest: arp_reply_id icmp_reply_id)

lemma arp_reply_len:
  assumes "pull_ok K" "dummy_arp_reply K s = Inr (r, s')"
  shows "skb_len s' = skb_len s"
  using assms(2)
  by (auto simp: dummy_arp_reply_def Let_def rbind_eq_Inr
      dest!: arp_rewrite_keeps skb_len_pull [OF assms(1)] split: option.splits if_splits)

lemma icmp_answer_len:
  assumes "pull_ok K" "icmp_answer K eth iph ihl s = Inr (r, s')"
  shows "skb_len s' = skb_len s"
  using assms(2)
  by (auto simp: icmp_answer_def Let_def rbind_eq_Inr
      dest!: icmp_rewrite_keeps skb_len_pull [OF assms(1)] split: option.splits if_splits)

lemma icmp_reply_len:
  assumes "pull_ok K" "dummy_icmp_reply K s = Inr (r, s')"
  shows "skb_len s' = skb_len s"
  using assms(2)
  by (auto simp: dummy_icmp_reply_def Let_def rbind_eq_Inr
      dest!: icmp_answer_len [OF assms(1)] skb_len_pull [OF assms(1)] split: option.splits if_splits)

lemma eth_dispatch_len: "pull_ok K \<Longrightarrow> eth_dispatch K s = Inr (r, s') \<Longrightarrow> skb_len s' = skb_len s"
  by (auto simp: eth_dispatch_def rbind_eq_Inr split: if_splits dest: arp_reply_len icmp_reply_len)

lemma eth_rx_drops:
  assumes "dummy_eth_rx K cpu e (Some s) = Inr (r, e')" "r \<noteq> 0"
  shows "\<exists>s'. r = - EINVAL \<and> skb_id s' = skb_id s \<and> e' = dev_kfree_skb s' e"
proof (cases "pskb_may_pull K s ETH_HLEN")
  case None
  then show ?thesis using assms by (auto simp: dummy_eth_rx_def)
next
  case (Some s1)
  then obtain s2 where s2: "eth_dispatch K s1 = Inr (r, s2)" "e' = dev_kfree_skb s2 e"
    using assms by (auto simp: dummy_eth_rx_def Let_def rbind_eq_Inr split: if_splits prod.splits)
  then show ?thesis using eth_dispatch_props [OF s2(1)] skb_id_pull [OF Some] assms(2) by auto
qed

definition rx_delta :: "nat \<Rightarrow> pcpu_dstats" where
  "rx_delta len = \<lparr>rx_packets = 1, rx_bytes = of_nat len, tx_packets = 0, tx_bytes = 0\<rparr>"

text \<open>The frame as \<open>dummy_eth_rx\<close> hands it to the stack, from what the dispatch left.\<close>

definition rx_frame :: "eth_kernel \<Rightarrow> nat option \<Rightarrow> sk_buff \<Rightarrow> sk_buff" where
  "rx_frame K dev s =
     (let (proto, s) = eth_type_trans K (s\<lparr>pkt_type := 0\<rparr>) dev in s\<lparr>protocol := proto\<rparr>)"

lemma rx_frame_simps [simp]:
  "skb_id (rx_frame K dev s) = skb_id s" "skb_mac (rx_frame K dev s) = take 14 (skb_lin s)"
  "skb_lin (rx_frame K dev s) = drop 14 (skb_lin s)" "skb_frags (rx_frame K dev s) = skb_frags s"
  by (simp_all add: rx_frame_def eth_type_trans_def split: prod.split)

lemma eth_dispatch_linear: "eth_dispatch K s = Inr x \<Longrightarrow> 14 \<le> length (skb_lin s)"
  by (auto simp: eth_dispatch_def rbind_eq_Inr skb_read16_def skb_read_def access_def padd_def
      skb_data_def split: if_splits)

lemma eth_rx_eq:
  assumes "pskb_may_pull K s ETH_HLEN = Some s1" "eth_dispatch K s1 = Inr (0, s2)"
  shows "dummy_eth_rx K cpu e (Some s) =
    rbind (case skb_dev s of None \<Rightarrow> Inr e
           | Some dev \<Rightarrow> upd_dstats dev cpu (\<lambda>st. add_dstats st (rx_delta (skb_len s2))) e)
      (\<lambda>e. Inr (0, netif_rx (rx_frame K (skb_dev s) s2) e))"
proof -
  have "(\<lambda>st. add_dstats st (rx_delta (skb_len s2)))
      = (\<lambda>st. st\<lparr>rx_packets := rx_packets st + 1, rx_bytes := rx_bytes st + of_nat (skb_len s2)\<rparr>)"
    by (rule ext) (simp add: add_dstats_def rx_delta_def)
  then show ?thesis
    using assms by (simp only:) (simp add: dummy_eth_rx_def rx_frame_def split: prod.split)
qed

lemma eth_rx_delivers:
  assumes "dummy_eth_rx K cpu e (Some s) = Inr (0, e')"
  shows "\<exists>s1 s2 e1. pskb_may_pull K s ETH_HLEN = Some s1 \<and> eth_dispatch K s1 = Inr (0, s2)
    \<and> e' = netif_rx (rx_frame K (skb_dev s) s2) e1
    \<and> (case skb_dev s of None \<Rightarrow> e1 = e
        | Some dev \<Rightarrow> upd_dstats dev cpu (\<lambda>st. add_dstats st (rx_delta (skb_len s2))) e = Inr e1)"
proof -
  obtain s1 where s1: "pskb_may_pull K s ETH_HLEN = Some s1"
    using assms by (cases "pskb_may_pull K s ETH_HLEN") (auto simp: dummy_eth_rx_def)
  moreover obtain s2 where s2: "eth_dispatch K s1 = Inr (0, s2)"
    using assms s1 by (auto simp: dummy_eth_rx_def Let_def rbind_eq_Inr split: if_splits prod.splits)
  ultimately show ?thesis
    using assms unfolding eth_rx_eq [OF s1 s2] by (auto simp: rbind_eq_Inr split: option.splits)
qed

lemma upd_dstats_log [simp]: "upd_dstats dev cpu f e = Inr e' \<Longrightarrow> skb_log e' = skb_log e"
  by (auto simp: upd_dstats_def rbind_eq_Inr split: option.splits)

lemma dummy_eth_rx_consumes:
  assumes "dummy_eth_rx K cpu e (Some s) = Inr (r, e')"
  shows "\<exists>ev. skb_log e' = skb_log e @ [ev] \<and> skb_id (event_skb ev) = skb_id s"
proof (cases "r = 0")
  case True
  then show ?thesis
    using eth_rx_delivers [of K cpu e s e'] assms skb_id_pull eth_dispatch_props
    by (fastforce simp: netif_rx_def split: option.splits)
next
  case False
  then show ?thesis using eth_rx_drops [OF assms] by fastforce
qed

interpretation deth: rx_callback "\<lambda>e s. dummy_eth_rx K cpu e (Some s)" skb_id for K cpu
  by unfold_locales (rule dummy_eth_rx_consumes)

section \<open>ARP\<close>

lemma pull_linear: "pull_ok K \<Longrightarrow> n \<le> length (skb_lin s) \<Longrightarrow> pskb_may_pull K s n = Some s"
  by (simp add: pull_ok_def pskb_may_pull_def)

lemma pull_short: "pull_ok K \<Longrightarrow> skb_len s < n \<Longrightarrow> pskb_may_pull K s n = None"
  by (simp add: pull_ok_def pskb_may_pull_def)

lemma pull_enough: "pull_ok K \<Longrightarrow> pskb_may_pull K s n = Some s' \<Longrightarrow> n \<le> length (skb_lin s')"
  by (fastforce simp: pull_ok_def pskb_may_pull_def)

lemma arp_reply_header:
  assumes "pull_ok K" "dummy_arp_reply K s = Inr (0, s')"
  shows "14 \<le> length (skb_lin s')"
  using assms(2)
  by (auto simp: dummy_arp_reply_def Let_def rbind_eq_Inr
      dest!: arp_rewrite_keeps pull_enough [OF assms(1)] split: option.splits if_splits)

lemma icmp_answer_header:
  assumes "pull_ok K" "icmp_answer K eth iph ihl s = Inr (0, s')"
  shows "14 \<le> length (skb_lin s')"
  using assms(2)
  by (auto simp: icmp_answer_def Let_def rbind_eq_Inr
      dest!: icmp_rewrite_keeps pull_enough [OF assms(1)] split: option.splits if_splits)

lemma eth_dispatch_keeps_header:
  assumes "pull_ok K" "eth_dispatch K s = Inr (0, s')"
  shows "14 \<le> length (skb_lin s')"
  using assms
  by (auto simp: eth_dispatch_def dummy_icmp_reply_def Let_def rbind_eq_Inr
      intro: arp_reply_header icmp_answer_header split: option.splits if_splits)

lemma length_fake_mac [simp]: "length (dummy_fake_mac ip) = 6"
  by (simp add: dummy_fake_mac_def)

definition arp_bytes :: "bytes \<Rightarrow> bytes" where
  "arp_bytes d =
     (let fake = dummy_fake_mac (slice d 38 4) in
      put 6 fake (put 0 (slice d 22 6) (put 38 (slice d 28 4) (put 32 (slice d 22 6)
        (put 28 (slice d 38 4) (put 22 fake (put 20 (be16_bytes 2) d)))))))"

lemma be16_at_slice: "i + 2 \<le> length d \<Longrightarrow> be16_at (slice d i 2) 0 = be16_at d i"
  by (simp add: be16_at_def)

text \<open>Accesses through a pointer to the frame's own buffer that stay inside the linear part.\<close>

lemma skb_read_ok:
  "i + n \<le> length (skb_lin s) \<Longrightarrow> skb_head s = h \<Longrightarrow> skb_read s (h, i) n = Inr (slice (skb_lin s) i n)"
  by (simp add: skb_read_def access_def)

lemma skb_read8_ok: "i < length (skb_lin s) \<Longrightarrow> skb_head s = h \<Longrightarrow> skb_read8 s (h, i) = Inr (skb_lin s ! i)"
  by (simp add: skb_read8_def skb_read_ok)

lemma skb_read16_ok:
  "i + 2 \<le> length (skb_lin s) \<Longrightarrow> skb_head s = h \<Longrightarrow> skb_read16 s (h, i) = Inr (be16_at (skb_lin s) i)"
  by (simp add: skb_read16_def skb_read_ok be16_at_slice)

lemma skb_write_ok:
  "i + length vs \<le> length (skb_lin s) \<Longrightarrow> skb_head s = h \<Longrightarrow>
     skb_write (h, i) vs s = Inr (s\<lparr>skb_lin := put i vs (skb_lin s)\<rparr>)"
  by (simp add: skb_write_def access_def)

lemmas skb_access_ok = skb_read_ok skb_read8_ok skb_read16_ok skb_write_ok

text \<open>A pointer into a buffer the frame no longer has.\<close>

lemma skb_read16_stale: "h \<noteq> skb_head s \<Longrightarrow> skb_read16 s (h, i) = Inl UseAfterFree"
  by (simp add: skb_read16_def skb_read_def access_def)

lemma arp_rejects_ok:
  "42 \<le> length (skb_lin s) \<Longrightarrow> skb_head s = h \<Longrightarrow>
     arp_rejects s (h, 14) = Inr (\<not> is_arp_request (skb_lin s))"
  by (simp add: arp_rejects_def padd_def skb_access_ok is_arp_request_def)

lemma arp_rewrite_ok:
  "42 \<le> length (skb_lin s) \<Longrightarrow> skb_head s = h \<Longrightarrow>
     arp_rewrite (h, 0) (h, 14) s = Inr (s\<lparr>skb_lin := arp_bytes (skb_lin s)\<rparr>)"
  by (simp add: arp_rewrite_def Let_def padd_def skb_access_ok arp_bytes_def)

lemma dummy_arp_reply_pulled:
  assumes "pull_k K s 42 = Some (l, fr, h)" "42 \<le> length l"
  shows "dummy_arp_reply K s =
    (if h \<noteq> skb_head s then Inl UseAfterFree
     else if is_arp_request l then Inr (0, s\<lparr>skb_lin := arp_bytes l, skb_frags := fr\<rparr>)
     else Inr (- EINVAL, s\<lparr>skb_lin := l, skb_frags := fr\<rparr>))"
proof (cases "h = skb_head s")
  case True
  then show ?thesis
    using assms
    by (simp add: dummy_arp_reply_def pskb_may_pull_def skb_data_def padd_def arp_rejects_ok arp_rewrite_ok)
next
  case False
  then show ?thesis
    using assms
    by (simp add: dummy_arp_reply_def pskb_may_pull_def skb_data_def padd_def arp_rejects_def skb_read16_stale)
qed

lemma dummy_arp_reply_linear:
  assumes "pull_ok K" "42 \<le> length (skb_lin s)"
  shows "dummy_arp_reply K s =
    (if is_arp_request (skb_lin s) then Inr (0, s\<lparr>skb_lin := arp_bytes (skb_lin s)\<rparr>)
     else Inr (- EINVAL, s))"
  using assms dummy_arp_reply_pulled [of K s "skb_lin s" "skb_frags s" "skb_head s"]
  by (simp add: pull_ok_def)

lemma length_arp_bytes [simp]: "42 \<le> length d \<Longrightarrow> length (arp_bytes d) = length d"
  by (simp add: arp_bytes_def Let_def)

lemma arp_bytes_refines: "42 \<le> length d \<Longrightarrow> arp_view (arp_bytes d) = arp_answer (arp_view d)"
  by (simp add: arp_view_def arp_answer_def arp_bytes_def Let_def slice_put_same slice_put_other
      be16_at_put be16_at_put_other)

lemma arp_bytes_frame:
  assumes "42 \<le> length d" "j < length d" "j \<in> {12..<20} \<or> 42 \<le> j"
  shows "arp_bytes d ! j = d ! j"
  using assms by (auto simp: arp_bytes_def Let_def nth_put)

section \<open>ICMP\<close>

text \<open>The reply as one expression, for a header of \<open>ihl\<close> bytes and a message of \<open>n\<close> bytes.\<close>

definition swap_bytes :: "nat \<Rightarrow> bytes \<Rightarrow> bytes" where
  "swap_bytes ihl d =
     (put 26 (slice d 30 4) (put 30 (slice d 26 4)
       (put 6 (slice d 0 6) (put 0 (slice d 6 6) d))))[14 + ihl := 0]"

definition echo_reply_bytes :: "nat \<Rightarrow> nat \<Rightarrow> bytes \<Rightarrow> bytes" where
  "echo_reply_bytes ihl n d =
     (let d = swap_bytes ihl d;
          d = put 24 (be16_bytes (inet_csum (slice (put 24 (be16_bytes 0) d) 14 ihl))) d
      in put (16 + ihl) (be16_bytes (inet_csum (slice (put (16 + ihl) (be16_bytes 0) d) (14 + ihl) n))) d)"

lemma length_swap_bytes [simp]: "34 \<le> length d \<Longrightarrow> length (swap_bytes ihl d) = length d"
  by (simp add: swap_bytes_def)

lemma icmp_len_exact:
  assumes "ihl \<le> t" "t < 65536"
  shows "unat (of_nat t - of_nat ihl :: u32) = t - ihl"
proof -
  have "(of_nat t - of_nat ihl :: u32) = of_nat (t - ihl)" using assms by (simp add: of_nat_diff)
  then show ?thesis using assms by (simp only:) (rule unat_of_nat_small, simp)
qed

lemma put_single: "i < length bs \<Longrightarrow> put i [v] bs = bs[i := v]"
  by (simp add: put_def upd_conv_take_nth_drop)

lemma icmp_swap_ok:
  assumes "34 \<le> length (skb_lin s)" "14 + ihl < length (skb_lin s)" "skb_head s = h"
  shows "icmp_swap (h, 0) (h, 14) (h, 14 + ihl) s = Inr (s\<lparr>skb_lin := swap_bytes ihl (skb_lin s)\<rparr>)"
  using assms
  by (simp add: icmp_swap_def padd_def skb_access_ok put_single swap_bytes_def slice_put_other)

lemma icmp_ip_check_ok:
  assumes "ihl = unat (skb_lin s ! 14 AND 15)" "26 \<le> length (skb_lin s)" "14 + 4 * ihl \<le> length (skb_lin s)"
    and "skb_head s = h"
  defines "d \<equiv> put 24 (be16_bytes 0) (skb_lin s)"
  shows "icmp_ip_check K (h, 14) s
    = Inr (s\<lparr>skb_lin := put 24 (be16_bytes (ip_fast_csum K (slice d 14 (4 * ihl)) ihl)) d\<rparr>)"
proof -
  have "length d = length (skb_lin s)" "d ! 14 = skb_lin s ! 14"
    using assms(2) by (simp_all add: d_def nth_put)
  then show ?thesis
    using assms(1-4) by (simp add: icmp_ip_check_def Let_def padd_def skb_access_ok d_def [symmetric])
qed

lemma icmp_checksum_run:
  assumes "34 \<le> length (skb_lin s)" "14 + ihl + 8 \<le> length (skb_lin s)" "skb_head s = h"
  defines "d \<equiv> put (16 + ihl) (be16_bytes 0) (skb_lin s)"
    and "n \<equiv> unat (of_nat (unat (be16_at (skb_lin s) 16)) - of_nat ihl :: u32)"
  shows "icmp_checksum K (h, 14) (h, 14 + ihl) ihl s =
    (if length (skb_lin s) < 14 + ihl + n then Inl OutOfBounds
     else Inr (s\<lparr>skb_lin := put (16 + ihl)
            (be16_bytes (csum_fold K (csum_partial K (slice d (14 + ihl) n)))) d\<rparr>))"
proof -
  have l: "length d = length (skb_lin s)" using assms(2) by (simp add: d_def)
  have "padd (h, 14) 2 = (h, 16)" "padd (h, 14 + ihl) 2 = (h, 16 + ihl)" by (simp_all add: padd_def)
  then have "icmp_checksum K (h, 14) (h, 14 + ihl) ihl s =
      rbind (skb_read (s\<lparr>skb_lin := d\<rparr>) (h, 14 + ihl) n) (\<lambda>msg.
        skb_write (h, 16 + ihl) (be16_bytes (csum_fold K (csum_partial K msg))) (s\<lparr>skb_lin := d\<rparr>))"
    using assms(1-3) by (simp add: icmp_checksum_def Let_def skb_access_ok d_def [symmetric] n_def)
  then show ?thesis using l assms(2,3) by (simp add: skb_read_def access_def skb_write_ok)
qed

lemma be16_at_swap_bytes: "20 \<le> ihl \<Longrightarrow> 34 \<le> length d \<Longrightarrow> be16_at (swap_bytes ihl d) 16 = be16_at d 16"
  by (simp add: swap_bytes_def be16_at_list_update be16_at_put_other)

text \<open>
  The rewriting when the headers are inside the linear part: only the length that comes from
  \<open>tot_len\<close> can still run outside.
\<close>

lemma icmp_rewrite_run:
  fixes K :: eth_kernel
  assumes "ihl = 4 * unat (skb_lin s ! 14 AND 15)" "20 \<le> ihl" "14 + ihl + 8 \<le> length (skb_lin s)"
    and "skb_head s = h"
  defines "d \<equiv> skb_lin s"
  defines "d2 \<equiv> put 24 (be16_bytes 0) (swap_bytes ihl d)"
  defines "d3 \<equiv> put 24 (be16_bytes (ip_fast_csum K (slice d2 14 ihl) (ihl div 4))) d2"
  defines "d4 \<equiv> put (16 + ihl) (be16_bytes 0) d3"
  defines "n \<equiv> unat (of_nat (unat (be16_at d 16)) - of_nat ihl :: u32)"
  shows "icmp_rewrite K (h, 0) (h, 14) (h, 14 + ihl) ihl s =
    (if length d < 14 + ihl + n then Inl OutOfBounds
     else Inr (s\<lparr>skb_lin := put (16 + ihl)
            (be16_bytes (csum_fold K (csum_partial K (slice d4 (14 + ihl) n)))) d4\<rparr>))"
proof -
  have len: "34 \<le> length d" using assms by simp
  let ?s1 = "s\<lparr>skb_lin := swap_bytes ihl d\<rparr>" and ?s3 = "s\<lparr>skb_lin := d3\<rparr>"
  have l: "length (swap_bytes ihl d) = length d" "length d3 = length d"
    using len by (simp_all add: d3_def d2_def)
  have s1: "icmp_swap (h, 0) (h, 14) (h, 14 + ihl) s = Inr ?s1"
    using icmp_swap_ok [of s ihl h] len assms(3,4) by (simp add: d_def)
  have "swap_bytes ihl d ! 14 = d ! 14" using len assms(2) by (simp add: swap_bytes_def nth_put)
  then have ih: "ihl div 4 = unat (skb_lin ?s1 ! 14 AND 15)" "4 * (ihl div 4) = ihl"
    using assms(1) by (simp_all add: d_def)
  have s3: "icmp_ip_check K (h, 14) ?s1 = Inr ?s3"
    using icmp_ip_check_ok [of "ihl div 4" ?s1 h K] ih l len assms(3,4) by (simp add: d3_def d2_def d_def)
  have t: "be16_at d3 16 = be16_at d 16"
    using len l assms(2) by (simp add: d3_def d2_def be16_at_put_other be16_at_swap_bytes)
  have "14 + ihl + 8 \<le> length d3" using l assms(3) by (simp add: d_def)
  from icmp_checksum_run [of ?s3 ihl h K] this l len assms(4)
  show ?thesis by (simp add: icmp_rewrite_def s1 s3 t n_def d4_def)
qed

lemma icmp_rewrite_eq:
  assumes csum: "csum_ok K" and hd: "ihl = 4 * unat (skb_lin s ! 14 AND 15)" "20 \<le> ihl"
      "14 + ihl + 8 \<le> length (skb_lin s)" "skb_head s = h"
    and t: "t = unat (be16_at (skb_lin s) 16)" "ihl \<le> t" "14 + t \<le> length (skb_lin s)"
  shows "icmp_rewrite K (h, 0) (h, 14) (h, 14 + ihl) ihl s
    = Inr (s\<lparr>skb_lin := echo_reply_bytes ihl (t - ihl) (skb_lin s)\<rparr>)"
proof -
  let ?d = "skb_lin s"
  let ?d2 = "put 24 (be16_bytes 0) (swap_bytes ihl ?d)"
  have len: "34 \<le> length ?d" using hd by simp
  have n: "unat (of_nat (unat (be16_at ?d 16)) - of_nat ihl :: u32) = t - ihl"
    unfolding t(1) [symmetric] using t unsigned_less [of "be16_at ?d 16"]
    by (intro icmp_len_exact) simp_all
  have "ip_fast_csum K (slice ?d2 14 ihl) (ihl div 4) = inet_csum (slice ?d2 14 ihl)"
    using csum hd len by (simp add: csum_ok_def)
  then show ?thesis
    using icmp_rewrite_run [OF hd, where K = K, unfolded n] csum t(2,3) hd(3) len
    by (simp add: csum_ok_def echo_reply_bytes_def Let_def put_put_same)
qed

lemma echo_reply_ip_valid:
  assumes "ihl = 4 * k" "5 \<le> k" "14 + ihl + 8 \<le> length d" "14 + ihl + n \<le> length d"
  shows "csum_valid (slice (echo_reply_bytes ihl n d) 14 ihl)"
proof -
  let ?d = "swap_bytes ihl d"
  let ?h = "slice ?d 14 ihl"
  have len: "34 \<le> length d" "20 \<le> ihl" using assms by simp_all
  have "slice (echo_reply_bytes ihl n d) 14 ihl
      = put 10 (be16_bytes (inet_csum (put 10 (be16_bytes 0) ?h))) ?h"
    using assms len by (simp add: echo_reply_bytes_def Let_def slice_put_other slice_put_inside)
  then show ?thesis using csum_valid_put [of 10 ?h] assms len by simp
qed

lemma echo_reply_icmp_valid:
  assumes "ihl = 4 * k" "5 \<le> k" "8 \<le> n" "14 + ihl + n \<le> length d"
  shows "csum_valid (slice (echo_reply_bytes ihl n d) (14 + ihl) n)"
proof -
  let ?d = "put 24 (be16_bytes (inet_csum (slice (put 24 (be16_bytes 0) (swap_bytes ihl d)) 14 ihl)))
              (swap_bytes ihl d)"
  let ?m = "slice ?d (14 + ihl) n"
  have len: "34 \<le> length d" "20 \<le> ihl" using assms by simp_all
  have "slice (echo_reply_bytes ihl n d) (14 + ihl) n
      = put 2 (be16_bytes (inet_csum (put 2 (be16_bytes 0) ?m))) ?m"
    using assms len by (simp add: echo_reply_bytes_def Let_def slice_put_inside)
  then show ?thesis using csum_valid_put [of 2 ?m] assms len by simp
qed

lemma icmp_len_wraps:
  assumes "t < ihl" "ihl \<le> 60"
  shows "2 ^ 31 \<le> unat (of_nat t - of_nat ihl :: u32)"
proof -
  have "unat (of_nat t :: u32) = t" "unat (of_nat ihl :: u32) = ihl"
    using assms by (auto intro: unat_of_nat_small)
  then show ?thesis using assms by (simp add: unat_sub_if')
qed

lemma icmp_reply_header:
  assumes "pull_ok K" "echo_header (skb_lin s)"
  defines "ihl \<equiv> 4 * unat (skb_lin s ! 14 AND 15)" and "h \<equiv> skb_head s"
  shows "dummy_icmp_reply K s = rbind (icmp_rewrite K (h, 0) (h, 14) (h, 14 + ihl) ihl s) (\<lambda>s. Inr (0, s))"
proof -
  have q: "20 \<le> ihl" "14 + ihl + 8 \<le> length (skb_lin s)" "skb_lin s ! 23 = IPPROTO_ICMP"
      "skb_lin s ! (14 + ihl) = 8"
    using assms(2) by (simp_all add: echo_header_def Let_def ihl_def)
  moreover have "pskb_may_pull K s 34 = Some s" "pskb_may_pull K s (22 + ihl) = Some s"
    using assms(1) q by (auto intro: pull_linear)
  ultimately show ?thesis
    by (simp add: dummy_icmp_reply_def icmp_answer_def Let_def skb_data_def padd_def skb_access_ok ihl_def [symmetric]
        h_def [symmetric] add.commute)
qed

lemma echo_request_reply:
  assumes "eth_kernel_ok K" "is_echo_request (skb_lin s)"
  defines "d \<equiv> skb_lin s"
  defines "ihl \<equiv> 4 * unat (d ! 14 AND 15)" and "t \<equiv> unat (be16_at d 16)"
  shows "dummy_icmp_reply K s = Inr (0, s\<lparr>skb_lin := echo_reply_bytes ihl (t - ihl) d\<rparr>)"
proof -
  have K: "pull_ok K" "csum_ok K" using assms(1) by (simp_all add: eth_kernel_ok_def)
  have r: "20 \<le> ihl" "14 + ihl + 8 \<le> length d" "d ! 23 = IPPROTO_ICMP" "d ! (14 + ihl) = 8"
      "ihl + 8 \<le> t" "14 + t \<le> length d"
    using assms(2) by (simp_all add: is_echo_request_def Let_def d_def ihl_def t_def)
  have "icmp_rewrite K (skb_head s, 0) (skb_head s, 14) (skb_head s, 14 + ihl) ihl s
      = Inr (s\<lparr>skb_lin := echo_reply_bytes ihl (t - ihl) d\<rparr>)"
    unfolding d_def using K(2) r by (intro icmp_rewrite_eq) (simp_all add: ihl_def t_def d_def)
  moreover have "echo_header d" using r by (simp add: echo_header_def Let_def ihl_def)
  ultimately show ?thesis
    using icmp_reply_header [OF K(1), of s] by (simp add: d_def ihl_def)
qed

lemma echo_reply_addresses:
  assumes "20 \<le> ihl" "14 + ihl + 8 \<le> length d" "8 \<le> n" "14 + ihl + n \<le> length d"
  defines "r \<equiv> echo_reply_bytes ihl n d"
  shows "length r = length d"
    and "slice r 0 6 = slice d 6 6" "slice r 6 6 = slice d 0 6"
    and "slice r 26 4 = slice d 30 4" "slice r 30 4 = slice d 26 4"
    and "r ! (14 + ihl) = 0"
proof -
  have sw: "swap_bytes ihl d ! j = (put 26 (slice d 30 4) (put 30 (slice d 26 4)
       (put 6 (slice d 0 6) (put 0 (slice d 6 6) d)))) ! j" if "j < 34" for j
    using that assms by (simp add: swap_bytes_def)
  show "length r = length d" using assms by (simp add: r_def echo_reply_bytes_def Let_def)
  have "slice r i k = slice (swap_bytes ihl d) i k" if "i + k \<le> 24 \<or> 26 \<le> i" "i + k \<le> 34" for i k
    using that assms by (simp add: r_def echo_reply_bytes_def Let_def slice_put_other)
  moreover have "slice (swap_bytes ihl d) i k = slice (put 26 (slice d 30 4) (put 30 (slice d 26 4)
       (put 6 (slice d 0 6) (put 0 (slice d 6 6) d)))) i k" if "i + k \<le> 34" for i k
    using that assms sw by (intro slice_eqI) auto
  ultimately show "slice r 0 6 = slice d 6 6" "slice r 6 6 = slice d 0 6"
    "slice r 26 4 = slice d 30 4" "slice r 30 4 = slice d 26 4"
    using assms by (simp_all add: slice_put_same slice_put_other)
  show "r ! (14 + ihl) = 0"
    using assms by (simp add: r_def echo_reply_bytes_def Let_def nth_put swap_bytes_def)
qed

lemma echo_reply_frame:
  assumes "20 \<le> ihl" "14 + ihl + 8 \<le> length d" "14 + ihl + n \<le> length d" "j < length d"
    and "j \<in> {12..<24} \<or> 34 \<le> j \<and> j \<notin> {14 + ihl, 16 + ihl, 17 + ihl}"
  shows "echo_reply_bytes ihl n d ! j = d ! j"
  using assms by (auto simp: echo_reply_bytes_def Let_def nth_put swap_bytes_def)

section \<open>Accounting\<close>

lemma add_dstats_right_comm: "add_dstats (add_dstats a b) c = add_dstats (add_dstats a c) b"
  by (simp add: add_dstats_def ac_simps)

lemma add_dstats_assoc: "add_dstats a (add_dstats b c) = add_dstats (add_dstats a b) c"
  by (simp add: add_dstats_def ac_simps)

lemma sum_dstats_acc: "sum_dstats cpus st (add_dstats a b) = add_dstats (sum_dstats cpus st a) b"
  by (induction cpus arbitrary: a) (simp_all add: add_dstats_right_comm [of _ b])

lemma sum_dstats_cong: "(\<And>c. c \<in> set cpus \<Longrightarrow> st c = st' c) \<Longrightarrow> sum_dstats cpus st a = sum_dstats cpus st' a"
  by (induction cpus arbitrary: a) auto

lemma sum_dstats_upd:
  "distinct cpus \<Longrightarrow> cpu \<in> set cpus \<Longrightarrow>
     sum_dstats cpus (st(cpu := add_dstats (st cpu) x)) a = add_dstats (sum_dstats cpus st a) x"
proof (induction cpus arbitrary: a)
  case (Cons c cs)
  show ?case
  proof (cases "c = cpu")
    case True
    then have "sum_dstats cs (st(cpu := add_dstats (st cpu) x)) b = sum_dstats cs st b" for b
      using Cons.prems by (intro sum_dstats_cong) auto
    then show ?thesis
      using True by (simp del: fun_upd_apply add: fun_upd_same sum_dstats_acc add_dstats_assoc)
  next
    case False
    then show ?thesis using Cons by (simp del: fun_upd_apply add: fun_upd_other)
  qed
qed simp

lemma get_stats64_upd:
  assumes cpus: "distinct cpus" "cpu \<in> set cpus"
    and u: "upd_dstats dev cpu (\<lambda>st. add_dstats st x) e = Inr e'"
    and b: "dummy_get_stats64 cpus e dev a = Inr b"
  shows "dummy_get_stats64 cpus e' dev a = Inr (add_dstats b x)"
proof -
  from b obtain d st where d: "netdevs e dev = Some d" "dstats d = Some st" "b = sum_dstats cpus st a"
    by (cases "netdevs e dev"; cases "dstats (the (netdevs e dev))")
       (auto simp: dummy_get_stats64_def rbind_eq_Inr)
  with u have "netdevs e' = (netdevs e)(dev \<mapsto> d\<lparr>dstats := Some (st(cpu := add_dstats (st cpu) x))\<rparr>)"
    by (auto simp: upd_dstats_def)
  then show ?thesis using d cpus by (simp add: dummy_get_stats64_def sum_dstats_upd)
qed

lemma get_stats64_netdevs: "netdevs e = netdevs e' \<Longrightarrow> dummy_get_stats64 cpus e dev a = dummy_get_stats64 cpus e' dev a"
  by (simp add: dummy_get_stats64_def)

lemma netdevs_kfree [simp]: "netdevs (dev_kfree_skb s e) = netdevs e"
  by (simp add: dev_kfree_skb_def)

lemma netdevs_netif_rx [simp]: "netdevs (netif_rx s e) = netdevs e"
  by (simp add: netif_rx_def)

section \<open>From transmission to reception\<close>

lemma upd_dstats_live:
  assumes "netdevs e dev = Some d" "dstats d = Some st"
  shows "\<exists>e1 d1 st1. upd_dstats dev cpu f e = Inr e1 \<and> skb_log e1 = skb_log e
     \<and> netdevs e1 dev = Some d1 \<and> dstats d1 = Some st1"
  using assms by (auto simp: upd_dstats_def)

lemma eth_rx_reply:
  assumes "pull_ok K" "14 \<le> length (skb_lin s)" "eth_dispatch K s = Inr (0, s2)"
    and "skb_dev s = Some dev" "netdevs e dev = Some d" "dstats d = Some st"
  shows "\<exists>s' e'. dummy_eth_rx K cpu e (Some s) = Inr (0, e') \<and> s' = rx_frame K (Some dev) s2
     \<and> skb_log e' = skb_log e @ [NetifRx s']"
proof -
  let ?s' = "rx_frame K (Some dev) s2"
  obtain e1 where e1: "upd_dstats dev cpu (\<lambda>st. add_dstats st (rx_delta (skb_len s2))) e = Inr e1"
      "skb_log e1 = skb_log e"
    using upd_dstats_live [OF assms(5,6)] by blast
  have "dummy_eth_rx K cpu e (Some s) = Inr (0, netif_rx ?s' e1)"
    using assms(4) e1 eth_rx_eq [OF pull_linear [OF assms(1,2)] assms(3)] by simp
  then show ?thesis using e1 by (intro exI [of _ ?s'] exI [of _ "netif_rx ?s' e1"]) (simp add: netif_rx_def)
qed

lemma xmit_then_thread:
  assumes "dummy_drv_rx hw = Some (\<lambda>e s. dummy_eth_rx K cpu' e (Some s))" "skb_tx_q hw = []"
    and "pull_ok K" "14 \<le> length (skb_lin s)" "eth_dispatch K s = Inr (0, s2)"
    and "skb_dev s = Some dev" "netdevs e dev = Some d" "dstats d = Some st"
  shows "\<exists>hw1 e1 hw2 e2 s'. dummy_xmit cpu hw e s dev = Inr (0, hw1, e1)
    \<and> dummy_hw_thread 1 hw1 e1 = Inr (hw2, e2) \<and> skb_tx_q hw2 = []
    \<and> skb_log e2 = skb_log e @ [NetifRx s'] \<and> skb_id s' = skb_id s \<and> s' = rx_frame K (Some dev) s2"
proof -
  let ?f = "\<lambda>st. st\<lparr>tx_packets := tx_packets st + 1, tx_bytes := tx_bytes st + of_nat (skb_len s)\<rparr>"
  let ?hw1 = "hw\<lparr>skb_tx_q := [s]\<rparr>" and ?hw2 = "hw\<lparr>skb_tx_q := []\<rparr>"
  obtain e1 d1 st1 where e1: "upd_dstats dev cpu ?f e = Inr e1" "skb_log e1 = skb_log e"
      "netdevs e1 dev = Some d1" "dstats d1 = Some st1"
    using upd_dstats_live [OF assms(7,8)] by blast
  have x: "dummy_xmit cpu hw e s dev = Inr (0, ?hw1, e1)"
    using e1 assms(2) by (simp add: dummy_xmit_def lt_hw_tx_def)
  obtain s' e2 where r: "dummy_eth_rx K cpu' e1 (Some s) = Inr (0, e2)" "s' = rx_frame K (Some dev) s2"
      "skb_log e2 = skb_log e1 @ [NetifRx s']"
    using eth_rx_reply [OF assms(3-6) e1(3,4)] by blast
  have "hw_drain ?hw1 e1 = Inr (?hw2, e2)"
    using r(1) assms(1)
    by (simp add: hw_drain.simps [of ?hw1 e1] hw_drain.simps [of ?hw2 e2] dummy_hw_send_irq_def)
  then have "dummy_hw_thread 1 ?hw1 e1 = Inr (?hw2, e2)" by simp
  then show ?thesis
    using x r e1(2) eth_dispatch_props [OF assms(5)]
    by (intro exI [of _ ?hw1] exI [of _ e1] exI [of _ ?hw2] exI [of _ e2] exI [of _ s'] conjI) simp_all
qed

end
