(* ===== verification/Dummy_Driver.thy ===== *)
theory Dummy_Driver
  imports Dummy_Eth
begin

unbundle bit_operations_syntax

text \<open>
  The properties of the two modules under \<open>linux-netdevice-driver-test/\<close>, alone and composed
  (\<open>dummy_xmit\<close>, the hardware thread, \<open>dummy_eth_rx\<close>), with the concrete kernel and frames their
  witnesses run on.
\<close>

section \<open>A concrete kernel and concrete frames\<close>

definition sample_kernel :: eth_kernel where
  "sample_kernel =
     \<lparr>pull_k = (\<lambda>s n. let bs = skb_lin s @ skb_frags s in
        if n \<le> length (skb_lin s) then Some (skb_lin s, skb_frags s, skb_head s)
        else if n \<le> length bs then Some (take n bs, drop n bs, Suc (skb_head s)) else None),
      ip_fast_csum = (\<lambda>bs ihl. inet_csum bs),
      csum_partial = (\<lambda>bs. of_nat (fold16 (sum16 bs))),
      csum_fold = (\<lambda>w. of_nat (65535 - fold16 (unat w))),
      eth_type_k = (\<lambda>s dev. (be16_at (skb_lin s) 12, 0))\<rparr>"

definition sample_skb :: "bytes \<Rightarrow> bytes \<Rightarrow> sk_buff" where
  "sample_skb lin frags = \<lparr>skb_id = 7, skb_lin = lin, skb_frags = frags, skb_mac = [], skb_head = 1,
     skb_dev = Some 0, pkt_type = 0, protocol = 0\<rparr>"

definition sample_arp :: bytes where
  "sample_arp = [255, 255, 255, 255, 255, 255, 2, 0, 0, 0, 0, 1, 8, 6,
     0, 1, 8, 0, 6, 4, 0, 1,
     2, 0, 0, 0, 0, 1, 192, 168, 57, 100, 0, 0, 0, 0, 0, 0, 192, 168, 57, 101]"

definition sample_echo :: bytes where
  "sample_echo = [2, 222, 192, 168, 57, 101, 2, 0, 0, 0, 0, 1, 8, 0,
     69, 0, 0, 28, 0, 1, 0, 0, 64, 1, 0, 0, 192, 168, 57, 100, 192, 168, 57, 101,
     8, 0, 0, 0, 0, 1, 0, 1]"

definition sample_dev :: deth_dev where
  "sample_dev = (dummy_setup [2, 0, 0, 0, 0, 1])\<lparr>dstats := Some (\<lambda>_. zero_dstats)\<rparr>"

definition sample_env :: eth_env where
  "sample_env = \<lparr>skb_log = [], netdevs = [0 \<mapsto> sample_dev], pcpu_leaked = 0, link_registered = True\<rparr>"

lemma sample_kernel_ok: "eth_kernel_ok sample_kernel"
proof -
  have "fold16 (fold16 n) = fold16 n" for n
    using fold16_less [of n] by (simp add: fold16.simps [of "fold16 n"])
  moreover have "unat (of_nat (fold16 n) :: u32) = fold16 n" for n
    using fold16_less [of n] by (intro unat_of_nat_small) simp
  ultimately have "csum_ok sample_kernel"
    by (simp add: csum_ok_def sample_kernel_def inet_csum_def)
  moreover have "pull_ok sample_kernel"
    by (auto simp: pull_ok_def sample_kernel_def skb_len_def Let_def split: if_splits)
  ultimately show ?thesis by (simp add: eth_kernel_ok_def)
qed

lemma sample_arp_request: "is_arp_request sample_arp"
  by (simp add: is_arp_request_def sample_arp_def be16_at_def)

lemma sample_echo_request: "is_echo_request sample_echo"
  by (simp add: is_echo_request_def sample_echo_def be16_at_def Let_def)

section \<open>The reflector\<close>

text \<open>
  C3: an ARP request (operation 1, protocol IPv4, address lengths 6 and 4) in the linear part of
  the frame is answered: the decoded reply is \<open>arp_answer\<close> of the decoded request (sender and source
  are the synthetic MAC of the requested address, target and destination the requester), and no
  byte outside the Ethernet addresses, the operation and the four ARP addresses changes.
\<close>

theorem dummy_arp_reply_refines:
  assumes "pull_ok K" "is_arp_request (skb_lin s)"
  shows "\<exists>d. dummy_arp_reply K s = Inr (0, s\<lparr>skb_lin := d\<rparr>)
    \<and> arp_view d = arp_answer (arp_view (skb_lin s))
    \<and> length d = length (skb_lin s)
    \<and> (\<forall>j < length d. j \<in> {12..<20} \<or> 42 \<le> j \<longrightarrow> d ! j = skb_lin s ! j)"
proof -
  have len: "42 \<le> length (skb_lin s)" using assms(2) by (simp add: is_arp_request_def)
  show ?thesis
    using dummy_arp_reply_linear [OF assms(1) len] assms(2) arp_bytes_refines [OF len]
      arp_bytes_frame [OF len] length_arp_bytes [OF len]
    by (intro exI [of _ "arp_bytes (skb_lin s)"]) simp
qed

theorem dummy_arp_reply_refines_witness:
  "\<exists>d. dummy_arp_reply sample_kernel (sample_skb sample_arp [])
         = Inr (0, (sample_skb sample_arp [])\<lparr>skb_lin := d\<rparr>)
    \<and> arp_view d = \<lparr>a_dst = [2, 0, 0, 0, 0, 1], a_src = [2, 222, 192, 168, 57, 101], a_op = 2,
        a_sha = [2, 222, 192, 168, 57, 101], a_sip = [192, 168, 57, 101],
        a_tha = [2, 0, 0, 0, 0, 1], a_tip = [192, 168, 57, 100]\<rparr>"
proof -
  let ?s = "sample_skb sample_arp []"
  have K: "pull_ok sample_kernel" using sample_kernel_ok by (simp add: eth_kernel_ok_def)
  have r: "is_arp_request (skb_lin ?s)" using sample_arp_request by (simp add: sample_skb_def)
  have v: "arp_answer (arp_view (skb_lin ?s)) = \<lparr>a_dst = [2, 0, 0, 0, 0, 1],
        a_src = [2, 222, 192, 168, 57, 101], a_op = 2,
        a_sha = [2, 222, 192, 168, 57, 101], a_sip = [192, 168, 57, 101],
        a_tha = [2, 0, 0, 0, 0, 1], a_tip = [192, 168, 57, 100]\<rparr>"
    by (simp add: sample_skb_def sample_arp_def arp_view_def arp_answer_def dummy_fake_mac_def slice_def Let_def)
  show ?thesis using dummy_arp_reply_refines [OF K r] unfolding v by blast
qed

text \<open>
  C2: an ICMP echo request whose IP length field fits the frame is turned into its reply: MAC and
  IP addresses are exchanged, the type becomes echo reply, the IP header checksum and the ICMP
  checksum verify, and every other byte is the request's.
\<close>

theorem dummy_icmp_reply_echo:
  assumes "eth_kernel_ok K" "is_echo_request (skb_lin s)"
  defines "d \<equiv> skb_lin s"
  defines "ihl \<equiv> 4 * unat (d ! 14 AND 15)" and "t \<equiv> unat (be16_at d 16)"
  shows "\<exists>r. dummy_icmp_reply K s = Inr (0, s\<lparr>skb_lin := r\<rparr>) \<and> length r = length d
    \<and> slice r 0 6 = slice d 6 6 \<and> slice r 6 6 = slice d 0 6
    \<and> slice r 26 4 = slice d 30 4 \<and> slice r 30 4 = slice d 26 4
    \<and> r ! (14 + ihl) = 0
    \<and> csum_valid (slice r 14 ihl) \<and> csum_valid (slice r (14 + ihl) (t - ihl))
    \<and> (\<forall>j < length d. j \<in> {12..<24} \<or> 34 \<le> j \<and> j \<notin> {14 + ihl, 16 + ihl, 17 + ihl} \<longrightarrow> r ! j = d ! j)"
proof -
  let ?r = "echo_reply_bytes ihl (t - ihl) d"
  have q: "20 \<le> ihl" "14 + ihl + 8 \<le> length d" "8 \<le> t - ihl" "14 + ihl + (t - ihl) \<le> length d"
    using assms(2) unfolding is_echo_request_def Let_def d_def [symmetric] ihl_def [symmetric] t_def [symmetric]
    by linarith+
  have k: "ihl = 4 * unat (d ! 14 AND 15)" "5 \<le> unat (d ! 14 AND 15)"
    using q(1) by (simp_all add: ihl_def)
  show ?thesis
    using echo_request_reply [OF assms(1,2)] echo_reply_addresses [OF q]
      echo_reply_ip_valid [OF k q(2,4)] echo_reply_icmp_valid [OF k q(3,4)]
      echo_reply_frame [OF q(1,2,4)]
    by (intro exI [of _ ?r]) (auto simp: d_def ihl_def t_def)
qed

theorem dummy_icmp_reply_echo_witness:
  "\<exists>r. dummy_icmp_reply sample_kernel (sample_skb sample_echo [])
         = Inr (0, (sample_skb sample_echo [])\<lparr>skb_lin := r\<rparr>)
    \<and> slice r 0 6 = [2, 0, 0, 0, 0, 1] \<and> slice r 26 4 = [192, 168, 57, 101]
    \<and> csum_valid (slice r 14 20) \<and> csum_valid (slice r 34 8)"
proof -
  let ?s = "sample_skb sample_echo []"
  have r: "is_echo_request (skb_lin ?s)" using sample_echo_request by (simp add: sample_skb_def)
  have v: "4 * unat (skb_lin ?s ! 14 AND 15) = 20" "unat (be16_at (skb_lin ?s) 16) = 28"
    "slice (skb_lin ?s) 6 6 = [2, 0, 0, 0, 0, 1]" "slice (skb_lin ?s) 30 4 = [192, 168, 57, 101]"
    by (simp_all add: sample_skb_def sample_echo_def be16_at_def slice_def)
  show ?thesis using dummy_icmp_reply_echo [OF sample_kernel_ok r] unfolding v by auto
qed



text \<open>
  C24: the faults of \<open>dummy_arp_reply\<close>, all of whose reads and writes of the frame are checked for
  a stale buffer and for the bounds of the linear part: it faults exactly when \<open>pskb_may_pull\<close> moved the data to
  another buffer, through the header pointers computed before, and then with \<open>UseAfterFree\<close>. In
  particular no access of it leaves the linear part.
\<close>

theorem dummy_arp_reply_faults:
  assumes "pull_ok K"
  shows "dummy_arp_reply K s = Inl f \<longleftrightarrow>
    f = UseAfterFree \<and> (\<exists>l fr h. pull_k K s 42 = Some (l, fr, h) \<and> h \<noteq> skb_head s)"
proof (cases "pull_k K s 42")
  case None
  then show ?thesis by (simp add: dummy_arp_reply_def pskb_may_pull_def)
next
  case (Some x)
  then obtain l fr h where x: "pull_k K s 42 = Some (l, fr, h)" by (cases x) auto
  then have "42 \<le> length l" using assms by (fastforce simp: pull_ok_def)
  from dummy_arp_reply_pulled [OF x this] x show ?thesis by auto
qed

theorem dummy_arp_reply_faults_witness:
  "dummy_arp_reply sample_kernel (sample_skb (take 14 sample_arp) (drop 14 sample_arp)) = Inl UseAfterFree"
proof -
  have K: "pull_ok sample_kernel" using sample_kernel_ok by (simp add: eth_kernel_ok_def)
  show ?thesis unfolding dummy_arp_reply_faults [OF K]
    by (simp add: sample_kernel_def sample_skb_def sample_arp_def)
qed

text \<open>
  C7: with a \<open>pskb_may_pull\<close> that keeps the bytes of the frame and a frame that has a device whose counters can
  be read, whenever \<open>dummy_eth_rx\<close> returns, the frame has been disposed of exactly once. Returning 0, it was
  handed to the stack, \<open>ETH_HLEN\<close> bytes shorter than it came because \<open>eth_type_trans\<close> pulled
  the Ethernet header, and the counters of the device, summed over the CPUs, grew by one packet and by
  the length the frame came with, header included. Otherwise it returned \<open>-EINVAL\<close>, freed the frame and left the
  counters alone.
\<close>

theorem dummy_eth_rx_accounts:
  assumes K: "pull_ok K" and rx: "dummy_eth_rx K cpu e (Some s) = Inr (r, e')"
    and dev: "skb_dev s = Some dev"
    and cpus: "distinct cpus" "cpu \<in> set cpus" and b: "dummy_get_stats64 cpus e dev a = Inr b"
  shows "(\<exists>s'. r = 0 \<and> skb_id s' = skb_id s \<and> skb_log e' = skb_log e @ [NetifRx s']
            \<and> skb_len s' + ETH_HLEN = skb_len s
            \<and> dummy_get_stats64 cpus e' dev a = Inr (add_dstats b (rx_delta (skb_len s))))
       \<or> (\<exists>s'. r = - EINVAL \<and> skb_id s' = skb_id s \<and> skb_log e' = skb_log e @ [KfreeSkb s']
            \<and> dummy_get_stats64 cpus e' dev a = Inr b)"
proof (cases "r = 0")
  case True
  obtain s1 s2 e1 where s2: "pskb_may_pull K s ETH_HLEN = Some s1" "eth_dispatch K s1 = Inr (0, s2)"
      "e' = netif_rx (rx_frame K (Some dev) s2) e1"
      "upd_dstats dev cpu (\<lambda>st. add_dstats st (rx_delta (skb_len s2))) e = Inr e1"
    using eth_rx_delivers [OF rx [unfolded True]] dev by auto
  have len: "skb_len s2 = skb_len s" "skb_id s2 = skb_id s"
    using eth_dispatch_len [OF K s2(2)] skb_len_pull [OF K s2(1)] skb_id_pull [OF s2(1)]
      eth_dispatch_props [OF s2(2)] by simp_all
  moreover have "14 \<le> length (skb_lin s2)" by (rule eth_dispatch_keeps_header [OF K s2(2)])
  ultimately show ?thesis
    using True s2(3) get_stats64_upd [OF cpus s2(4) b] get_stats64_netdevs [of e' e1] upd_dstats_log [OF s2(4)]
    by (intro disjI1 exI [of _ "rx_frame K (Some dev) s2"]) (simp add: netif_rx_def skb_len_def)
next
  case False
  then obtain s' where "r = - EINVAL" "skb_id s' = skb_id s" "e' = dev_kfree_skb s' e"
    using eth_rx_drops [OF rx] by blast
  then show ?thesis
    using b get_stats64_netdevs [of e' e] by (intro disjI2 exI [of _ s']) simp
qed

lemma sample_echo_dispatch:
  "eth_dispatch sample_kernel (sample_skb sample_echo []) =
     Inr (0, (sample_skb sample_echo [])\<lparr>skb_lin := echo_reply_bytes 20 8 sample_echo\<rparr>)"
proof -
  have "is_echo_request (skb_lin (sample_skb sample_echo []))"
    using sample_echo_request by (simp add: sample_skb_def)
  from echo_request_reply [OF sample_kernel_ok this] show ?thesis
    by (simp add: eth_dispatch_eq sample_skb_def sample_echo_def be16_at_def)
qed

lemma sample_echo_rx:
  "\<exists>e'. dummy_eth_rx sample_kernel 0 sample_env (Some (sample_skb sample_echo [])) = Inr (0, e')"
proof -
  have "pull_ok sample_kernel" using sample_kernel_ok by (simp add: eth_kernel_ok_def)
  then show ?thesis
    using eth_rx_reply [of sample_kernel "sample_skb sample_echo []" _ 0 sample_env sample_dev
        "\<lambda>_. zero_dstats" 0, OF _ _ sample_echo_dispatch]
    by (auto simp: sample_skb_def sample_echo_def sample_env_def sample_dev_def)
qed

theorem dummy_eth_rx_accounts_witness:
  "\<exists>e' s'. dummy_eth_rx sample_kernel 0 sample_env (Some (sample_skb sample_echo [])) = Inr (0, e')
     \<and> skb_log e' = [NetifRx s'] \<and> skb_id s' = 7 \<and> skb_len s' = 28
     \<and> dummy_get_stats64 [0, 1] e' 0 zero_dstats = Inr (rx_delta 42)"
proof -
  obtain e' where e': "dummy_eth_rx sample_kernel 0 sample_env (Some (sample_skb sample_echo [])) = Inr (0, e')"
    using sample_echo_rx by blast
  have K: "pull_ok sample_kernel" using sample_kernel_ok by (simp add: eth_kernel_ok_def)
  have b: "dummy_get_stats64 [0, 1] sample_env 0 zero_dstats = Inr zero_dstats"
    by (simp add: dummy_get_stats64_def sample_env_def sample_dev_def zero_dstats_def add_dstats_def)
  have dev: "skb_dev (sample_skb sample_echo []) = Some 0" "distinct [0, 1 :: nat]" "(0 :: nat) \<in> set [0, 1]"
    by (simp_all add: sample_skb_def)
  have v: "skb_len (sample_skb sample_echo []) = 42" "skb_id (sample_skb sample_echo []) = 7"
      "skb_log sample_env = []" "add_dstats zero_dstats (rx_delta 42) = rx_delta 42"
    by (simp_all add: sample_skb_def sample_echo_def skb_len_def sample_env_def add_dstats_def
        zero_dstats_def rx_delta_def)
  from dummy_eth_rx_accounts [OF K e' dev b] e' show ?thesis unfolding v by auto
qed

section \<open>The two modules together\<close>

text \<open>
  C1: pinging a peer works. With the driver loaded and the hardware queue empty, transmitting an
  echo request on the device and letting the hardware thread make one round hands exactly one
  frame to the stack: the same \<open>sk_buff\<close>, its Ethernet header pulled off the data. Header and data together
  are a frame addressed back to its sender, an echo reply with valid checksums.
\<close>

theorem ping_is_answered:
  assumes "eth_kernel_ok K" "is_echo_request (skb_lin s)" "be16_at (skb_lin s) 12 = ETH_P_IP"
    and "skb_dev s = Some dev" "netdevs e dev = Some d" "dstats d = Some st"
    and "skb_tx_q hw = []" "dummy_drv_rx hw = Some (\<lambda>e s. dummy_eth_rx K cpu' e (Some s))"
  shows "\<exists>hw1 e1 hw2 e2 s'. dummy_xmit cpu hw e s dev = Inr (0, hw1, e1)
    \<and> dummy_hw_thread 1 hw1 e1 = Inr (hw2, e2)
    \<and> skb_tx_q hw2 = [] \<and> skb_log e2 = skb_log e @ [NetifRx s'] \<and> skb_id s' = skb_id s
    \<and> length (skb_mac s') = ETH_HLEN \<and> skb_len s' + ETH_HLEN = skb_len s
    \<and> (let f = skb_mac s' @ skb_lin s' in
        slice f 0 6 = slice (skb_lin s) 6 6
      \<and> slice f 26 4 = slice (skb_lin s) 30 4
      \<and> slice f 30 4 = slice (skb_lin s) 26 4
      \<and> (let ihl = 4 * unat (skb_lin s ! 14 AND 15); t = unat (be16_at (skb_lin s) 16) in
          f ! (14 + ihl) = 0 \<and> csum_valid (slice f 14 ihl)
          \<and> csum_valid (slice f (14 + ihl) (t - ihl))))"
proof -
  define l ihl t where "l = skb_lin s" and "ihl = 4 * unat (l ! 14 AND 15)" and "t = unat (be16_at l 16)"
  let ?r = "echo_reply_bytes ihl (t - ihl) l"
  have q: "20 \<le> ihl" "14 + ihl + 8 \<le> length l" "8 \<le> t - ihl" "14 + ihl + (t - ihl) \<le> length l"
    using assms(2) unfolding is_echo_request_def Let_def l_def [symmetric] ihl_def [symmetric] t_def [symmetric]
    by linarith+
  have k: "ihl = 4 * unat (l ! 14 AND 15)" "5 \<le> unat (l ! 14 AND 15)"
    using q(1) by (simp_all add: ihl_def)
  have disp: "eth_dispatch K s = Inr (0, s\<lparr>skb_lin := ?r\<rparr>)"
    using echo_request_reply [OF assms(1,2)] assms(3) q(2)
    by (simp add: eth_dispatch_eq l_def ihl_def t_def)
  have K: "pull_ok K" "14 \<le> length (skb_lin s)" using assms(1) q by (simp_all add: eth_kernel_ok_def l_def)
  note a = echo_reply_addresses [OF q]
  let ?s' = "rx_frame K (Some dev) (s\<lparr>skb_lin := ?r\<rparr>)"
  have f: "skb_mac ?s' @ skb_lin ?s' = ?r" by simp
  have "length (skb_mac ?s') = ETH_HLEN" "skb_len ?s' + ETH_HLEN = skb_len s"
    using a(1) q(2) by (simp_all add: skb_len_def l_def)
  moreover obtain hw1 e1 hw2 e2 where "dummy_xmit cpu hw e s dev = Inr (0, hw1, e1)"
      "dummy_hw_thread 1 hw1 e1 = Inr (hw2, e2)" "skb_tx_q hw2 = []"
      "skb_log e2 = skb_log e @ [NetifRx ?s']" "skb_id ?s' = skb_id s"
    using xmit_then_thread [OF assms(8,7) K disp assms(4-6), of cpu] by blast
  ultimately show ?thesis
    using a echo_reply_ip_valid [OF k q(2,4)] echo_reply_icmp_valid [OF k q(3,4)]
    unfolding l_def [symmetric] ihl_def [symmetric] t_def [symmetric] Let_def
    by (intro exI [of _ hw1] exI [of _ e1] exI [of _ hw2] exI [of _ e2] exI [of _ ?s'])
       (simp only: f simp_thms)
qed

definition sample_hw :: eth_hw where
  "sample_hw = \<lparr>skb_tx_q = [],
     dummy_drv_rx = Some (\<lambda>e s. dummy_eth_rx sample_kernel 1 e (Some s)), hw_thread_id = Task\<rparr>"

theorem ping_is_answered_witness:
  "\<exists>hw1 e1 hw2 e2 s'. dummy_xmit 0 sample_hw sample_env (sample_skb sample_echo []) 0 = Inr (0, hw1, e1)
     \<and> dummy_hw_thread 1 hw1 e1 = Inr (hw2, e2) \<and> skb_log e2 = [NetifRx s'] \<and> skb_id s' = 7
     \<and> slice (skb_mac s' @ skb_lin s') 0 6 = [2, 0, 0, 0, 0, 1]"
proof -
  let ?s = "sample_skb sample_echo []"
  have h: "is_echo_request (skb_lin ?s)" "be16_at (skb_lin ?s) 12 = ETH_P_IP" "skb_dev ?s = Some 0"
    "netdevs sample_env 0 = Some sample_dev" "dstats sample_dev = Some (\<lambda>_. zero_dstats)"
    "skb_tx_q sample_hw = []"
    "dummy_drv_rx sample_hw = Some (\<lambda>e s. dummy_eth_rx sample_kernel 1 e (Some s))"
    using sample_echo_request
    by (simp_all add: sample_skb_def sample_echo_def be16_at_def sample_env_def sample_dev_def sample_hw_def)
  have v: "slice (skb_lin ?s) 6 6 = [2, 0, 0, 0, 0, 1]" "skb_log sample_env = []" "skb_id ?s = 7"
    by (simp_all add: sample_skb_def sample_echo_def slice_def sample_env_def)
  show ?thesis
    using ping_is_answered [OF sample_kernel_ok h, of 0] unfolding v append_Nil Let_def by blast
qed

text \<open>The thread after it has dequeued frame \<open>s\<close> and seen a callback.\<close>

definition at_call :: "('skb, 'm) rx_fn \<Rightarrow> ('skb, 'm) klog_scheme \<Rightarrow> 'skb \<Rightarrow> ('skb, 'm) hw_sys" where
  "at_call rx e s = \<lparr>hw_of = \<lparr>skb_tx_q = [], dummy_drv_rx = Some rx, hw_thread_id = Task\<rparr>,
     env_of = e, pc_of = TCall s, client_of = CIdle\<rparr>"

lemma run_to_call:
  "hw_run rx (hw_start e) [LReg, LClient, LTx s, LThread, LThread, LThread, LThread] (at_call rx e s)"
proof -
  let ?S = "\<lambda>q cb pc c. \<lparr>hw_of = \<lparr>skb_tx_q = q, dummy_drv_rx = cb, hw_thread_id = Task\<rparr>, env_of = e,
    pc_of = pc, client_of = c\<rparr>"
  have steps: "hw_step rx (?S [] None TSleep CIdle) LReg (?S [] None TSleep CSet)"
    "hw_step rx (?S [] None TSleep CSet) LClient (?S [] (Some rx) TSleep CIdle)"
    "hw_step rx (?S [] (Some rx) TSleep CIdle) (LTx s) (?S [s] (Some rx) TSleep CIdle)"
    "hw_step rx (?S [s] (Some rx) TSleep CIdle) LThread (?S [s] (Some rx) TLoop CIdle)"
    "hw_step rx (?S [s] (Some rx) TLoop CIdle) LThread (?S [s] (Some rx) TDequeue CIdle)"
    "hw_step rx (?S [s] (Some rx) TDequeue CIdle) LThread (?S [] (Some rx) (TGot s) CIdle)"
    "hw_step rx (?S [] (Some rx) (TGot s) CIdle) LThread (?S [] (Some rx) (TCall s) CIdle)"
    using hw_step.reg_test [where s = "?S [] None TSleep CIdle" and rx = rx]
      hw_step.reg_set [where s = "?S [] None TSleep CSet" and rx = rx]
      hw_step.tx [where s = "?S [] (Some rx) TSleep CIdle" and skb = s and rx = rx]
      hw_step.wake [where s = "?S [s] (Some rx) TSleep CIdle" and rx = rx]
      hw_step.more [where s = "?S [s] (Some rx) TLoop CIdle" and rx = rx]
      hw_step.deq_some [where s = "?S [s] (Some rx) TDequeue CIdle" and skb = s and q = "[]" and rx = rx]
      hw_step.test_set [where s = "?S [] (Some rx) (TGot s) CIdle" and skb = s and rx = rx]
    by (simp_all add: lt_hw_tx_def)
  have "hw_run rx (hw_start e) [] (?S [] None TSleep CIdle)" using hw_run.none by (simp add: hw_start_def)
  from this [THEN hw_run.step, OF steps(1), THEN hw_run.step, OF steps(2), THEN hw_run.step, OF steps(3),
      THEN hw_run.step, OF steps(4), THEN hw_run.step, OF steps(5), THEN hw_run.step, OF steps(6),
      THEN hw_run.step, OF steps(7)]
  show ?thesis by (simp add: at_call_def)
qed

text \<open>
  C6: on every interleaving of the hardware thread with transmitters and with registration and
  deregistration of the driver, no frame is lost or duplicated: the frames handed to
  \<open>lt_hw_tx\<close> are, as a multiset of \<open>sk_buff\<close> identities, the frames still queued, the one the thread
  holds, and those delivered to the stack or freed.
\<close>

theorem frames_conserved:
  assumes "hw_run (\<lambda>e s. dummy_eth_rx K cpu e (Some s)) (hw_start e) ls t" "skb_log e = []"
  shows "held skb_id t = image_mset skb_id (mset (sent ls))"
  using deth.run_held [OF assms(1) deth.start_registered_ok] assms(2)
  by (simp add: held_def hw_start_def)

theorem frames_conserved_witness:
  "\<exists>ls t. hw_run (\<lambda>e s. dummy_eth_rx sample_kernel 0 e (Some s)) (hw_start sample_env) ls t
     \<and> sent ls = [sample_skb sample_echo []] \<and> pc_of t = TCall (sample_skb sample_echo [])
     \<and> held skb_id t = {#7#}"
proof -
  let ?rx = "\<lambda>e s. dummy_eth_rx sample_kernel 0 e (Some s)" and ?s = "sample_skb sample_echo []"
  let ?ls = "[LReg, LClient, LTx ?s, LThread, LThread, LThread, LThread]"
  have r: "hw_run ?rx (hw_start sample_env) ?ls (at_call ?rx sample_env ?s)" by (rule run_to_call)
  have "held skb_id (at_call ?rx sample_env ?s) = {#7#}"
    using frames_conserved [OF r] by (simp add: sample_skb_def sample_env_def)
  then show ?thesis
    using r by (intro exI [of _ ?ls] exI [of _ "at_call ?rx sample_env ?s"]) (simp add: at_call_def)
qed

lemma race_run:
  "\<exists>ls t. hw_run rx (hw_start e) ls t \<and> pc_of t = TFault s \<and> dummy_drv_rx (hw_of t) = None \<and> sent ls = [s]"
proof -
  let ?c = "at_call rx e s"
  let ?u = "?c\<lparr>client_of := CClear\<rparr>"
  let ?t = "?u\<lparr>hw_of := (hw_of ?u)\<lparr>dummy_drv_rx := None\<rparr>, client_of := CPurge\<rparr>"
  have "hw_step rx ?c LDereg ?u" by (rule hw_step.dereg_test) (simp_all add: at_call_def)
  moreover have "hw_step rx ?u LClient ?t" by (rule hw_step.dereg_clear) simp
  moreover have "hw_step rx ?t LThread (?t\<lparr>pc_of := TFault s\<rparr>)"
    by (rule hw_step.call_null) (simp_all add: at_call_def)
  ultimately have "hw_run rx (hw_start e)
      ((([LReg, LClient, LTx s, LThread, LThread, LThread, LThread] @ [LDereg]) @ [LClient]) @ [LThread])
      (?t\<lparr>pc_of := TFault s\<rparr>)"
    using run_to_call by (intro hw_run.step)
  then show ?thesis by (intro exI conjI) (assumption, simp_all add: at_call_def)
qed

text \<open>
  C25: as long as nobody calls \<open>lt_request_irq(false, NULL)\<close>, the thread never calls through a NULL
  callback: in every reachable state in which it is about to make the call, the callback is the
  registered one. Deregistration, however, is not safe while the thread runs: between the thread's test of
  \<open>dummy_drv_rx\<close> and its call the pointer can become NULL, and for every callback and frame there is a run in
  which the call goes through it.
\<close>

theorem deregistration_race:
  "(\<forall>ls t skb. hw_run rx (hw_start e) ls t \<longrightarrow> LDereg \<notin> set ls \<longrightarrow> pc_of t = TCall skb \<longrightarrow> dummy_drv_rx (hw_of t) = Some rx)
   \<and> (\<exists>ls t. hw_run rx (hw_start e) ls t \<and> pc_of t = TFault s \<and> dummy_drv_rx (hw_of t) = None \<and> sent ls = [s])"
  using run_call_safe [OF _ _ start_call_safe] race_run by (fastforce simp: call_safe_def)

theorem deregistration_race_witness:
  "(\<exists>ls. hw_run (\<lambda>e s. dummy_eth_rx sample_kernel 0 e (Some s)) (hw_start sample_env) ls
         (at_call (\<lambda>e s. dummy_eth_rx sample_kernel 0 e (Some s)) sample_env (sample_skb sample_echo []))
       \<and> dummy_drv_rx (hw_of (at_call (\<lambda>e s. dummy_eth_rx sample_kernel 0 e (Some s)) sample_env
           (sample_skb sample_echo []))) = Some (\<lambda>e s. dummy_eth_rx sample_kernel 0 e (Some s)))
   \<and> (\<exists>ls t. hw_run (\<lambda>e s. dummy_eth_rx sample_kernel 0 e (Some s)) (hw_start sample_env) ls t
       \<and> pc_of t = TFault (sample_skb sample_echo []) \<and> dummy_drv_rx (hw_of t) = None)"
proof -
  let ?rx = "\<lambda>e s. dummy_eth_rx sample_kernel 0 e (Some s)" and ?s = "sample_skb sample_echo []"
  let ?ls = "[LReg, LClient, LTx ?s, LThread, LThread, LThread, LThread]"
  note r = run_to_call [of ?rx sample_env ?s] and d = deregistration_race [of ?rx sample_env ?s]
  have "LDereg \<notin> set ?ls" "pc_of (at_call ?rx sample_env ?s) = TCall ?s" by (simp_all add: at_call_def)
  then have "dummy_drv_rx (hw_of (at_call ?rx sample_env ?s)) = Some ?rx"
    using d [THEN conjunct1, rule_format, OF r] by blast
  then show ?thesis using r d by blast
qed

section \<open>Module load and unload\<close>

text \<open>
  C26: loading the driver is all or nothing. Whatever the kernel answers, \<open>dummy_init_module\<close>
  either returns 0 with the link kind registered, one registered device with allocated counters and the
  reflector registered as receive callback, or it returns an error and has undone everything: the device
  \<open>alloc_netdev\<close> returned is freed again, no per-CPU counters are left behind, the link kind is unregistered and
  the hardware layer is as before. Assumed are a hardware layer without callback, a link
  kind not yet registered, and that \<open>alloc_netdev\<close> returns memory that is not a device already.
\<close>

theorem dummy_init_module_atomic:
  assumes "dummy_init_module K cpu A hw e = (r, hw', e')"
    and "dummy_drv_rx hw = None" "\<not> link_registered e"
    and "\<forall>dev. alloc_r A = Some dev \<longrightarrow> netdevs e dev = None"
  shows "if r = 0 then
      (\<exists>dev d st. alloc_r A = Some dev \<and> netdevs e' = (netdevs e)(dev \<mapsto> d) \<and> dstats d = Some st \<and> reg_state d
         \<and> link_registered e' \<and> skb_log e' = skb_log e
         \<and> hw' = hw\<lparr>dummy_drv_rx := Some (\<lambda>e s. dummy_eth_rx K cpu e (Some s))\<rparr>)
    else r < 0 \<and> hw' = hw \<and> e' = e"
proof (cases "link_r A < 0")
  case True
  then show ?thesis using assms(1) by (auto simp: dummy_init_module_def)
next
  case False
  have l: "e\<lparr>link_registered := False\<rparr> = e" using assms(3) by (cases e) simp
  show ?thesis
  proof (cases "alloc_r A")
    case None
    then show ?thesis using assms(1) False l by (auto simp: dummy_init_module_def dummy_init_one_def)
  next
    case (Some dev)
    then have n: "(netdevs e)(dev := None) = netdevs e" using assms(4) by auto
    show ?thesis
      using assms(1,2) False Some l n
      by (cases "pcpu_r A"; cases "reg_r A < 0")
         (auto simp: dummy_init_module_def dummy_init_one_def register_netdevice_def dummy_dev_init_def
            dummy_setup_def free_netdev_def dummy_dev_uninit_def lt_request_irq_def Let_def)
  qed
qed

theorem dummy_init_module_atomic_witness:
  "\<exists>hw' e'. dummy_init_module sample_kernel 0
      \<lparr>link_r = 0, alloc_r = Some 3, mac_r = [2, 0, 0, 0, 0, 9], pcpu_r = True, reg_r = 0\<rparr>
      (sample_hw\<lparr>dummy_drv_rx := None\<rparr>) (sample_env\<lparr>link_registered := False\<rparr>) = (0, hw', e')
    \<and> link_registered e' \<and> netdevs e' 3 \<noteq> None"
proof -
  let ?A = "\<lparr>link_r = 0, alloc_r = Some 3, mac_r = [2, 0, 0, 0, 0, 9], pcpu_r = True, reg_r = 0\<rparr> :: load_answers"
  let ?hw = "sample_hw\<lparr>dummy_drv_rx := None\<rparr>" and ?e = "sample_env\<lparr>link_registered := False\<rparr>"
  obtain r hw' e' where r: "dummy_init_module sample_kernel 0 ?A ?hw ?e = (r, hw', e')"
    by (cases "dummy_init_module sample_kernel 0 ?A ?hw ?e") auto
  have "r = 0"
    using r by (simp add: dummy_init_module_def dummy_init_one_def register_netdevice_def
        dummy_dev_init_def lt_request_irq_def)
  with dummy_init_module_atomic [OF r] r show ?thesis by (auto simp: sample_env_def)
qed

text \<open>
  Unloading the driver deregisters the callback, frees every frame still queued in the
  hardware layer exactly once and in order, and leaves no device behind.
\<close>

theorem dummy_cleanup_module_complete:
  assumes "dummy_drv_rx hw \<noteq> None" "\<forall>dev d. netdevs e dev = Some d \<longrightarrow> needs_free_netdev d"
  shows "\<exists>hw' e'. dummy_cleanup_module hw e = (hw', e') \<and> dummy_drv_rx hw' = None \<and> skb_tx_q hw' = []
    \<and> skb_log e' = skb_log e @ map KfreeSkb (skb_tx_q hw)
    \<and> netdevs e' = Map.empty \<and> \<not> link_registered e'"
proof -
  have n: "netdevs (fold dev_kfree_skb ss e) = netdevs e" for ss
    by (induction ss arbitrary: e) simp_all
  have "(case map_option dummy_dev_uninit (netdevs e dev) of None \<Rightarrow> None
      | Some d \<Rightarrow> if needs_free_netdev d then None else Some d) = None" for dev
    using assms(2) by (cases "netdevs e dev") (simp_all add: dummy_dev_uninit_def)
  then show ?thesis
    using assms(1)
    by (simp add: dummy_cleanup_module_def lt_request_irq_def skb_queue_purge_def skb_log_purge n)
qed

theorem dummy_cleanup_module_complete_witness:
  "\<exists>hw' e'. dummy_cleanup_module (sample_hw\<lparr>skb_tx_q := [sample_skb sample_echo []]\<rparr>) sample_env = (hw', e')
    \<and> skb_log e' = [KfreeSkb (sample_skb sample_echo [])]"
proof -
  let ?hw = "sample_hw\<lparr>skb_tx_q := [sample_skb sample_echo []]\<rparr>"
  have n: "\<forall>dev d. netdevs sample_env dev = Some d \<longrightarrow> needs_free_netdev d"
    by (auto simp: sample_env_def sample_dev_def dummy_setup_def split: if_splits)
  have "dummy_drv_rx ?hw \<noteq> None" by (simp add: sample_hw_def)
  from dummy_cleanup_module_complete [OF this n] show ?thesis
    by (auto simp: sample_env_def)
qed

end
