(* ===== verification/Snull.thy ===== *)
theory Snull
  imports Prelude
begin

unbundle bit_operations_syntax

text \<open>
  The driver of \<open>snull/snull.c\<close>: two virtual Ethernet devices whose frames loop back to each other.

  \<^item> In-flight packets live in a store of \<open>snull_packet\<close> cells (\<open>pkts\<close>), linked through
    \<open>pkt_next\<close>; each device has the heads of two such lists, its free pool (\<open>ppool\<close>) and its
    receive queue (\<open>rx_queue\<close>), in \<open>snull_priv\<close>.
  \<^item> \<open>sworld\<close> is what the driver can see: the packet store, the two devices, the live
    \<open>sk_buff\<close>s of the transmit path (\<open>skbs\<close>) and the log of frames passed up and buffers freed.
  \<^item> Every function is one definition, in source order. A NULL pointer, a pointer to a freed
    cell, a second free, an access outside an array and a spin lock taken twice by the same
    CPU are faults.
  \<^item> \<open>snull_env\<close> collects the module parameters and the kernel's answers: whether the \<open>n\<close>-th skb
    allocation succeeds, which cell \<open>kmalloc\<close> returns, \<open>ip_fast_csum\<close>, \<open>eth_type_trans\<close> and
    \<open>ether_setup\<close>.
\<close>

section \<open>Data\<close>

datatype sdev = SN0 | SN1

fun twin :: "sdev \<Rightarrow> sdev" where
  "twin SN0 = SN1"
| "twin SN1 = SN0"

record snull_packet =
  pkt_next :: "nat option"
  pkt_dev :: sdev
  datalen :: int
  pdata :: bytes

record net_device_stats =
  rx_packets :: u64
  tx_packets :: u64
  rx_bytes :: u64
  tx_bytes :: u64
  tx_errors :: u64
  rx_dropped :: u64

record snull_priv =
  stats :: net_device_stats
  status :: u32
  ppool :: "nat option"
  rx_queue :: "nat option"
  rx_int_enabled :: int
  tx_packetlen :: int
  tx_packetdata :: bytes
  priv_skb :: "nat option"
  plock :: bool
  napi_enabled :: bool
  napi_scheduled :: bool

record snull_dev =
  priv :: snull_priv
  queue_stopped :: bool
  dev_flags :: u32
  base_addr :: nat
  dev_irq :: nat
  mtu :: int
  min_mtu :: int
  max_mtu :: int
  dev_addr :: bytes
  addr_len :: nat
  hard_header_len :: int
  watchdog_timeo :: int
  registered :: bool

text \<open>
  A frame passed to the stack: receiving device, the bytes copied into the \<open>sk_buff\<close> (\<open>eth_type_trans\<close> then
  pulls the header off \<open>skb->data\<close>; the driver reads nothing of the \<open>sk_buff\<close> after that), the protocol it found. The
  last component tells \<open>netif_rx\<close> (interrupt) from \<open>netif_receive_skb\<close> (NAPI poll).
\<close>

datatype sevent = RxFrame sdev bytes u16 bool | KfreeSkb nat | UnregisterNetdev sdev bool | FreeNetdev sdev

record sworld =
  pkts :: "nat \<Rightarrow> snull_packet option"
  devs :: "sdev \<Rightarrow> snull_dev"
  snull_devs :: "sdev \<Rightarrow> bool"
  skbs :: "nat \<Rightarrow> bytes option"
  slog :: "sevent list"
  nallocs :: nat

record snull_env =
  lockup :: int
  timeout :: int
  use_napi :: bool
  pool_size :: int
  netdev_alloc_skb :: "nat \<Rightarrow> bool"
  kmalloc :: "sdev \<Rightarrow> nat \<Rightarrow> nat option"
  ip_fast_csum :: "bytes \<Rightarrow> nat \<Rightarrow> u16"
  eth_type_trans :: "sdev \<Rightarrow> bytes \<Rightarrow> u16"
  ether_setup :: "snull_dev \<Rightarrow> snull_dev"

abbreviation SNULL_RX_INTR :: u32 where "SNULL_RX_INTR \<equiv> 0x0001"
abbreviation SNULL_TX_INTR :: u32 where "SNULL_TX_INTR \<equiv> 0x0002"
abbreviation IFF_UP :: u32 where "IFF_UP \<equiv> 0x1"
abbreviation IFF_NOARP :: u32 where "IFF_NOARP \<equiv> 0x80"

section \<open>Updating the world\<close>

abbreviation pr :: "sworld \<Rightarrow> sdev \<Rightarrow> snull_priv" where
  "pr w d \<equiv> priv (devs w d)"

definition upd_dev :: "sdev \<Rightarrow> (snull_dev \<Rightarrow> snull_dev) \<Rightarrow> sworld \<Rightarrow> sworld" where
  "upd_dev d f w = w\<lparr>devs := (devs w)(d := f (devs w d))\<rparr>"

definition upd_priv :: "sdev \<Rightarrow> (snull_priv \<Rightarrow> snull_priv) \<Rightarrow> sworld \<Rightarrow> sworld" where
  "upd_priv d f w = upd_dev d (\<lambda>x. x\<lparr>priv := f (priv x)\<rparr>) w"

definition upd_stats :: "sdev \<Rightarrow> (net_device_stats \<Rightarrow> net_device_stats) \<Rightarrow> sworld \<Rightarrow> sworld" where
  "upd_stats d f w = upd_priv d (\<lambda>p. p\<lparr>stats := f (stats p)\<rparr>) w"

definition netif_stop_queue :: "sdev \<Rightarrow> sworld \<Rightarrow> sworld" where
  "netif_stop_queue d w = upd_dev d (\<lambda>x. x\<lparr>queue_stopped := True\<rparr>) w"

definition netif_start_queue :: "sdev \<Rightarrow> sworld \<Rightarrow> sworld" where
  "netif_start_queue d w = upd_dev d (\<lambda>x. x\<lparr>queue_stopped := False\<rparr>) w"

definition netif_wake_queue :: "sdev \<Rightarrow> sworld \<Rightarrow> sworld" where
  "netif_wake_queue d w = upd_dev d (\<lambda>x. x\<lparr>queue_stopped := False\<rparr>) w"

definition spin_lock :: "sdev \<Rightarrow> sworld \<Rightarrow> sworld res" where
  "spin_lock d w = (if plock (pr w d) then Inl Deadlock else Inr (upd_priv d (\<lambda>p. p\<lparr>plock := True\<rparr>) w))"

definition spin_unlock :: "sdev \<Rightarrow> sworld \<Rightarrow> sworld" where
  "spin_unlock d w = upd_priv d (\<lambda>p. p\<lparr>plock := False\<rparr>) w"

definition pkt_at :: "sworld \<Rightarrow> nat \<Rightarrow> snull_packet res" where
  "pkt_at w a = (case pkts w a of None \<Rightarrow> Inl UseAfterFree | Some pk \<Rightarrow> Inr pk)"

definition set_pkt :: "nat \<Rightarrow> snull_packet \<Rightarrow> sworld \<Rightarrow> sworld" where
  "set_pkt a pk w = w\<lparr>pkts := (pkts w)(a \<mapsto> pk)\<rparr>"

section \<open>The packet pool\<close>

text \<open>
  \<open>kmalloc\<close> does not initialise the cell; its \<open>datalen\<close> and data are written before they are first
  read, and start as zeros here.
\<close>

text \<open>\<open>i\<close> counts up to \<open>pool_size\<close>; a failed \<open>kmalloc\<close> ends the loop with the pool built so far.\<close>

fun setup_pool_loop :: "snull_env \<Rightarrow> sdev \<Rightarrow> nat \<Rightarrow> nat \<Rightarrow> sworld \<Rightarrow> sworld" where
  "setup_pool_loop E d i 0 w = w"
| "setup_pool_loop E d i (Suc n) w =
     (case kmalloc E d i of
        None \<Rightarrow> w
      | Some a \<Rightarrow>
          let pk = \<lparr>pkt_next = ppool (pr w d), pkt_dev = d, datalen = 0, pdata = replicate ETH_DATA_LEN 0\<rparr>;
              w = set_pkt a pk w;
              w = upd_priv d (\<lambda>p. p\<lparr>ppool := Some a\<rparr>) w
          in setup_pool_loop E d (Suc i) n w)"

definition snull_setup_pool :: "snull_env \<Rightarrow> sdev \<Rightarrow> sworld \<Rightarrow> sworld" where
  "snull_setup_pool E d w =
     setup_pool_loop E d 0 (nat (pool_size E)) (upd_priv d (\<lambda>p. p\<lparr>ppool := None\<rparr>) w)"

fun snull_teardown_pool :: "nat \<Rightarrow> sdev \<Rightarrow> sworld \<Rightarrow> sworld res" where
  "snull_teardown_pool 0 d w = Inl OutOfFuel"
| "snull_teardown_pool (Suc fuel) d w =
     (case ppool (pr w d) of
        None \<Rightarrow> Inr w
      | Some a \<Rightarrow>
          rbind (pkt_at w a) (\<lambda>pk.
            let w = upd_priv d (\<lambda>p. p\<lparr>ppool := pkt_next pk\<rparr>) w;
                w = w\<lparr>pkts := (pkts w)(a := None)\<rparr>
            in snull_teardown_pool fuel d w))"

definition snull_get_tx_buffer :: "sdev \<Rightarrow> sworld \<Rightarrow> (nat \<times> sworld) res" where
  "snull_get_tx_buffer d w =
     rbind (spin_lock d w) (\<lambda>w.
     rbind (deref (ppool (pr w d))) (\<lambda>a.
     rbind (pkt_at w a) (\<lambda>pk.
       let w = upd_priv d (\<lambda>p. p\<lparr>ppool := pkt_next pk\<rparr>) w;
           w = (if ppool (pr w d) = None then netif_stop_queue d w else w)
       in Inr (a, spin_unlock d w))))"

definition snull_release_buffer :: "nat \<Rightarrow> sworld \<Rightarrow> sworld res" where
  "snull_release_buffer a w =
     rbind (pkt_at w a) (\<lambda>pk. let d = pkt_dev pk in
     rbind (spin_lock d w) (\<lambda>w.
       let pk = pk\<lparr>pkt_next := ppool (pr w d)\<rparr>;
           w = set_pkt a pk w;
           w = upd_priv d (\<lambda>p. p\<lparr>ppool := Some a\<rparr>) w;
           w = spin_unlock d w
       in Inr (if queue_stopped (devs w d) \<and> pkt_next pk = None then netif_wake_queue d w else w)))"

definition snull_enqueue_buf :: "sdev \<Rightarrow> nat \<Rightarrow> sworld \<Rightarrow> sworld res" where
  "snull_enqueue_buf d a w =
     rbind (spin_lock d w) (\<lambda>w.
     rbind (pkt_at w a) (\<lambda>pk.
       let w = set_pkt a (pk\<lparr>pkt_next := rx_queue (pr w d)\<rparr>) w;
           w = upd_priv d (\<lambda>p. p\<lparr>rx_queue := Some a\<rparr>) w
       in Inr (spin_unlock d w)))"

definition snull_dequeue_buf :: "sdev \<Rightarrow> sworld \<Rightarrow> (nat option \<times> sworld) res" where
  "snull_dequeue_buf d w =
     rbind (spin_lock d w) (\<lambda>w.
       case rx_queue (pr w d) of
         None \<Rightarrow> Inr (None, spin_unlock d w)
       | Some a \<Rightarrow>
           rbind (pkt_at w a) (\<lambda>pk.
             Inr (Some a, spin_unlock d (upd_priv d (\<lambda>p. p\<lparr>rx_queue := pkt_next pk\<rparr>) w))))"

definition snull_rx_ints :: "sdev \<Rightarrow> int \<Rightarrow> sworld \<Rightarrow> sworld" where
  "snull_rx_ints d enable w = upd_priv d (\<lambda>p. p\<lparr>rx_int_enabled := enable\<rparr>) w"

section \<open>Open, close, configuration\<close>

definition snull_hw_addr :: "sdev \<Rightarrow> bytes" where
  "snull_hw_addr d =
     (let addr = [0, 0x53, 0x4e, 0x55, 0x4c, 0x30] in
      if d = SN1 then addr[ETH_ALEN - 1 := addr ! (ETH_ALEN - 1) + 1] else addr)"

definition snull_open :: "snull_env \<Rightarrow> sdev \<Rightarrow> sworld \<Rightarrow> int \<times> sworld" where
  "snull_open E d w =
     (let w = upd_dev d (\<lambda>x. x\<lparr>dev_addr := snull_hw_addr d\<rparr>) w;
          w = (if use_napi E then upd_priv d (\<lambda>p. p\<lparr>napi_enabled := True\<rparr>) w else w)
      in (0, netif_start_queue d w))"

definition snull_release :: "snull_env \<Rightarrow> sdev \<Rightarrow> sworld \<Rightarrow> int \<times> sworld" where
  "snull_release E d w =
     (let w = netif_stop_queue d w;
          w = (if use_napi E then upd_priv d (\<lambda>p. p\<lparr>napi_enabled := False\<rparr>) w else w)
      in (0, w))"

record ifmap =
  map_base_addr :: nat
  map_irq :: nat

definition snull_config :: "sdev \<Rightarrow> ifmap \<Rightarrow> sworld \<Rightarrow> int \<times> sworld" where
  "snull_config d m w =
     (if dev_flags (devs w d) AND IFF_UP \<noteq> 0 then (- EBUSY, w)
      else if map_base_addr m \<noteq> base_addr (devs w d) then (- EOPNOTSUPP, w)
      else if map_irq m \<noteq> dev_irq (devs w d) then (0, upd_dev d (\<lambda>x. x\<lparr>dev_irq := map_irq m\<rparr>) w)
      else (0, w))"

definition snull_change_mtu :: "sdev \<Rightarrow> int \<Rightarrow> sworld \<Rightarrow> (int \<times> sworld) res" where
  "snull_change_mtu d new_mtu w =
     (if new_mtu < 68 \<or> new_mtu > 1500 then Inr (- EINVAL, w)
      else rbind (spin_lock d w) (\<lambda>w.
             Inr (0, spin_unlock d (upd_dev d (\<lambda>x. x\<lparr>mtu := new_mtu\<rparr>) w))))"

section \<open>Reception\<close>

text \<open>
  \<open>alloc_skb\<close> is one call of \<open>netdev_alloc_skb\<close>. \<open>pkt_payload\<close> is the copy of \<open>datalen\<close> bytes out of the
  packet's array into the new \<open>sk_buff\<close>.
\<close>

definition alloc_skb :: "snull_env \<Rightarrow> sworld \<Rightarrow> bool \<times> sworld" where
  "alloc_skb E w = (netdev_alloc_skb E (nallocs w), w\<lparr>nallocs := Suc (nallocs w)\<rparr>)"

definition pkt_payload :: "snull_packet \<Rightarrow> bytes res" where
  "pkt_payload pk =
     (if datalen pk < 0 \<or> int (length (pdata pk)) < datalen pk then Inl OutOfBounds
      else Inr (take (nat (datalen pk)) (pdata pk)))"

definition pass_up :: "snull_env \<Rightarrow> sdev \<Rightarrow> bytes \<Rightarrow> bool \<Rightarrow> sworld \<Rightarrow> sworld" where
  "pass_up E d bs irq w = w\<lparr>slog := slog w @ [RxFrame d bs (eth_type_trans E d bs) irq]\<rparr>"

definition count_rx :: "sdev \<Rightarrow> int \<Rightarrow> sworld \<Rightarrow> sworld" where
  "count_rx d n = upd_stats d (\<lambda>s. s\<lparr>rx_packets := rx_packets s + 1, rx_bytes := rx_bytes s + of_int n\<rparr>)"

definition count_drop :: "sdev \<Rightarrow> sworld \<Rightarrow> sworld" where
  "count_drop d = upd_stats d (\<lambda>s. s\<lparr>rx_dropped := rx_dropped s + 1\<rparr>)"

definition snull_rx :: "snull_env \<Rightarrow> sdev \<Rightarrow> nat \<Rightarrow> sworld \<Rightarrow> sworld res" where
  "snull_rx E d a w =
     rbind (pkt_at w a) (\<lambda>pk.
       let (ok, w) = alloc_skb E w in
       if \<not> ok then Inr (count_drop d w)
       else rbind (pkt_payload pk) (\<lambda>bs.
              Inr (pass_up E d bs True (count_rx d (datalen pk) w))))"

fun snull_poll_loop :: "snull_env \<Rightarrow> sdev \<Rightarrow> int \<Rightarrow> nat \<Rightarrow> int \<Rightarrow> sworld \<Rightarrow> (int \<times> sworld) res" where
  "snull_poll_loop E d budget 0 npackets w = Inl OutOfFuel"
| "snull_poll_loop E d budget (Suc fuel) npackets w =
     (if \<not> (npackets < budget \<and> rx_queue (pr w d) \<noteq> None) then Inr (npackets, w)
      else
        rbind (snull_dequeue_buf d w) (\<lambda>(ptr, w).
        rbind (deref ptr) (\<lambda>a.
        rbind (pkt_at w a) (\<lambda>pk.
          let (ok, w) = alloc_skb E w in
          if \<not> ok then
            rbind (snull_release_buffer a (count_drop d w)) (\<lambda>w.
              snull_poll_loop E d budget fuel npackets w)
          else
            rbind (pkt_payload pk) (\<lambda>bs.
            rbind (snull_release_buffer a (count_rx d (datalen pk) (pass_up E d bs False w))) (\<lambda>w.
              snull_poll_loop E d budget fuel (npackets + 1) w))))))"

definition snull_poll :: "snull_env \<Rightarrow> nat \<Rightarrow> sdev \<Rightarrow> int \<Rightarrow> sworld \<Rightarrow> (int \<times> sworld) res" where
  "snull_poll E fuel d budget w =
     rbind (snull_poll_loop E d budget fuel 0 w) (\<lambda>(npackets, w).
       if npackets < budget
       then Inr (npackets, snull_rx_ints d 1 (upd_priv d (\<lambda>p. p\<lparr>napi_scheduled := False\<rparr>) w))
       else Inr (npackets, w))"

section \<open>Interrupts\<close>

definition snull_kfree_skb :: "nat option \<Rightarrow> sworld \<Rightarrow> sworld res" where
  "snull_kfree_skb p w =
     (case p of
        None \<Rightarrow> Inr w
      | Some i \<Rightarrow>
          if skbs w i = None then Inl DoubleFree
          else Inr (w\<lparr>skbs := (skbs w)(i := None), slog := slog w @ [KfreeSkb i]\<rparr>))"

definition tx_done :: "sdev \<Rightarrow> sworld \<Rightarrow> sworld res" where
  "tx_done d w =
     (let w = upd_stats d (\<lambda>s. s\<lparr>tx_packets := tx_packets s + 1,
                tx_bytes := tx_bytes s + of_int (tx_packetlen (pr w d))\<rparr>) w
      in snull_kfree_skb (priv_skb (pr w d)) w)"

datatype irqreturn = IRQ_NONE | IRQ_HANDLED

definition snull_regular_interrupt :: "snull_env \<Rightarrow> sdev option \<Rightarrow> sworld \<Rightarrow> (irqreturn \<times> sworld) res" where
  "snull_regular_interrupt E dev_id w =
     (case dev_id of
        None \<Rightarrow> Inr (IRQ_NONE, w)
      | Some d \<Rightarrow>
          rbind (spin_lock d w) (\<lambda>w.
            let statusword = status (pr w d);
                w = upd_priv d (\<lambda>p. p\<lparr>status := 0\<rparr>) w in
            rbind (if statusword AND SNULL_RX_INTR \<noteq> 0 then
                     (case rx_queue (pr w d) of
                        None \<Rightarrow> Inr (None, w)
                      | Some a \<Rightarrow>
                          rbind (pkt_at w a) (\<lambda>pk.
                          rbind (snull_rx E d a (upd_priv d (\<lambda>p. p\<lparr>rx_queue := pkt_next pk\<rparr>) w)) (\<lambda>w.
                            Inr (Some a, w))))
                   else Inr (None, w)) (\<lambda>(pkt, w).
            rbind (if statusword AND SNULL_TX_INTR \<noteq> 0 then tx_done d w else Inr w) (\<lambda>w.
              let w = spin_unlock d w in
              case pkt of
                None \<Rightarrow> Inr (IRQ_HANDLED, w)
              | Some a \<Rightarrow> rbind (snull_release_buffer a w) (\<lambda>w. Inr (IRQ_HANDLED, w))))))"

text \<open>\<open>napi_schedule\<close> has no effect on an instance that is not enabled.\<close>

definition napi_schedule :: "sdev \<Rightarrow> sworld \<Rightarrow> sworld" where
  "napi_schedule d w = upd_priv d (\<lambda>p. p\<lparr>napi_scheduled := napi_scheduled p \<or> napi_enabled p\<rparr>) w"

definition snull_napi_interrupt :: "snull_env \<Rightarrow> sdev option \<Rightarrow> sworld \<Rightarrow> (irqreturn \<times> sworld) res" where
  "snull_napi_interrupt E dev_id w =
     (case dev_id of
        None \<Rightarrow> Inr (IRQ_NONE, w)
      | Some d \<Rightarrow>
          rbind (spin_lock d w) (\<lambda>w.
            let statusword = status (pr w d);
                w = upd_priv d (\<lambda>p. p\<lparr>status := 0\<rparr>) w;
                w = (if statusword AND SNULL_RX_INTR \<noteq> 0
                     then napi_schedule d (snull_rx_ints d 0 w) else w) in
            rbind (if statusword AND SNULL_TX_INTR \<noteq> 0 then tx_done d w else Inr w) (\<lambda>w.
              Inr (IRQ_HANDLED, spin_unlock d w))))"

text \<open>The function pointer \<open>snull_interrupt\<close>, set once by \<open>snull_init_module\<close>.\<close>

definition snull_interrupt :: "snull_env \<Rightarrow> sdev option \<Rightarrow> sworld \<Rightarrow> (irqreturn \<times> sworld) res" where
  "snull_interrupt E = (if use_napi E then snull_napi_interrupt E else snull_regular_interrupt E)"

section \<open>Transmission\<close>

text \<open>
  \<open>saddr\<close> is at offset 12 and \<open>daddr\<close> at offset 16 of the IP header, \<open>check\<close> at 10; the
  third octets are flipped and the header checksum is rebuilt over \<open>ihl\<close> words.
\<close>

definition snull_rewrite :: "snull_env \<Rightarrow> bytes \<Rightarrow> bytes res" where
  "snull_rewrite E buf =
     (let ih = ETH_HLEN; s2 = ih + 12 + 2; d2 = ih + 16 + 2;
          buf = buf[s2 := buf ! s2 XOR 1];
          buf = buf[d2 := buf ! d2 XOR 1];
          buf = put (ih + 10) (be16_bytes 0) buf;
          ihl = unat (buf ! ih AND 15)
      in if length buf < ih + 4 * ihl then Inl OutOfBounds
         else Inr (put (ih + 10) (be16_bytes (ip_fast_csum E (slice buf ih (4 * ihl)) ihl)) buf))"

text \<open>
  \<open>alias\<close> is the \<open>sk_buff\<close> whose data \<open>buf\<close> points to, if it is not the padded copy on the stack:
  the address rewriting then happens in the \<open>sk_buff\<close> itself.
\<close>

definition snull_hw_tx :: "snull_env \<Rightarrow> nat option \<Rightarrow> bytes \<Rightarrow> sdev \<Rightarrow> sworld \<Rightarrow> sworld res" where
  "snull_hw_tx E alias buf d w =
     (let len = length buf in
      if len < ETH_HLEN + SIZEOF_IPHDR then Inr w
      else
        rbind (snull_rewrite E buf) (\<lambda>buf.
          let w = (case alias of None \<Rightarrow> w | Some i \<Rightarrow> w\<lparr>skbs := (skbs w)(i \<mapsto> buf)\<rparr>);
              dest = twin d in
          rbind (snull_get_tx_buffer d w) (\<lambda>(a, w).
          rbind (pkt_at w a) (\<lambda>pk.
          rbind (if length (pdata pk) < len then Inl OutOfBounds
                 else Inr (set_pkt a (pk\<lparr>datalen := int len, pdata := put 0 buf (pdata pk)\<rparr>) w)) (\<lambda>w.
          rbind (snull_enqueue_buf dest a w) (\<lambda>w.
          rbind (if rx_int_enabled (pr w dest) \<noteq> 0
                 then rbind (snull_interrupt E (Some dest)
                        (upd_priv dest (\<lambda>p. p\<lparr>status := status p OR SNULL_RX_INTR\<rparr>) w))
                        (\<lambda>(_, w). Inr w)
                 else Inr w) (\<lambda>w.
            let w = upd_priv d (\<lambda>p. p\<lparr>tx_packetlen := int len, tx_packetdata := buf,
                      status := status p OR SNULL_TX_INTR\<rparr>) w in
            if lockup E \<noteq> 0 \<and> (tx_packets (stats (pr w d)) + 1) mod of_int (lockup E) = 0
            then Inr (netif_stop_queue d w)
            else rbind (snull_interrupt E (Some d) w) (\<lambda>(_, w). Inr w))))))))"

definition snull_tx :: "snull_env \<Rightarrow> nat \<Rightarrow> sdev \<Rightarrow> sworld \<Rightarrow> (int \<times> sworld) res" where
  "snull_tx E skb d w =
     (case skbs w skb of
        None \<Rightarrow> Inl UseAfterFree
      | Some data \<Rightarrow>
          let short = length data < ETH_ZLEN;
              buf = (if short then put 0 data (replicate ETH_ZLEN 0) else data);
              w = upd_priv d (\<lambda>p. p\<lparr>priv_skb := Some skb\<rparr>) w in
          rbind (snull_hw_tx E (if short then None else Some skb) buf d w) (\<lambda>w. Inr (0, w)))"

definition snull_tx_timeout :: "snull_env \<Rightarrow> sdev \<Rightarrow> sworld \<Rightarrow> sworld res" where
  "snull_tx_timeout E d w =
     rbind (snull_interrupt E (Some d) (upd_priv d (\<lambda>p. p\<lparr>status := SNULL_TX_INTR\<rparr>) w)) (\<lambda>(_, w).
       Inr (netif_wake_queue d (upd_stats d (\<lambda>s. s\<lparr>tx_errors := tx_errors s + 1\<rparr>) w)))"

definition snull_ioctl :: "sdev \<Rightarrow> int \<Rightarrow> sworld \<Rightarrow> int \<times> sworld" where
  "snull_ioctl d cmd w = (0, w)"

definition snull_get_stats64 :: "sdev \<Rightarrow> sworld \<Rightarrow> net_device_stats" where
  "snull_get_stats64 d w = stats (pr w d)"

section \<open>Link-level headers\<close>

text \<open>
  \<open>h_dest\<close> is at offset 0, \<open>h_source\<close> at 6, \<open>h_proto\<close> at 12. \<open>skb_push\<close> opens \<open>ETH_HLEN\<close> bytes of
  headroom in front of the data; their old contents are the first argument.
\<close>

definition snull_rebuild_header :: "snull_dev \<Rightarrow> bytes \<Rightarrow> (int \<times> bytes) res" where
  "snull_rebuild_header dev eth =
     (if length (dev_addr dev) < addr_len dev \<or> length eth < ETH_ALEN + addr_len dev
         \<or> length eth < ETH_ALEN then Inl OutOfBounds
      else
        let eth = put ETH_ALEN (take (addr_len dev) (dev_addr dev)) eth;
            eth = put 0 (take (addr_len dev) (dev_addr dev)) eth;
            eth = eth[ETH_ALEN - 1 := eth ! (ETH_ALEN - 1) XOR 1]
        in Inr (0, eth))"

definition snull_header ::
  "bytes \<Rightarrow> bytes \<Rightarrow> snull_dev \<Rightarrow> u16 \<Rightarrow> bytes option \<Rightarrow> bytes option \<Rightarrow> (int \<times> bytes) res" where
  "snull_header headroom skb_data dev type daddr saddr =
     (let src = (case saddr of Some a \<Rightarrow> a | None \<Rightarrow> dev_addr dev);
          dst = (case daddr of Some a \<Rightarrow> a | None \<Rightarrow> dev_addr dev);
          n = addr_len dev in
      if length headroom < ETH_HLEN then Inl OutOfBounds
      else if length src < n \<or> length dst < n \<or> ETH_HLEN < ETH_ALEN + n then Inl OutOfBounds
      else
        let eth = drop (length headroom - ETH_HLEN) headroom @ skb_data;
            eth = put 12 (be16_bytes type) eth;
            eth = put ETH_ALEN (take n src) eth;
            eth = put 0 (take n dst) eth;
            eth = eth[ETH_ALEN - 1 := eth ! (ETH_ALEN - 1) XOR 1]
        in Inr (hard_header_len dev, eth))"

section \<open>Load and unload\<close>

definition zero_stats :: net_device_stats where
  "zero_stats = \<lparr>rx_packets = 0, tx_packets = 0, rx_bytes = 0, tx_bytes = 0, tx_errors = 0, rx_dropped = 0\<rparr>"

definition zero_priv :: snull_priv where
  "zero_priv = \<lparr>stats = zero_stats, status = 0, ppool = None, rx_queue = None, rx_int_enabled = 0,
     tx_packetlen = 0, tx_packetdata = [], priv_skb = None, plock = False,
     napi_enabled = False, napi_scheduled = False\<rparr>"

definition snull_init :: "snull_env \<Rightarrow> sdev \<Rightarrow> sworld \<Rightarrow> sworld" where
  "snull_init E d w =
     (let w = upd_dev d (ether_setup E) w;
          w = upd_dev d (\<lambda>x. x\<lparr>watchdog_timeo := timeout E, dev_flags := dev_flags x OR IFF_NOARP,
                min_mtu := 68, max_mtu := 1500\<rparr>) w;
          w = upd_priv d (\<lambda>_. zero_priv) w;
          w = snull_rx_ints d 1 w
      in snull_setup_pool E d w)"

text \<open>
  For each device that was allocated: \<open>netif_napi_del\<close>, \<open>unregister_netdev\<close> (the log says whether
  it was registered), the pool, and the device itself.
\<close>

definition cleanup_dev :: "snull_env \<Rightarrow> nat \<Rightarrow> sdev \<Rightarrow> sworld \<Rightarrow> sworld res" where
  "cleanup_dev E fuel d w =
     (if snull_devs w d then
        let w = (if use_napi E then upd_priv d (\<lambda>p. p\<lparr>napi_scheduled := False\<rparr>) w else w);
            w = w\<lparr>slog := slog w @ [UnregisterNetdev d (registered (devs w d))]\<rparr>;
            w = upd_dev d (\<lambda>x. x\<lparr>registered := False\<rparr>) w
        in rbind (snull_teardown_pool fuel d w) (\<lambda>w. Inr (w\<lparr>slog := slog w @ [FreeNetdev d]\<rparr>))
      else Inr w)"

definition snull_cleanup :: "snull_env \<Rightarrow> nat \<Rightarrow> sworld \<Rightarrow> sworld res" where
  "snull_cleanup E fuel w = rbind (cleanup_dev E fuel SN0 w) (cleanup_dev E fuel SN1)"

text \<open>
  \<open>alloc d\<close>: \<open>alloc_netdev\<close> succeeds for that device (and runs \<open>snull_init\<close>); \<open>reg d\<close>: what
  \<open>register_netdev\<close> returns for it.
\<close>

definition alloc_dev :: "snull_env \<Rightarrow> (sdev \<Rightarrow> bool) \<Rightarrow> sdev \<Rightarrow> sworld \<Rightarrow> sworld" where
  "alloc_dev E alloc d w =
     (let w = w\<lparr>snull_devs := (snull_devs w)(d := alloc d)\<rparr> in
      if alloc d then snull_init E d w else w)"

definition register_dev :: "(sdev \<Rightarrow> int) \<Rightarrow> sdev \<Rightarrow> int \<times> sworld \<Rightarrow> int \<times> sworld" where
  "register_dev reg d s =
     (case s of (ret, w) \<Rightarrow>
        if reg d \<noteq> 0 then (ret, w) else (0, upd_dev d (\<lambda>x. x\<lparr>registered := True\<rparr>) w))"

definition snull_init_module ::
  "snull_env \<Rightarrow> nat \<Rightarrow> (sdev \<Rightarrow> bool) \<Rightarrow> (sdev \<Rightarrow> int) \<Rightarrow> sworld \<Rightarrow> (int \<times> sworld) res" where
  "snull_init_module E fuel alloc reg w =
     (let w = alloc_dev E alloc SN1 (alloc_dev E alloc SN0 w);
          (ret, w) = (if \<not> snull_devs w SN0 \<or> \<not> snull_devs w SN1 then (- ENOMEM, w)
                      else register_dev reg SN1 (register_dev reg SN0 (- ENODEV, w)))
      in if ret \<noteq> 0 then rbind (snull_cleanup E fuel w) (\<lambda>w. Inr (ret, w)) else Inr (ret, w))"

end
