(* ===== verification/Snull_Inv.thy ===== *)
theory Snull_Inv
  imports Snull
begin

unbundle bit_operations_syntax

text \<open>
  The buffers of the snull driver. \<open>lst h p xs\<close> says that the linked list at \<open>p\<close> in the packet store
  \<open>h\<close> consists of the cells \<open>xs\<close>. The locale \<open>buffer_stack\<close> is the interface of a linked list with a
  push and a pop; the free pool and the receive queue of each device are its two
  interpretations. \<open>bufs_inv\<close> is the driver's invariant: the two pools, the two receive queues and the
  buffers in the driver's hands partition the packet store, every buffer in a pool belongs to
  that device, every buffer in a receive queue belongs to the twin and holds at most 1500
  bytes, and no lock is held. Each buffer operation is shown to refine the corresponding list
  operation under it.
\<close>

named_theorems snull_simps

section \<open>Reading the world after an update\<close>

lemma twin_twin [simp]: "twin (twin d) = d"
  by (cases d) simp_all

lemma twin_neq [simp]: "twin d \<noteq> d" "d \<noteq> twin d"
  by (cases d; simp)+

lemma sdev_cases [case_names same twin]:
  obtains "d' = d" | "d' = twin d"
  by (cases d; cases d') auto

lemma all_sdev: "(\<forall>d. P d) \<longleftrightarrow> P d0 \<and> P (twin d0)"
  by (cases d0) (auto, metis sdev.exhaust, metis sdev.exhaust)

lemma devs_upd_dev [snull_simps]: "devs (upd_dev d f w) d' = (if d' = d then f (devs w d) else devs w d')"
  by (simp add: upd_dev_def)

lemma upd_dev_other [snull_simps]:
  "pkts (upd_dev d f w) = pkts w" "skbs (upd_dev d f w) = skbs w" "slog (upd_dev d f w) = slog w"
  "nallocs (upd_dev d f w) = nallocs w" "snull_devs (upd_dev d f w) = snull_devs w"
  by (simp_all add: upd_dev_def)

lemma devs_set_pkt [snull_simps]:
  "devs (set_pkt a pk w) = devs w" "pkts (set_pkt a pk w) = (pkts w)(a \<mapsto> pk)"
  "skbs (set_pkt a pk w) = skbs w" "slog (set_pkt a pk w) = slog w" "nallocs (set_pkt a pk w) = nallocs w"
  by (simp_all add: set_pkt_def)

lemmas world_defs = upd_priv_def upd_stats_def netif_stop_queue_def netif_start_queue_def
  netif_wake_queue_def spin_unlock_def snull_rx_ints_def count_rx_def count_drop_def

lemma pkt_at_Some [simp]: "pkts w a = Some pk \<Longrightarrow> pkt_at w a = Inr pk"
  by (simp add: pkt_at_def)

lemma spin_lock_free [simp]:
  "\<not> plock (pr w d) \<Longrightarrow> spin_lock d w = Inr (upd_priv d (\<lambda>p. p\<lparr>plock := True\<rparr>) w)"
  by (simp add: spin_lock_def)

section \<open>Linked lists in the packet store\<close>

type_synonym pheap = "nat \<Rightarrow> snull_packet option"

primrec lst :: "pheap \<Rightarrow> nat option \<Rightarrow> nat list \<Rightarrow> bool" where
  "lst h p [] \<longleftrightarrow> p = None"
| "lst h p (a # as) \<longleftrightarrow> p = Some a \<and> (\<exists>pk. h a = Some pk \<and> lst h (pkt_next pk) as)"

lemma lst_None [simp]: "lst h None xs \<longleftrightarrow> xs = []"
  by (cases xs) auto

lemma lst_Some: "lst h (Some a) xs \<longleftrightarrow> (\<exists>pk ys. xs = a # ys \<and> h a = Some pk \<and> lst h (pkt_next pk) ys)"
  by (cases xs) auto

lemma lst_upd [simp]: "a \<notin> set xs \<Longrightarrow> lst (h(a \<mapsto> pk)) p xs \<longleftrightarrow> lst h p xs"
  by (induction xs arbitrary: p) auto

lemma lst_del [simp]: "a \<notin> set xs \<Longrightarrow> lst (h(a := None)) p xs \<longleftrightarrow> lst h p xs"
  by (induction xs arbitrary: p) auto

lemma lst_push: "lst h p xs \<Longrightarrow> a \<notin> set xs \<Longrightarrow> pkt_next pk = p \<Longrightarrow> lst (h(a \<mapsto> pk)) (Some a) (a # xs)"
  by simp

lemma lst_unique: "lst h p xs \<Longrightarrow> lst h p ys \<Longrightarrow> xs = ys"
  by (induction xs arbitrary: p ys) (auto simp: lst_Some)

section \<open>The interface of a buffer list\<close>

text \<open>
  \<open>push\<close> and \<open>pop\<close> work on the head pointer \<open>head\<close> of a list in the store \<open>heap\<close>; \<open>ready\<close> is when they may
  be called (its lock is free), \<open>fits\<close> which cells belong on the list.
\<close>

locale buffer_stack =
  fixes heap :: "'w \<Rightarrow> pheap"
    and head :: "'w \<Rightarrow> nat option"
    and ready :: "'w \<Rightarrow> bool"
    and fits :: "snull_packet \<Rightarrow> bool"
    and push :: "nat \<Rightarrow> 'w \<Rightarrow> 'w res"
    and pop :: "'w \<Rightarrow> (nat option \<times> 'w) res"
  assumes push_law: "ready w \<Longrightarrow> heap w a = Some pk \<Longrightarrow> fits pk \<Longrightarrow>
      \<exists>w'. push a w = Inr w' \<and> heap w' = (heap w)(a \<mapsto> pk\<lparr>pkt_next := head w\<rparr>)
         \<and> head w' = Some a \<and> ready w'"
    and pop_law: "ready w \<Longrightarrow> head w = Some a \<Longrightarrow> heap w a = Some pk \<Longrightarrow>
      \<exists>w'. pop w = Inr (Some a, w') \<and> heap w' = heap w \<and> head w' = pkt_next pk \<and> ready w'"
    and fits_next: "fits (pk\<lparr>pkt_next := p\<rparr>) \<longleftrightarrow> fits pk"
begin

fun push_all :: "nat list \<Rightarrow> 'w \<Rightarrow> 'w res" where
  "push_all [] w = Inr w"
| "push_all (a # as) w = rbind (push a w) (push_all as)"

fun pop_n :: "nat \<Rightarrow> 'w \<Rightarrow> (nat option list \<times> 'w) res" where
  "pop_n 0 w = Inr ([], w)"
| "pop_n (Suc n) w = rbind (pop w) (\<lambda>(a, w). rbind (pop_n n w) (\<lambda>(as, w). Inr (a # as, w)))"

lemma push_refines:
  assumes "ready w" "lst (heap w) (head w) xs" "a \<notin> set xs" "heap w a = Some pk" "fits pk"
  shows "\<exists>w'. push a w = Inr w' \<and> lst (heap w') (head w') (a # xs) \<and> ready w'"
  using push_law [OF assms(1,4,5)] assms(2,3) by auto

lemma pop_refines:
  assumes "ready w" "lst (heap w) (head w) (a # xs)"
  shows "\<exists>w'. pop w = Inr (Some a, w') \<and> lst (heap w') (head w') xs \<and> ready w' \<and> heap w' = heap w"
  using pop_law [OF assms(1)] assms(2) by fastforce

lemma push_all_refines:
  "ready w \<Longrightarrow> lst (heap w) (head w) xs \<Longrightarrow> distinct as \<Longrightarrow> set as \<inter> set xs = {} \<Longrightarrow>
   \<forall>a \<in> set as. \<exists>pk. heap w a = Some pk \<and> fits pk \<Longrightarrow>
   \<exists>w'. push_all as w = Inr w' \<and> lst (heap w') (head w') (rev as @ xs) \<and> ready w'"
proof (induction as arbitrary: w xs)
  case (Cons a as)
  then obtain pk where pk: "heap w a = Some pk" "fits pk" by auto
  obtain w1 where w1: "push a w = Inr w1" "heap w1 = (heap w)(a \<mapsto> pk\<lparr>pkt_next := head w\<rparr>)"
      "head w1 = Some a" "ready w1"
    using push_law [OF Cons.prems(1) pk] by blast
  have "lst (heap w1) (head w1) (a # xs)" using w1 Cons.prems by auto
  moreover have "\<forall>b \<in> set as. \<exists>pk. heap w1 b = Some pk \<and> fits pk"
    using Cons.prems(5) w1(2) pk fits_next by auto
  ultimately have "\<exists>w'. push_all as w1 = Inr w' \<and> lst (heap w') (head w') (rev as @ a # xs) \<and> ready w'"
    using Cons.prems w1(4) by (intro Cons.IH) auto
  then show ?case using w1(1) by auto
qed auto

lemma pop_n_refines:
  "ready w \<Longrightarrow> lst (heap w) (head w) (as @ xs) \<Longrightarrow>
   \<exists>w'. pop_n (length as) w = Inr (map Some as, w') \<and> lst (heap w') (head w') xs \<and> ready w'"
proof (induction as arbitrary: w)
  case (Cons a as)
  obtain w1 where w1: "pop w = Inr (Some a, w1)" "lst (heap w1) (head w1) (as @ xs)" "ready w1"
    using pop_refines [OF Cons.prems(1)] Cons.prems(2) by auto
  then show ?case using Cons.IH [OF w1(3,2)] by auto
qed auto

text \<open>Last in, first out.\<close>

lemma push_then_pop:
  assumes "ready w" "lst (heap w) (head w) xs" "distinct as" "set as \<inter> set xs = {}"
    and "\<forall>a \<in> set as. \<exists>pk. heap w a = Some pk \<and> fits pk"
  shows "\<exists>w' w''. push_all as w = Inr w' \<and> pop_n (length as) w' = Inr (map Some (rev as), w'')
    \<and> lst (heap w'') (head w'') xs"
  using push_all_refines [OF assms] pop_n_refines [of _ "rev as" xs] by (metis length_rev)

end

section \<open>Pool and receive queue are buffer lists\<close>

text \<open>A device up to the heads of its two lists and its transmit-queue state.\<close>

definition dcore :: "snull_dev \<Rightarrow> snull_dev" where
  "dcore x = x\<lparr>priv := (priv x)\<lparr>ppool := None, rx_queue := None\<rparr>, queue_stopped := False\<rparr>"

definition pool_pop :: "sdev \<Rightarrow> sworld \<Rightarrow> (nat option \<times> sworld) res" where
  "pool_pop d w = rbind (snull_get_tx_buffer d w) (\<lambda>(a, w). Inr (Some a, w))"

lemma get_tx_buffer_eq:
  assumes "\<not> plock (pr w d)" "ppool (pr w d) = Some a" "pkts w a = Some pk"
  shows "\<exists>w'. snull_get_tx_buffer d w = Inr (a, w') \<and> pkts w' = pkts w \<and> skbs w' = skbs w
    \<and> slog w' = slog w \<and> nallocs w' = nallocs w \<and> pr w' d = (pr w d)\<lparr>ppool := pkt_next pk\<rparr>
    \<and> devs w' (twin d) = devs w (twin d)
    \<and> dcore (devs w' d) = dcore (devs w d)
    \<and> queue_stopped (devs w' d) = (queue_stopped (devs w d) \<or> pkt_next pk = None)"
  using assms
  by (auto simp: snull_get_tx_buffer_def Let_def world_defs snull_simps dcore_def pkt_at_def)

lemma release_buffer_eq:
  assumes "pkts w a = Some pk" "pkt_dev pk = d" "\<not> plock (pr w d)"
  shows "\<exists>w'. snull_release_buffer a w = Inr w'
    \<and> pkts w' = (pkts w)(a \<mapsto> pk\<lparr>pkt_next := ppool (pr w d)\<rparr>)
    \<and> skbs w' = skbs w \<and> slog w' = slog w \<and> nallocs w' = nallocs w
    \<and> pr w' d = (pr w d)\<lparr>ppool := Some a\<rparr> \<and> devs w' (twin d) = devs w (twin d)
    \<and> dcore (devs w' d) = dcore (devs w d)
    \<and> queue_stopped (devs w' d) = (queue_stopped (devs w d) \<and> ppool (pr w d) \<noteq> None)"
  using assms
  by (auto simp: snull_release_buffer_def Let_def world_defs snull_simps dcore_def)

lemma enqueue_buf_eq:
  assumes "pkts w a = Some pk" "\<not> plock (pr w d)"
  shows "\<exists>w'. snull_enqueue_buf d a w = Inr w'
    \<and> pkts w' = (pkts w)(a \<mapsto> pk\<lparr>pkt_next := rx_queue (pr w d)\<rparr>)
    \<and> skbs w' = skbs w \<and> slog w' = slog w \<and> nallocs w' = nallocs w
    \<and> pr w' d = (pr w d)\<lparr>rx_queue := Some a\<rparr> \<and> devs w' (twin d) = devs w (twin d)
    \<and> dcore (devs w' d) = dcore (devs w d)
    \<and> queue_stopped (devs w' d) = queue_stopped (devs w d)"
  using assms
  by (simp add: snull_enqueue_buf_def Let_def world_defs snull_simps dcore_def pkt_at_def)

lemma dequeue_buf_eq:
  assumes "rx_queue (pr w d) = Some a" "pkts w a = Some pk" "\<not> plock (pr w d)"
  shows "\<exists>w'. snull_dequeue_buf d w = Inr (Some a, w') \<and> pkts w' = pkts w
    \<and> skbs w' = skbs w \<and> slog w' = slog w \<and> nallocs w' = nallocs w
    \<and> pr w' d = (pr w d)\<lparr>rx_queue := pkt_next pk\<rparr> \<and> devs w' (twin d) = devs w (twin d)
    \<and> dcore (devs w' d) = dcore (devs w d)
    \<and> queue_stopped (devs w' d) = queue_stopped (devs w d)"
  using assms
  by (simp add: snull_dequeue_buf_def Let_def world_defs snull_simps dcore_def pkt_at_def)

interpretation pool: buffer_stack pkts "\<lambda>w. ppool (pr w d)" "\<lambda>w. \<not> plock (pr w d)"
  "\<lambda>pk. pkt_dev pk = d" snull_release_buffer "pool_pop d" for d
proof (unfold_locales, goal_cases)
  case (1 w a pk)
  then show ?case using release_buffer_eq [of w a pk d] by auto
next
  case (2 w a pk)
  then show ?case using get_tx_buffer_eq [of w d a pk] by (auto simp: pool_pop_def)
qed simp

interpretation rxq: buffer_stack pkts "\<lambda>w. rx_queue (pr w d)" "\<lambda>w. \<not> plock (pr w d)"
  "\<lambda>pk. True" "snull_enqueue_buf d" "snull_dequeue_buf d" for d
proof (unfold_locales, goal_cases)
  case (1 w a pk)
  then show ?case using enqueue_buf_eq [of w a pk d] by auto
next
  case (2 w a pk)
  then show ?case using dequeue_buf_eq [of w d a pk] by auto
qed simp

section \<open>The invariant\<close>

text \<open>\<open>L\<close> is the device whose lock is held, if any; \<open>hand\<close> are the buffers on neither list.\<close>

definition all_bufs :: "(sdev \<Rightarrow> nat list) \<Rightarrow> (sdev \<Rightarrow> nat list) \<Rightarrow> nat list \<Rightarrow> sdev \<Rightarrow> nat list" where
  "all_bufs pool rxq hand d = pool d @ pool (twin d) @ rxq d @ rxq (twin d) @ hand"

definition bufs_inv ::
  "sdev option \<Rightarrow> (sdev \<Rightarrow> nat list) \<Rightarrow> (sdev \<Rightarrow> nat list) \<Rightarrow> nat list \<Rightarrow> sworld \<Rightarrow> bool" where
  "bufs_inv L pool rxq hand w \<longleftrightarrow>
     (\<forall>d. lst (pkts w) (ppool (pr w d)) (pool d) \<and> lst (pkts w) (rx_queue (pr w d)) (rxq d)
          \<and> (plock (pr w d) \<longleftrightarrow> L = Some d))
     \<and> distinct (all_bufs pool rxq hand SN0) \<and> dom (pkts w) = set (all_bufs pool rxq hand SN0)
     \<and> (\<forall>d. \<forall>a \<in> set (pool d). \<forall>pk. pkts w a = Some pk \<longrightarrow> pkt_dev pk = d)
     \<and> (\<forall>d. \<forall>a \<in> set (rxq d). \<forall>pk. pkts w a = Some pk \<longrightarrow>
            pkt_dev pk = twin d \<and> 0 \<le> datalen pk \<and> datalen pk \<le> int ETH_DATA_LEN)
     \<and> (\<forall>a pk. pkts w a = Some pk \<longrightarrow> length (pdata pk) = ETH_DATA_LEN)"

lemma all_bufs_sym:
  "distinct (all_bufs pool rxq hand d) \<longleftrightarrow> distinct (all_bufs pool rxq hand SN0)"
  "set (all_bufs pool rxq hand d) = set (all_bufs pool rxq hand SN0)"
  by (cases d; auto simp: all_bufs_def)+

lemma bufs_inv_cong:
  assumes "bufs_inv L pool rxq hand w" "pkts w' = pkts w"
    and "\<And>d. ppool (pr w' d) = ppool (pr w d) \<and> rx_queue (pr w' d) = rx_queue (pr w d)
            \<and> (plock (pr w' d) \<longleftrightarrow> L' = Some d)"
  shows "bufs_inv L' pool rxq hand w'"
  using assms by (simp add: bufs_inv_def)

lemma bufs_inv_upd_dev:
  assumes "bufs_inv L pool rxq hand w" "\<And>x. priv (f x) = priv x"
  shows "bufs_inv L pool rxq hand (upd_dev d f w)"
  using assms by (auto simp: bufs_inv_def snull_simps split: if_splits)

lemma bufs_inv_upd_priv:
  assumes "bufs_inv L pool rxq hand w"
    and "\<And>p. ppool (f p) = ppool p \<and> rx_queue (f p) = rx_queue p \<and> plock (f p) = plock p"
  shows "bufs_inv L pool rxq hand (upd_priv d f w)"
  by (rule bufs_inv_cong [OF assms(1)])
     (use assms in \<open>auto simp: bufs_inv_def upd_priv_def snull_simps\<close>)

lemma bufs_inv_other:
  "bufs_inv L pool rxq hand (w\<lparr>slog := l\<rparr>) = bufs_inv L pool rxq hand w"
  "bufs_inv L pool rxq hand (w\<lparr>nallocs := n\<rparr>) = bufs_inv L pool rxq hand w"
  "bufs_inv L pool rxq hand (w\<lparr>skbs := sk\<rparr>) = bufs_inv L pool rxq hand w"
  by (simp_all add: bufs_inv_def)

lemma bufs_inv_lock:
  assumes "bufs_inv None pool rxq hand w"
  shows "spin_lock d w = Inr (upd_priv d (\<lambda>p. p\<lparr>plock := True\<rparr>) w)
    \<and> bufs_inv (Some d) pool rxq hand (upd_priv d (\<lambda>p. p\<lparr>plock := True\<rparr>) w)"
proof
  show "spin_lock d w = Inr (upd_priv d (\<lambda>p. p\<lparr>plock := True\<rparr>) w)"
    using assms by (simp add: bufs_inv_def)
  show "bufs_inv (Some d) pool rxq hand (upd_priv d (\<lambda>p. p\<lparr>plock := True\<rparr>) w)"
    by (rule bufs_inv_cong [OF assms]) (use assms in \<open>auto simp: bufs_inv_def upd_priv_def snull_simps\<close>)
qed

lemma bufs_inv_unlock:
  assumes "bufs_inv (Some d) pool rxq hand w"
  shows "bufs_inv None pool rxq hand (spin_unlock d w)"
  by (rule bufs_inv_cong [OF assms])
     (use assms in \<open>auto simp: bufs_inv_def spin_unlock_def upd_priv_def snull_simps\<close>)

text \<open>Rewriting the cell of a buffer in hand, leaving its owner alone.\<close>

lemma bufs_inv_fill:
  assumes "bufs_inv L pool rxq (a # hand) w" "length (pdata pk) = ETH_DATA_LEN"
  shows "bufs_inv L pool rxq (a # hand) (set_pkt a pk w)"
proof -
  have "a \<notin> set (pool d)" "a \<notin> set (rxq d)" for d
    using assms(1) all_bufs_sym(1) [of pool rxq "a # hand" d] by (auto simp: bufs_inv_def all_bufs_def)
  then show ?thesis using assms by (auto simp: bufs_inv_def snull_simps all_bufs_def)
qed

section \<open>Buffer operations as list operations\<close>

lemma bufs_inv_pop_pool:
  assumes inv: "bufs_inv L pool rxq hand w" and d: "pool d = a # as"
    and w': "pkts w' = pkts w" "ppool (pr w' d) = pkt_next (the (pkts w a))"
      "ppool (pr w' (twin d)) = ppool (pr w (twin d))"
      "\<And>d. rx_queue (pr w' d) = rx_queue (pr w d) \<and> plock (pr w' d) = plock (pr w d)"
  shows "bufs_inv L (pool(d := as)) rxq (a # hand) w'"
proof -
  have "lst (pkts w) (ppool (pr w d)) (a # as)" using inv d by (metis bufs_inv_def)
  then have l: "lst (pkts w') (ppool (pr w' d)) as" using w' by auto
  have "lst (pkts w') (ppool (pr w' d')) ((pool(d := as)) d')" for d'
    using inv l w' by (cases d; cases d') (auto simp: bufs_inv_def)
  moreover have "distinct (all_bufs (pool(d := as)) rxq (a # hand) SN0)"
    and "set (all_bufs (pool(d := as)) rxq (a # hand) SN0) = set (all_bufs pool rxq hand SN0)"
    using inv d unfolding bufs_inv_def by (cases d; auto simp: all_bufs_def)+
  moreover have "x \<in> set as \<Longrightarrow> pkts w x = Some pk \<Longrightarrow> pkt_dev pk = d" for x pk
    using inv d unfolding bufs_inv_def by (metis list.set_intros(2))
  ultimately show ?thesis using inv w' by (auto simp: bufs_inv_def)
qed

lemma bufs_inv_pop_rxq:
  assumes inv: "bufs_inv L pool rxq hand w" and d: "rxq d = a # as"
    and w': "pkts w' = pkts w" "rx_queue (pr w' d) = pkt_next (the (pkts w a))"
      "rx_queue (pr w' (twin d)) = rx_queue (pr w (twin d))"
      "\<And>d. ppool (pr w' d) = ppool (pr w d) \<and> plock (pr w' d) = plock (pr w d)"
  shows "bufs_inv L pool (rxq(d := as)) (a # hand) w'"
proof -
  have "lst (pkts w) (rx_queue (pr w d)) (a # as)" using inv d by (metis bufs_inv_def)
  then have l: "lst (pkts w') (rx_queue (pr w' d)) as" using w' by auto
  have "lst (pkts w') (rx_queue (pr w' d')) ((rxq(d := as)) d')" for d'
    using inv l w' by (cases d; cases d') (auto simp: bufs_inv_def)
  moreover have "distinct (all_bufs pool (rxq(d := as)) (a # hand) SN0)"
    and "set (all_bufs pool (rxq(d := as)) (a # hand) SN0) = set (all_bufs pool rxq hand SN0)"
    using inv d unfolding bufs_inv_def by (cases d; auto simp: all_bufs_def)+
  moreover have "x \<in> set as \<Longrightarrow> pkts w x = Some pk \<Longrightarrow>
      pkt_dev pk = twin d \<and> 0 \<le> datalen pk \<and> datalen pk \<le> int ETH_DATA_LEN" for x pk
    using inv d unfolding bufs_inv_def by (metis list.set_intros(2))
  ultimately show ?thesis using inv w' by (auto simp: bufs_inv_def)
qed

lemma bufs_inv_hand:
  assumes "bufs_inv L pool rxq (a # hand) w"
  shows "a \<notin> set (pool d)" "a \<notin> set (rxq d)" "\<exists>pk. pkts w a = Some pk \<and> length (pdata pk) = ETH_DATA_LEN"
proof -
  show "a \<notin> set (pool d)" "a \<notin> set (rxq d)"
    using assms all_bufs_sym(1) [of pool rxq "a # hand" d] by (auto simp: bufs_inv_def all_bufs_def)
  have "a \<in> dom (pkts w)" using assms by (simp add: bufs_inv_def all_bufs_def)
  then obtain pk where "pkts w a = Some pk" by blast
  then show "\<exists>pk. pkts w a = Some pk \<and> length (pdata pk) = ETH_DATA_LEN"
    using assms unfolding bufs_inv_def by blast
qed

lemma bufs_inv_push_pool:
  assumes inv: "bufs_inv L pool rxq (a # hand) w" and pk: "pkts w a = Some pk" "pkt_dev pk = d"
    and w': "pkts w' = (pkts w)(a \<mapsto> pk\<lparr>pkt_next := ppool (pr w d)\<rparr>)" "ppool (pr w' d) = Some a"
      "ppool (pr w' (twin d)) = ppool (pr w (twin d))"
      "\<And>d. rx_queue (pr w' d) = rx_queue (pr w d) \<and> plock (pr w' d) = plock (pr w d)"
  shows "bufs_inv L (pool(d := a # pool d)) rxq hand w'"
proof -
  note h = bufs_inv_hand [OF inv]
  have "lst (pkts w') (ppool (pr w' d')) ((pool(d := a # pool d)) d')" for d'
    using inv h w' by (cases d; cases d') (auto simp: bufs_inv_def)
  moreover have "lst (pkts w') (rx_queue (pr w' d')) (rxq d')" for d'
    using inv h w' by (auto simp: bufs_inv_def)
  moreover have "distinct (all_bufs (pool(d := a # pool d)) rxq hand SN0)"
    and "set (all_bufs (pool(d := a # pool d)) rxq hand SN0) = set (all_bufs pool rxq (a # hand) SN0)"
    using inv unfolding bufs_inv_def by (cases d; auto simp: all_bufs_def)+
  moreover have "dom (pkts w') = dom (pkts w)" using w'(1) pk by auto
  moreover have "pkts w' x = Some q \<Longrightarrow> length (pdata q) = ETH_DATA_LEN" for x q
    using inv w'(1) pk by (auto simp: bufs_inv_def split: if_splits)
  moreover have "x \<in> set (rxq d') \<Longrightarrow> pkts w' x = pkts w x" for x d'
    using h(2) w'(1) by auto
  moreover have "x \<in> set (pool d') \<Longrightarrow> pkts w' x = pkts w x" for x d'
    using h(1) w'(1) by auto
  ultimately show ?thesis using inv w' pk by (auto simp: bufs_inv_def split: if_splits)
qed

lemma bufs_inv_push_rxq:
  assumes inv: "bufs_inv L pool rxq (a # hand) w" and pk: "pkts w a = Some pk" "pkt_dev pk = twin d"
      "0 \<le> datalen pk" "datalen pk \<le> int ETH_DATA_LEN"
    and w': "pkts w' = (pkts w)(a \<mapsto> pk\<lparr>pkt_next := rx_queue (pr w d)\<rparr>)" "rx_queue (pr w' d) = Some a"
      "rx_queue (pr w' (twin d)) = rx_queue (pr w (twin d))"
      "\<And>d. ppool (pr w' d) = ppool (pr w d) \<and> plock (pr w' d) = plock (pr w d)"
  shows "bufs_inv L pool (rxq(d := a # rxq d)) hand w'"
proof -
  note h = bufs_inv_hand [OF inv]
  have "lst (pkts w') (rx_queue (pr w' d')) ((rxq(d := a # rxq d)) d')" for d'
    using inv h w' by (cases d; cases d') (auto simp: bufs_inv_def)
  moreover have "lst (pkts w') (ppool (pr w' d')) (pool d')" for d'
    using inv h w' by (auto simp: bufs_inv_def)
  moreover have "distinct (all_bufs pool (rxq(d := a # rxq d)) hand SN0)"
    and "set (all_bufs pool (rxq(d := a # rxq d)) hand SN0) = set (all_bufs pool rxq (a # hand) SN0)"
    using inv unfolding bufs_inv_def by (cases d; auto simp: all_bufs_def)+
  moreover have "dom (pkts w') = dom (pkts w)" using w'(1) pk by auto
  moreover have "pkts w' x = Some q \<Longrightarrow> length (pdata q) = ETH_DATA_LEN" for x q
    using inv w'(1) pk by (auto simp: bufs_inv_def split: if_splits)
  moreover have "x \<in> set (rxq d') \<Longrightarrow> pkts w' x = pkts w x" for x d'
    using h(2) w'(1) by auto
  moreover have "x \<in> set (pool d') \<Longrightarrow> pkts w' x = pkts w x" for x d'
    using h(1) w'(1) by auto
  ultimately show ?thesis using inv w' pk by (auto simp: bufs_inv_def split: if_splits)
qed

lemma bufs_inv_free: "bufs_inv None pool rxq hand w \<Longrightarrow> \<not> plock (pr w d)"
  by (simp add: bufs_inv_def)

lemma bufs_inv_cell:
  assumes "bufs_inv L pool rxq hand w" "a \<in> set (pool d) \<union> set (rxq d)"
  shows "\<exists>pk. pkts w a = Some pk \<and> length (pdata pk) = ETH_DATA_LEN"
proof -
  have "a \<in> dom (pkts w)"
    using assms unfolding bufs_inv_def all_bufs_def by (cases d) auto
  then obtain pk where "pkts w a = Some pk" by blast
  then show ?thesis using assms(1) unfolding bufs_inv_def by blast
qed

text \<open>What an operation on device \<open>d\<close> may change besides the two list heads and \<open>queue_stopped\<close>: nothing.\<close>

definition same_rest :: "sdev \<Rightarrow> sworld \<Rightarrow> sworld \<Rightarrow> bool" where
  "same_rest d w w' \<longleftrightarrow> skbs w' = skbs w \<and> slog w' = slog w \<and> nallocs w' = nallocs w
     \<and> devs w' (twin d) = devs w (twin d) \<and> dcore (devs w' d) = dcore (devs w d)"

text \<open>The owner of every buffer; no operation after the pool is set up changes it.\<close>

definition owner :: "sworld \<Rightarrow> nat \<Rightarrow> sdev option" where
  "owner w a = map_option pkt_dev (pkts w a)"

lemma owner_cong: "pkts w' = pkts w \<Longrightarrow> owner w' = owner w"
  by (simp add: owner_def fun_eq_iff)

lemma owner_upd:
  "pkts w a = Some pk \<Longrightarrow> pkts w' = (pkts w)(a \<mapsto> pk') \<Longrightarrow> pkt_dev pk' = pkt_dev pk \<Longrightarrow> owner w' = owner w"
  by (auto simp: owner_def fun_eq_iff)

lemma both_devs: "P d \<Longrightarrow> P (twin d) \<Longrightarrow> P d'"
  by (cases d; cases d') simp_all

lemma get_tx_buffer_inv:
  assumes inv: "bufs_inv None pool rxq hand w" and d: "pool d = a # as"
  shows "\<exists>w'. snull_get_tx_buffer d w = Inr (a, w') \<and> bufs_inv None (pool(d := as)) rxq (a # hand) w'
    \<and> same_rest d w w' \<and> pkts w' = pkts w
    \<and> queue_stopped (devs w' d) = (queue_stopped (devs w d) \<or> as = [])"
proof -
  have "lst (pkts w) (ppool (pr w d)) (a # as)" using inv d by (metis bufs_inv_def)
  then obtain pk where pk: "ppool (pr w d) = Some a" "pkts w a = Some pk" "lst (pkts w) (pkt_next pk) as"
    by auto
  obtain w' where w': "snull_get_tx_buffer d w = Inr (a, w')" "pkts w' = pkts w" "skbs w' = skbs w"
      "slog w' = slog w" "nallocs w' = nallocs w" "pr w' d = (pr w d)\<lparr>ppool := pkt_next pk\<rparr>"
      "devs w' (twin d) = devs w (twin d)" "dcore (devs w' d) = dcore (devs w d)"
      "queue_stopped (devs w' d) = (queue_stopped (devs w d) \<or> pkt_next pk = None)"
    using get_tx_buffer_eq [OF bufs_inv_free [OF inv] pk(1,2)]
    by (elim exE conjE) (rule that; assumption)
  have r: "rx_queue (pr w' d') = rx_queue (pr w d') \<and> plock (pr w' d') = plock (pr w d')" for d'
    by (rule both_devs [of _ d]) (simp_all add: w')
  have "bufs_inv None (pool(d := as)) rxq (a # hand) w'"
    by (rule bufs_inv_pop_pool [OF inv d]) (simp_all add: w' pk r)
  moreover have "pkt_next pk = None \<longleftrightarrow> as = []" using pk(3) by (cases as) auto
  moreover have "same_rest d w w'"
    by (simp add: same_rest_def w')
  ultimately show ?thesis using w' by simp
qed

lemma release_buffer_inv:
  assumes inv: "bufs_inv None pool rxq (a # hand) w" and pk: "pkts w a = Some pk" "pkt_dev pk = d"
  shows "\<exists>w'. snull_release_buffer a w = Inr w' \<and> bufs_inv None (pool(d := a # pool d)) rxq hand w'
    \<and> same_rest d w w' \<and> owner w' = owner w
    \<and> pkts w' = (pkts w)(a \<mapsto> pk\<lparr>pkt_next := ppool (pr w d)\<rparr>)
    \<and> queue_stopped (devs w' d) = (queue_stopped (devs w d) \<and> pool d \<noteq> [])"
proof -
  obtain w' where w': "snull_release_buffer a w = Inr w'"
      "pkts w' = (pkts w)(a \<mapsto> pk\<lparr>pkt_next := ppool (pr w d)\<rparr>)" "skbs w' = skbs w"
      "slog w' = slog w" "nallocs w' = nallocs w" "pr w' d = (pr w d)\<lparr>ppool := Some a\<rparr>"
      "devs w' (twin d) = devs w (twin d)" "dcore (devs w' d) = dcore (devs w d)"
      "queue_stopped (devs w' d) = (queue_stopped (devs w d) \<and> ppool (pr w d) \<noteq> None)"
    using release_buffer_eq [OF pk bufs_inv_free [OF inv]]
    by (elim exE conjE) (rule that; assumption)
  have r: "rx_queue (pr w' d') = rx_queue (pr w d') \<and> plock (pr w' d') = plock (pr w d')" for d'
    by (rule both_devs [of _ d]) (simp_all add: w')
  have "bufs_inv None (pool(d := a # pool d)) rxq hand w'"
    by (rule bufs_inv_push_pool [OF inv pk]) (simp_all add: w' r)
  moreover have "lst (pkts w) (ppool (pr w d)) (pool d)" using inv by (simp add: bufs_inv_def)
  then have "ppool (pr w d) = None \<longleftrightarrow> pool d = []" by (cases "pool d") auto
  moreover have "same_rest d w w'"
    by (simp add: same_rest_def w')
  moreover have "owner w' = owner w" by (rule owner_upd [OF pk(1) w'(2)]) simp
  ultimately show ?thesis using w' by simp
qed

lemma enqueue_buf_inv:
  assumes inv: "bufs_inv None pool rxq (a # hand) w" and pk: "pkts w a = Some pk" "pkt_dev pk = twin d"
    "0 \<le> datalen pk" "datalen pk \<le> int ETH_DATA_LEN"
  shows "\<exists>w'. snull_enqueue_buf d a w = Inr w' \<and> bufs_inv None pool (rxq(d := a # rxq d)) hand w'
    \<and> same_rest d w w' \<and> owner w' = owner w
    \<and> pkts w' = (pkts w)(a \<mapsto> pk\<lparr>pkt_next := rx_queue (pr w d)\<rparr>)
    \<and> queue_stopped (devs w' d) = queue_stopped (devs w d)"
proof -
  obtain w' where w': "snull_enqueue_buf d a w = Inr w'"
      "pkts w' = (pkts w)(a \<mapsto> pk\<lparr>pkt_next := rx_queue (pr w d)\<rparr>)" "skbs w' = skbs w"
      "slog w' = slog w" "nallocs w' = nallocs w" "pr w' d = (pr w d)\<lparr>rx_queue := Some a\<rparr>"
      "devs w' (twin d) = devs w (twin d)" "dcore (devs w' d) = dcore (devs w d)"
      "queue_stopped (devs w' d) = queue_stopped (devs w d)"
    using enqueue_buf_eq [OF pk(1) bufs_inv_free [OF inv, of d]]
    by (elim exE conjE) (rule that; assumption)
  have r: "ppool (pr w' d') = ppool (pr w d') \<and> plock (pr w' d') = plock (pr w d')" for d'
    by (rule both_devs [of _ d]) (simp_all add: w')
  have "bufs_inv None pool (rxq(d := a # rxq d)) hand w'"
    by (rule bufs_inv_push_rxq [OF inv pk]) (simp_all add: w' r)
  moreover have "same_rest d w w'"
    by (simp add: same_rest_def w')
  moreover have "owner w' = owner w" by (rule owner_upd [OF pk(1) w'(2)]) simp
  ultimately show ?thesis using w' by simp
qed

lemma dequeue_buf_inv:
  assumes inv: "bufs_inv None pool rxq hand w" and d: "rxq d = a # as"
  shows "\<exists>w'. snull_dequeue_buf d w = Inr (Some a, w') \<and> bufs_inv None pool (rxq(d := as)) (a # hand) w'
    \<and> same_rest d w w' \<and> pkts w' = pkts w \<and> queue_stopped (devs w' d) = queue_stopped (devs w d)"
proof -
  have "lst (pkts w) (rx_queue (pr w d)) (a # as)" using inv d by (metis bufs_inv_def)
  then obtain pk where pk: "rx_queue (pr w d) = Some a" "pkts w a = Some pk" by auto
  obtain w' where w': "snull_dequeue_buf d w = Inr (Some a, w')" "pkts w' = pkts w" "skbs w' = skbs w"
      "slog w' = slog w" "nallocs w' = nallocs w" "pr w' d = (pr w d)\<lparr>rx_queue := pkt_next pk\<rparr>"
      "devs w' (twin d) = devs w (twin d)" "dcore (devs w' d) = dcore (devs w d)"
      "queue_stopped (devs w' d) = queue_stopped (devs w d)"
    using dequeue_buf_eq [OF pk bufs_inv_free [OF inv]]
    by (elim exE conjE) (rule that; assumption)
  have r: "ppool (pr w' d') = ppool (pr w d') \<and> plock (pr w' d') = plock (pr w d')" for d'
    by (rule both_devs [of _ d]) (simp_all add: w')
  have "bufs_inv None pool (rxq(d := as)) (a # hand) w'"
    by (rule bufs_inv_pop_rxq [OF inv d]) (simp_all add: w' pk r)
  moreover have "same_rest d w w'"
    by (simp add: same_rest_def w')
  ultimately show ?thesis using w' by simp
qed

lemma get_tx_buffer_empty:
  assumes "bufs_inv None pool rxq hand w" "pool d = []"
  shows "snull_get_tx_buffer d w = Inl NullDeref"
proof -
  have "lst (pkts w) (ppool (pr w d)) []" using assms by (metis bufs_inv_def)
  then have "ppool (pr w d) = None" by simp
  then show ?thesis using bufs_inv_free [OF assms(1), of d]
    by (simp add: snull_get_tx_buffer_def upd_priv_def snull_simps)
qed

section \<open>The handlers preserve the invariant\<close>

lemma bufs_inv_upd_stats: "bufs_inv L pool rxq hand w \<Longrightarrow> bufs_inv L pool rxq hand (upd_stats d f w)"
  unfolding upd_stats_def by (rule bufs_inv_upd_priv) simp_all

lemma bufs_inv_queue:
  assumes "bufs_inv L pool rxq hand w"
  shows "bufs_inv L pool rxq hand (netif_stop_queue d w)" "bufs_inv L pool rxq hand (netif_start_queue d w)"
    "bufs_inv L pool rxq hand (netif_wake_queue d w)"
  unfolding netif_stop_queue_def netif_start_queue_def netif_wake_queue_def
  by (rule bufs_inv_upd_dev [OF assms]; simp)+

lemma owner_other [simp]:
  "owner (upd_dev d f w) = owner w" "owner (upd_priv d g w) = owner w" "owner (upd_stats d h w) = owner w"
  "owner (netif_stop_queue d w) = owner w" "owner (netif_start_queue d w) = owner w"
  "owner (netif_wake_queue d w) = owner w" "owner (spin_unlock d w) = owner w"
  "owner (w\<lparr>slog := l\<rparr>) = owner w" "owner (w\<lparr>nallocs := n\<rparr>) = owner w" "owner (w\<lparr>skbs := sk\<rparr>) = owner w"
  by (rule owner_cong; simp add: world_defs snull_simps)+

lemma snull_rx_inv:
  assumes "bufs_inv L pool rxq hand w" "snull_rx E d a w = Inr w'"
  shows "bufs_inv L pool rxq hand w' \<and> owner w' = owner w"
  using assms
  by (auto simp: snull_rx_def res_simps alloc_skb_def pass_up_def count_rx_def count_drop_def
      bufs_inv_upd_stats bufs_inv_other split: if_splits)

lemma dev_kfree_skb_inv:
  assumes "bufs_inv L pool rxq hand w" "snull_kfree_skb p w = Inr w'"
  shows "bufs_inv L pool rxq hand w' \<and> owner w' = owner w"
proof -
  have "pkts w' = pkts w \<and> devs w' = devs w"
    using assms(2) by (auto simp: snull_kfree_skb_def split: option.splits if_splits)
  then show ?thesis using assms(1) by (simp add: bufs_inv_def owner_def [abs_def])
qed

lemma tx_done_inv:
  assumes "bufs_inv L pool rxq hand w" "tx_done d w = Inr w'"
  shows "bufs_inv L pool rxq hand w' \<and> owner w' = owner w"
  using dev_kfree_skb_inv [OF bufs_inv_upd_stats [OF assms(1)]] assms(2)
  by (fastforce simp: tx_done_def Let_def)

text \<open>The handlers after taking the lock and clearing the status word.\<close>

definition irq_enter :: "sdev \<Rightarrow> sworld \<Rightarrow> sworld" where
  "irq_enter d w = upd_priv d (\<lambda>p. p\<lparr>plock := True, status := 0\<rparr>) w"

definition irq_rx :: "snull_env \<Rightarrow> sdev \<Rightarrow> bool \<Rightarrow> sworld \<Rightarrow> (nat option \<times> sworld) res" where
  "irq_rx E d b w =
     (if b then
        (case rx_queue (pr w d) of
           None \<Rightarrow> Inr (None, w)
         | Some a \<Rightarrow>
             rbind (pkt_at w a) (\<lambda>pk.
             rbind (snull_rx E d a (upd_priv d (\<lambda>p. p\<lparr>rx_queue := pkt_next pk\<rparr>) w)) (\<lambda>w.
               Inr (Some a, w))))
      else Inr (None, w))"

definition irq_tx :: "sdev \<Rightarrow> bool \<Rightarrow> sworld \<Rightarrow> sworld res" where
  "irq_tx d b w = (if b then tx_done d w else Inr w)"

definition irq_exit :: "sdev \<Rightarrow> nat option \<Rightarrow> sworld \<Rightarrow> (irqreturn \<times> sworld) res" where
  "irq_exit d pkt w =
     (case pkt of
        None \<Rightarrow> Inr (IRQ_HANDLED, spin_unlock d w)
      | Some a \<Rightarrow> rbind (snull_release_buffer a (spin_unlock d w)) (\<lambda>w. Inr (IRQ_HANDLED, w)))"

lemma enter_eq:
  "upd_priv d (\<lambda>p. p\<lparr>status := 0\<rparr>) (upd_priv d (\<lambda>p. p\<lparr>plock := True\<rparr>) w) = irq_enter d w"
  by (simp add: irq_enter_def upd_priv_def upd_dev_def)

lemma status_lock: "status (pr (upd_priv d (\<lambda>p. p\<lparr>plock := True\<rparr>) w) d) = status (pr w d)"
  by (simp add: upd_priv_def snull_simps)

lemma regular_interrupt_eq:
  assumes "\<not> plock (pr w d)"
  shows "snull_regular_interrupt E (Some d) w =
     rbind (irq_rx E d (status (pr w d) AND SNULL_RX_INTR \<noteq> 0) (irq_enter d w)) (\<lambda>(pkt, w1).
     rbind (irq_tx d (status (pr w d) AND SNULL_TX_INTR \<noteq> 0) w1) (irq_exit d pkt))"
  by (simp only: snull_regular_interrupt_def option.case spin_lock_free [OF assms] rbind_Inr Let_def enter_eq
      status_lock irq_rx_def irq_tx_def irq_exit_def [abs_def] cong: if_cong)

lemma napi_interrupt_eq:
  assumes "\<not> plock (pr w d)"
  shows "snull_napi_interrupt E (Some d) w =
     rbind (irq_tx d (status (pr w d) AND SNULL_TX_INTR \<noteq> 0)
              (if status (pr w d) AND SNULL_RX_INTR \<noteq> 0
               then napi_schedule d (snull_rx_ints d 0 (irq_enter d w)) else irq_enter d w))
       (\<lambda>w. Inr (IRQ_HANDLED, spin_unlock d w))"
  by (simp only: snull_napi_interrupt_def option.case spin_lock_free [OF assms] rbind_Inr Let_def enter_eq
      status_lock irq_tx_def cong: if_cong)

lemma irq_enter_inv:
  assumes "bufs_inv None pool rxq hand w"
  shows "bufs_inv (Some d) pool rxq hand (irq_enter d w) \<and> owner (irq_enter d w) = owner w"
  unfolding enter_eq [symmetric] using bufs_inv_lock [OF assms, of d]
  by (auto intro!: bufs_inv_upd_priv)

lemma irq_tx_inv:
  assumes "bufs_inv L pool rxq hand w" "irq_tx d b w = Inr w'"
  shows "bufs_inv L pool rxq hand w' \<and> owner w' = owner w"
  using assms tx_done_inv by (cases b) (auto simp: irq_tx_def)

lemma irq_rx_inv:
  assumes inv: "bufs_inv L pool rxq hand w" and run: "irq_rx E d b w = Inr (pkt, w')"
  shows "owner w' = owner w \<and> (case pkt of None \<Rightarrow> w' = w
           | Some a \<Rightarrow> \<exists>as. rxq d = a # as \<and> bufs_inv L pool (rxq(d := as)) (a # hand) w')"
proof (cases pkt)
  case None
  then show ?thesis using run by (auto simp: irq_rx_def res_simps split: if_splits option.splits)
next
  case (Some a)
  then obtain pk where pk: "rx_queue (pr w d) = Some a" "pkts w a = Some pk"
    and rx: "snull_rx E d a (upd_priv d (\<lambda>p. p\<lparr>rx_queue := pkt_next pk\<rparr>) w) = Inr w'"
    using run by (auto simp: irq_rx_def res_simps pkt_at_def split: if_splits option.splits)
  have "lst (pkts w) (rx_queue (pr w d)) (rxq d)" using inv by (simp add: bufs_inv_def)
  then obtain as where as: "rxq d = a # as" using pk by (cases "rxq d") auto
  have "bufs_inv L pool (rxq(d := as)) (a # hand) (upd_priv d (\<lambda>p. p\<lparr>rx_queue := pkt_next pk\<rparr>) w)"
    by (rule bufs_inv_pop_rxq [OF inv as]) (auto simp: upd_priv_def snull_simps pk)
  from snull_rx_inv [OF this rx] show ?thesis using as Some by simp
qed

lemma irq_exit_inv:
  assumes inv: "bufs_inv (Some d) pool rxq (case pkt of None \<Rightarrow> hand | Some a \<Rightarrow> a # hand) w"
    and run: "irq_exit d pkt w = Inr (r, w')"
  shows "\<exists>pool'. bufs_inv None pool' rxq hand w' \<and> owner w' = owner w"
proof (cases pkt)
  case None
  then show ?thesis using assms bufs_inv_unlock by (fastforce simp: irq_exit_def)
next
  case (Some a)
  then have i: "bufs_inv None pool rxq (a # hand) (spin_unlock d w)" using inv bufs_inv_unlock by simp
  then obtain pk where "pkts (spin_unlock d w) a = Some pk" using bufs_inv_hand(3) by blast
  from release_buffer_inv [OF i this refl] obtain w1 where
    "snull_release_buffer a (spin_unlock d w) = Inr w1"
    "bufs_inv None (pool(pkt_dev pk := a # pool (pkt_dev pk))) rxq hand w1" "owner w1 = owner (spin_unlock d w)"
    by (elim exE conjE) (rule that; assumption)
  then show ?thesis using run Some by (simp add: irq_exit_def) blast
qed

lemma regular_interrupt_inv:
  assumes inv: "bufs_inv None pool rxq hand w" and run: "snull_regular_interrupt E (Some d) w = Inr (r, w')"
  shows "\<exists>pool' rxq'. bufs_inv None pool' rxq' hand w' \<and> owner w' = owner w"
proof -
  obtain pkt w1 w2 where s: "irq_rx E d (status (pr w d) AND SNULL_RX_INTR \<noteq> 0) (irq_enter d w) = Inr (pkt, w1)"
      "irq_tx d (status (pr w d) AND SNULL_TX_INTR \<noteq> 0) w1 = Inr w2" "irq_exit d pkt w2 = Inr (r, w')"
    using run unfolding regular_interrupt_eq [OF bufs_inv_free [OF inv]] by (auto simp: rbind_eq_Inr)
  note i0 = irq_enter_inv [OF inv, of d]
  have o1: "owner w1 = owner w" using irq_rx_inv [OF conjunct1 [OF i0] s(1)] i0 by simp
  obtain rxq' where "bufs_inv (Some d) pool rxq' (case pkt of None \<Rightarrow> hand | Some a \<Rightarrow> a # hand) w1"
    using irq_rx_inv [OF conjunct1 [OF i0] s(1)] i0 by (cases pkt) auto
  from irq_tx_inv [OF this s(2)]
  have i2: "bufs_inv (Some d) pool rxq' (case pkt of None \<Rightarrow> hand | Some a \<Rightarrow> a # hand) w2"
    and "owner w2 = owner w" using o1 by auto
  then show ?thesis using irq_exit_inv [OF i2 s(3)] by auto
qed

lemma napi_interrupt_inv:
  assumes inv: "bufs_inv None pool rxq hand w" and run: "snull_napi_interrupt E (Some d) w = Inr (r, w')"
  shows "bufs_inv None pool rxq hand w' \<and> owner w' = owner w"
proof -
  let ?ws = "if status (pr w d) AND SNULL_RX_INTR \<noteq> 0
             then napi_schedule d (snull_rx_ints d 0 (irq_enter d w)) else irq_enter d w"
  have i: "bufs_inv (Some d) pool rxq hand ?ws" and o: "owner ?ws = owner w"
    using irq_enter_inv [OF inv, of d]
    unfolding napi_schedule_def snull_rx_ints_def by (auto intro!: bufs_inv_upd_priv)
  obtain w3 where w3: "irq_tx d (status (pr w d) AND SNULL_TX_INTR \<noteq> 0) ?ws = Inr w3" "w' = spin_unlock d w3"
    using run unfolding napi_interrupt_eq [OF bufs_inv_free [OF inv]] by (auto simp: rbind_eq_Inr)
  then show ?thesis using irq_tx_inv [OF i w3(1)] o bufs_inv_unlock by simp
qed

lemma interrupt_inv:
  assumes "bufs_inv None pool rxq hand w" "snull_interrupt E (Some d) w = Inr (r, w')"
  shows "\<exists>pool' rxq'. bufs_inv None pool' rxq' hand w' \<and> owner w' = owner w"
proof (cases "use_napi E")
  case True
  then show ?thesis using napi_interrupt_inv [OF assms(1)] assms(2) unfolding snull_interrupt_def by (metis (full_types))
next
  case False
  then show ?thesis using regular_interrupt_inv [OF assms(1)] assms(2) unfolding snull_interrupt_def by auto
qed

end
