(* ===== verification/Snull_Steps.thy ===== *)
theory Snull_Steps
  imports Snull_Inv Checksum
begin

unbundle bit_operations_syntax

text \<open>
  The entry points of the snull driver as seen by the kernel: transmission, NAPI polling, the
  transmit watchdog, open, close, MTU and configuration. Each is shown to keep the buffer
  invariant of \<open>Snull_Inv\<close> and the owner of every buffer; \<open>snull_call\<close> is one such call with the
  kernel's part of it, \<open>call_ok\<close> the kernel's side of the contract, and \<open>snull_reach\<close> the states a
  sequence of calls can reach.
\<close>

section \<open>Transmission\<close>

lemma set_pkt_owner [simp]: "pkts w a = Some pk \<Longrightarrow> pkt_dev pk' = pkt_dev pk \<Longrightarrow> owner (set_pkt a pk' w) = owner w"
  by (rule owner_upd [of w a pk _ pk']) (simp_all add: snull_simps)

lemma rewrite_length:
  assumes "snull_rewrite E buf = Inr buf'" "ETH_HLEN + SIZEOF_IPHDR \<le> length buf"
  shows "length buf' = length buf"
  using assms by (auto simp: snull_rewrite_def Let_def split: if_splits)

lemma interrupt_cond_inv:
  assumes "bufs_inv None pool rxq hand w"
    and "(if b then rbind (snull_interrupt E (Some d) (upd_priv d (\<lambda>p. p\<lparr>status := f p\<rparr>) w)) (\<lambda>(_, w). Inr w)
          else Inr w) = Inr w'"
  shows "\<exists>pool' rxq'. bufs_inv None pool' rxq' hand w' \<and> owner w' = owner w"
proof (cases b)
  case True
  then obtain r where run: "snull_interrupt E (Some d) (upd_priv d (\<lambda>p. p\<lparr>status := f p\<rparr>) w) = Inr (r, w')"
    using assms(2) by (auto simp: rbind_eq_Inr)
  have "bufs_inv None pool rxq hand (upd_priv d (\<lambda>p. p\<lparr>status := f p\<rparr>) w)"
    by (rule bufs_inv_upd_priv [OF assms(1)]) simp
  from interrupt_inv [OF this run] show ?thesis by simp
next
  case False
  then show ?thesis using assms by auto
qed

text \<open>\<open>deliver\<close> is the middle of \<open>snull_hw_tx\<close>: take a buffer, fill it, put it on the twin's queue.\<close>

definition deliver :: "sdev \<Rightarrow> bytes \<Rightarrow> sworld \<Rightarrow> sworld res" where
  "deliver d buf w =
     rbind (snull_get_tx_buffer d w) (\<lambda>(a, w).
     rbind (pkt_at w a) (\<lambda>pk.
     rbind (if length (pdata pk) < length buf then Inl OutOfBounds
            else Inr (set_pkt a (pk\<lparr>datalen := int (length buf), pdata := put 0 buf (pdata pk)\<rparr>) w)) (\<lambda>w.
       snull_enqueue_buf (twin d) a w)))"

definition payload :: "snull_packet \<Rightarrow> bytes" where
  "payload pk = take (nat (datalen pk)) (pdata pk)"

lemma deliver_then:
  "rbind (deliver d buf w) f =
     rbind (snull_get_tx_buffer d w) (\<lambda>(a, w).
     rbind (pkt_at w a) (\<lambda>pk.
     rbind (if length (pdata pk) < length buf then Inl OutOfBounds
            else Inr (set_pkt a (pk\<lparr>datalen := int (length buf), pdata := put 0 buf (pdata pk)\<rparr>) w)) (\<lambda>w.
     rbind (snull_enqueue_buf (twin d) a w) f)))"
  by (cases "snull_get_tx_buffer d w") (auto simp: deliver_def rbind_assoc)

lemma deliver_empty: "bufs_inv None pool rxq hand w \<Longrightarrow> pool d = [] \<Longrightarrow> deliver d buf w = Inl NullDeref"
  by (simp add: deliver_def get_tx_buffer_empty)

lemma deliver_get:
  assumes "bufs_inv None pool rxq hand w" "pool d = a # as"
  shows "\<exists>w' pk. snull_get_tx_buffer d w = Inr (a, w') \<and> bufs_inv None (pool(d := as)) rxq (a # hand) w'
    \<and> same_rest d w w' \<and> pkts w' = pkts w \<and> queue_stopped (devs w' d) = (queue_stopped (devs w d) \<or> as = [])
    \<and> pkts w' a = Some pk \<and> length (pdata pk) = ETH_DATA_LEN \<and> pkt_dev pk = d"
proof -
  obtain pk where pk: "pkts w a = Some pk" "length (pdata pk) = ETH_DATA_LEN"
    using bufs_inv_cell [OF assms(1), of a d] assms(2) by auto
  have "pkt_dev pk = d" using assms pk(1) unfolding bufs_inv_def by (metis list.set_intros(1))
  then show ?thesis using get_tx_buffer_inv [OF assms] pk by auto
qed

lemma deliver_too_long:
  assumes "bufs_inv None pool rxq hand w" "ETH_DATA_LEN < length buf" "pool d \<noteq> []"
  shows "deliver d buf w = Inl OutOfBounds"
proof -
  obtain a as where "pool d = a # as" using assms(3) by (cases "pool d") auto
  from deliver_get [OF assms(1) this] show ?thesis using assms(2) by (auto simp: deliver_def)
qed

lemma deliver_ok:
  assumes inv: "bufs_inv None pool rxq hand w" and a: "pool d = a # as" and len: "length buf \<le> ETH_DATA_LEN"
  shows "\<exists>w' pk. deliver d buf w = Inr w'
    \<and> bufs_inv None (pool(d := as)) (rxq(twin d := a # rxq (twin d))) hand w' \<and> owner w' = owner w
    \<and> skbs w' = skbs w \<and> slog w' = slog w \<and> nallocs w' = nallocs w
    \<and> dcore (devs w' d) = dcore (devs w d) \<and> dcore (devs w' (twin d)) = dcore (devs w (twin d))
    \<and> queue_stopped (devs w' d) = (queue_stopped (devs w d) \<or> as = [])
    \<and> queue_stopped (devs w' (twin d)) = queue_stopped (devs w (twin d))
    \<and> pkts w' a = Some pk \<and> pkt_dev pk = d \<and> datalen pk = int (length buf) \<and> payload pk = buf
    \<and> (\<forall>b. b \<noteq> a \<longrightarrow> pkts w' b = pkts w b)"
proof -
  obtain w1 pk where w1: "snull_get_tx_buffer d w = Inr (a, w1)" "bufs_inv None (pool(d := as)) rxq (a # hand) w1"
      "same_rest d w w1" "pkts w1 = pkts w" "queue_stopped (devs w1 d) = (queue_stopped (devs w d) \<or> as = [])"
      "pkts w1 a = Some pk" "length (pdata pk) = ETH_DATA_LEN" "pkt_dev pk = d"
    using deliver_get [OF inv a] by (elim exE conjE) (rule that; assumption)
  let ?pk = "pk\<lparr>datalen := int (length buf), pdata := put 0 buf (pdata pk)\<rparr>"
  let ?w2 = "set_pkt a ?pk w1"
  have i2: "bufs_inv None (pool(d := as)) rxq (a # hand) ?w2"
    by (rule bufs_inv_fill [OF w1(2)]) (use len w1(7) in simp)
  have o2: "owner ?w2 = owner w"
    using set_pkt_owner [of w1 a pk ?pk] w1(6) owner_cong [OF w1(4)] by simp
  have p2: "pkts ?w2 a = Some ?pk" "pkt_dev ?pk = twin (twin d)" "0 \<le> datalen ?pk" "datalen ?pk \<le> int ETH_DATA_LEN"
    using len w1(8) by (simp_all add: snull_simps)
  obtain w' where w': "snull_enqueue_buf (twin d) a ?w2 = Inr w'"
      "bufs_inv None (pool(d := as)) (rxq(twin d := a # rxq (twin d))) hand w'" "same_rest (twin d) ?w2 w'"
      "owner w' = owner ?w2" "pkts w' = (pkts ?w2)(a \<mapsto> ?pk\<lparr>pkt_next := rx_queue (pr ?w2 (twin d))\<rparr>)"
      "queue_stopped (devs w' (twin d)) = queue_stopped (devs ?w2 (twin d))"
    using enqueue_buf_inv [OF i2 p2] by (elim exE conjE) (rule that; assumption)
  have "deliver d buf w = Inr w'" using w1(1,6,7) w'(1) len by (simp add: deliver_def)
  moreover have "payload (?pk\<lparr>pkt_next := rx_queue (pr ?w2 (twin d))\<rparr>) = buf"
    using len w1(7) by (simp add: payload_def put_def)
  ultimately show ?thesis
    using w' w1(3,4,5,8) o2
    by (intro exI [of _ w'] exI [of _ "?pk\<lparr>pkt_next := rx_queue (pr ?w2 (twin d))\<rparr>"] conjI)
       (simp_all add: same_rest_def snull_simps)
qed

lemma deliver_inv:
  assumes "bufs_inv None pool rxq hand w" "deliver d buf w = Inr w'"
  shows "\<exists>pool' rxq'. bufs_inv None pool' rxq' hand w' \<and> owner w' = owner w"
proof (cases "pool d")
  case Nil
  then show ?thesis using assms deliver_empty by fastforce
next
  case (Cons a as)
  then have "length buf \<le> ETH_DATA_LEN"
    using assms(2) deliver_too_long [OF assms(1), of buf d] by (cases "length buf \<le> ETH_DATA_LEN") auto
  from deliver_ok [OF assms(1) Cons this] show ?thesis using assms(2) by auto
qed

text \<open>What \<open>snull_hw_tx\<close> does once the packet is on the twin's queue: the two simulated interrupts.\<close>

definition tx_signal :: "snull_env \<Rightarrow> sdev \<Rightarrow> int \<Rightarrow> bytes \<Rightarrow> sworld \<Rightarrow> sworld res" where
  "tx_signal E d len buf w =
     rbind (if rx_int_enabled (pr w (twin d)) \<noteq> 0
            then rbind (snull_interrupt E (Some (twin d))
                   (upd_priv (twin d) (\<lambda>p. p\<lparr>status := status p OR SNULL_RX_INTR\<rparr>) w))
                   (\<lambda>(_, w). Inr w)
            else Inr w) (\<lambda>w.
       let w = upd_priv d (\<lambda>p. p\<lparr>tx_packetlen := len, tx_packetdata := buf,
                 status := status p OR SNULL_TX_INTR\<rparr>) w in
       if lockup E \<noteq> 0 \<and> (tx_packets (stats (pr w d)) + 1) mod of_int (lockup E) = 0
       then Inr (netif_stop_queue d w)
       else rbind (snull_interrupt E (Some d) w) (\<lambda>(_, w). Inr w))"

lemma hw_tx_eq:
  assumes "\<not> length buf < ETH_HLEN + SIZEOF_IPHDR" "snull_rewrite E buf = Inr buf'"
  shows "snull_hw_tx E alias buf d w =
     rbind (deliver d buf' (case alias of None \<Rightarrow> w | Some i \<Rightarrow> w\<lparr>skbs := (skbs w)(i \<mapsto> buf')\<rparr>))
       (tx_signal E d (int (length buf')) buf')"
  using assms rewrite_length [OF assms(2)]
  by (simp add: snull_hw_tx_def tx_signal_def [abs_def] deliver_then Let_def cong: if_cong)

lemma tx_signal_inv:
  assumes i1: "bufs_inv None pool rxq hand w" and run: "tx_signal E d len buf w = Inr w'"
  shows "\<exists>pool' rxq'. bufs_inv None pool' rxq' hand w' \<and> owner w' = owner w"
proof -
  obtain w2 where w2: "(if rx_int_enabled (pr w (twin d)) \<noteq> 0
                 then rbind (snull_interrupt E (Some (twin d))
                        (upd_priv (twin d) (\<lambda>p. p\<lparr>status := status p OR SNULL_RX_INTR\<rparr>) w))
                        (\<lambda>(_, w). Inr w)
                 else Inr w) = Inr w2"
    and fin: "\<And>w3. w3 = upd_priv d (\<lambda>p. p\<lparr>tx_packetlen := len, tx_packetdata := buf,
                      status := status p OR SNULL_TX_INTR\<rparr>) w2 \<Longrightarrow>
        w' = netif_stop_queue d w3 \<or> (\<exists>r. snull_interrupt E (Some d) w3 = Inr (r, w'))"
    using run unfolding tx_signal_def rbind_eq_Inr Let_def by (auto simp: rbind_eq_Inr split: if_splits)
  obtain pool2 rxq2 where i2: "bufs_inv None pool2 rxq2 hand w2" "owner w2 = owner w"
    using interrupt_cond_inv [OF i1 w2] by auto
  define w3 where "w3 = upd_priv d (\<lambda>p. p\<lparr>tx_packetlen := len, tx_packetdata := buf,
                      status := status p OR SNULL_TX_INTR\<rparr>) w2"
  have i3: "bufs_inv None pool2 rxq2 hand w3" "owner w3 = owner w"
    unfolding w3_def using bufs_inv_upd_priv [OF i2(1)] i2(2) by auto
  show ?thesis using fin [OF w3_def] i3 bufs_inv_queue(1) [OF i3(1)] interrupt_inv [OF i3(1)] by fastforce
qed

lemma hw_tx_inv:
  assumes inv: "bufs_inv None pool rxq hand w" and run: "snull_hw_tx E alias buf d w = Inr w'"
  shows "\<exists>pool' rxq'. bufs_inv None pool' rxq' hand w' \<and> owner w' = owner w"
proof (cases "length buf < ETH_HLEN + SIZEOF_IPHDR")
  case True
  then show ?thesis using assms by (auto simp: snull_hw_tx_def)
next
  case False
  obtain buf' where buf': "snull_rewrite E buf = Inr buf'" "length buf' = length buf"
    using run False rewrite_length [of E buf] by (auto simp: snull_hw_tx_def Let_def rbind_eq_Inr)
  define w0 where "w0 = (case alias of None \<Rightarrow> w | Some i \<Rightarrow> w\<lparr>skbs := (skbs w)(i \<mapsto> buf')\<rparr>)"
  have i0: "bufs_inv None pool rxq hand w0" "owner w0 = owner w"
    unfolding w0_def using inv by (auto simp: bufs_inv_other split: option.splits)
  obtain pool1 rxq1 w1 where i1: "bufs_inv None pool1 rxq1 hand w1" "owner w1 = owner w0"
      "tx_signal E d (int (length buf')) buf' w1 = Inr w'"
    using run deliver_inv [OF i0(1)] unfolding hw_tx_eq [OF False buf'(1)] rbind_eq_Inr w0_def [symmetric] by blast
  then show ?thesis using tx_signal_inv [OF i1(1,3)] i0(2) by simp
qed

lemma tx_inv:
  assumes "bufs_inv None pool rxq hand w" "snull_tx E skb d w = Inr (r, w')"
  shows "\<exists>pool' rxq'. bufs_inv None pool' rxq' hand w' \<and> owner w' = owner w"
proof -
  define w1 where "w1 = upd_priv d (\<lambda>p. p\<lparr>priv_skb := Some skb\<rparr>) w"
  obtain al buf where "snull_hw_tx E al buf d w1 = Inr w'"
    using assms(2) unfolding w1_def by (auto simp: snull_tx_def Let_def rbind_eq_Inr split: option.splits)
  moreover have "bufs_inv None pool rxq hand w1" "owner w1 = owner w"
    unfolding w1_def using bufs_inv_upd_priv [OF assms(1)] by auto
  ultimately show ?thesis using hw_tx_inv by metis
qed

lemma tx_timeout_inv:
  assumes "bufs_inv None pool rxq hand w" "snull_tx_timeout E d w = Inr w'"
  shows "\<exists>pool' rxq'. bufs_inv None pool' rxq' hand w' \<and> owner w' = owner w"
proof -
  obtain r w1 where w1: "snull_interrupt E (Some d) (upd_priv d (\<lambda>p. p\<lparr>status := SNULL_TX_INTR\<rparr>) w) = Inr (r, w1)"
      "w' = netif_wake_queue d (upd_stats d (\<lambda>s. s\<lparr>tx_errors := tx_errors s + 1\<rparr>) w1)"
    using assms(2) by (auto simp: snull_tx_timeout_def rbind_eq_Inr)
  have "bufs_inv None pool rxq hand (upd_priv d (\<lambda>p. p\<lparr>status := SNULL_TX_INTR\<rparr>) w)"
    by (rule bufs_inv_upd_priv [OF assms(1)]) simp
  from interrupt_inv [OF this w1(1)] show ?thesis
    using w1(2) bufs_inv_queue(3) [OF bufs_inv_upd_stats] by fastforce
qed

section \<open>Polling\<close>

text \<open>
  The contract of a poll: packets are taken from the front of the queue until the budget is used
  up or the queue is empty. \<open>alloc k\<close> is the answer to the \<open>k\<close>-th skb allocation; a packet that finds
  no memory is dropped and does not count. The result is what is delivered and what stays queued.
\<close>

fun poll_spec :: "(nat \<Rightarrow> bool) \<Rightarrow> nat \<Rightarrow> int \<Rightarrow> bytes list \<Rightarrow> bytes list \<times> bytes list" where
  "poll_spec alloc k budget [] = ([], [])"
| "poll_spec alloc k budget (f # fs) =
     (if budget \<le> 0 then ([], f # fs)
      else if alloc k then (let (up, rest) = poll_spec alloc (Suc k) (budget - 1) fs in (f # up, rest))
      else poll_spec alloc (Suc k) budget fs)"

definition frames :: "sworld \<Rightarrow> nat list \<Rightarrow> bytes list" where
  "frames w xs = map (\<lambda>a. payload (the (pkts w a))) xs"

definition polled :: "snull_env \<Rightarrow> sdev \<Rightarrow> bytes \<Rightarrow> sevent" where
  "polled E d bs = RxFrame d bs (eth_type_trans E d bs) False"

lemma poll_spec_le: "0 \<le> budget \<Longrightarrow> int (length (fst (poll_spec alloc k budget fs))) \<le> budget"
  by (induction alloc k budget fs rule: poll_spec.induct) (auto split: prod.splits)

lemma poll_spec_stop:
  "int (length (fst (poll_spec alloc k budget fs))) < budget \<Longrightarrow> snd (poll_spec alloc k budget fs) = []"
  by (induction alloc k budget fs rule: poll_spec.induct) (auto split: prod.splits if_splits)

text \<open>
  \<open>poll_one\<close> is the body of the polling loop on the head \<open>a\<close> of the receive queue: it answers whether
  the packet counted against the budget.
\<close>

definition poll_one :: "snull_env \<Rightarrow> sdev \<Rightarrow> nat \<Rightarrow> snull_packet \<Rightarrow> sworld \<Rightarrow> (bool \<times> sworld) res" where
  "poll_one E d a pk w =
     (if \<not> netdev_alloc_skb E (nallocs w)
      then rbind (snull_release_buffer a (count_drop d (w\<lparr>nallocs := Suc (nallocs w)\<rparr>))) (\<lambda>w. Inr (False, w))
      else rbind (pkt_payload pk) (\<lambda>bs.
             rbind (snull_release_buffer a (count_rx d (datalen pk) (pass_up E d bs False (w\<lparr>nallocs := Suc (nallocs w)\<rparr>))))
               (\<lambda>w. Inr (True, w))))"

lemma poll_one_ok:
  assumes inv: "bufs_inv None pool rxq (a # hand) w"
    and pk: "pkts w a = Some pk" "0 \<le> datalen pk" "datalen pk \<le> int ETH_DATA_LEN"
  shows "\<exists>w'. poll_one E d a pk w = Inr (netdev_alloc_skb E (nallocs w), w')
     \<and> bufs_inv None (pool(pkt_dev pk := a # pool (pkt_dev pk))) rxq hand w' \<and> owner w' = owner w
     \<and> nallocs w' = Suc (nallocs w) \<and> (\<forall>b. b \<noteq> a \<longrightarrow> pkts w' b = pkts w b)
     \<and> slog w' = slog w @ (if netdev_alloc_skb E (nallocs w) then [polled E d (payload pk)] else [])"
proof -
  define bs where "bs = payload pk"
  define w1 where "w1 = (if netdev_alloc_skb E (nallocs w)
     then count_rx d (datalen pk) (pass_up E d bs False (w\<lparr>nallocs := Suc (nallocs w)\<rparr>))
     else count_drop d (w\<lparr>nallocs := Suc (nallocs w)\<rparr>))"
  have "length (pdata pk) = ETH_DATA_LEN" using bufs_inv_hand(3) [OF inv] pk(1) by auto
  then have pl: "pkt_payload pk = Inr bs" using pk by (auto simp: pkt_payload_def bs_def payload_def)
  have i1: "bufs_inv None pool rxq (a # hand) w1"
    unfolding w1_def count_rx_def count_drop_def pass_up_def
    using inv by (auto intro!: bufs_inv_upd_stats simp: bufs_inv_other)
  have p1: "pkts w1 = pkts w" "nallocs w1 = Suc (nallocs w)"
     "slog w1 = slog w @ (if netdev_alloc_skb E (nallocs w) then [polled E d bs] else [])"
    by (simp_all add: w1_def world_defs pass_up_def polled_def snull_simps)
  obtain w' where w': "snull_release_buffer a w1 = Inr w'"
     "bufs_inv None (pool(pkt_dev pk := a # pool (pkt_dev pk))) rxq hand w'"
     "same_rest (pkt_dev pk) w1 w'" "owner w' = owner w1"
     "pkts w' = (pkts w1)(a \<mapsto> pk\<lparr>pkt_next := ppool (pr w1 (pkt_dev pk))\<rparr>)"
    using release_buffer_inv [OF i1, of pk "pkt_dev pk"] p1(1) pk(1) by auto
  have "poll_one E d a pk w = Inr (netdev_alloc_skb E (nallocs w), w')"
    using w'(1) pl unfolding w1_def poll_one_def by (simp split: if_splits)
  moreover have "owner w' = owner w" using w'(4) owner_cong [OF p1(1)] by simp
  ultimately show ?thesis using w' p1 by (simp add: same_rest_def bs_def)
qed

lemma poll_loop_empty:
  "rx_queue (pr w d) = None \<Longrightarrow> snull_poll_loop E d budget (Suc fuel) n w = Inr (n, w)"
  by simp

lemma poll_loop_full: "\<not> n < budget \<Longrightarrow> snull_poll_loop E d budget (Suc fuel) n w = Inr (n, w)"
  by simp

lemma poll_loop_step:
  assumes "n < budget" "rx_queue (pr w d) \<noteq> None" "snull_dequeue_buf d w = Inr (Some a, w1)" "pkts w1 a = Some pk"
  shows "snull_poll_loop E d budget (Suc fuel) n w =
     rbind (poll_one E d a pk w1) (\<lambda>(b, w). snull_poll_loop E d budget fuel (if b then n + 1 else n) w)"
  using assms by (simp add: poll_one_def alloc_skb_def rbind_assoc)

text \<open>
  The loop ends after at most as many rounds as packets are queued, leaves the invariant in
  place and does what \<open>poll_spec\<close> says.
\<close>

text \<open>One round of the loop: the first frame is passed up, or dropped without memory, and its buffer goes back.\<close>

lemma poll_round:
  assumes inv: "bufs_inv None pool rxq hand w" and as: "rxq d = a # as" and n: "n < budget"
    and b: "b = netdev_alloc_skb E (nallocs w)"
  shows "\<exists>w2 pk pool'. snull_poll_loop E d budget (Suc fuel) n w = snull_poll_loop E d budget fuel (if b then n + 1 else n) w2
    \<and> bufs_inv None pool' (rxq(d := as)) hand w2 \<and> owner w2 = owner w \<and> nallocs w2 = Suc (nallocs w)
    \<and> slog w2 = slog w @ (if b then [polled E d (payload pk)] else [])
    \<and> frames w (rxq d) = payload pk # frames w2 as"
proof -
  have l: "lst (pkts w) (rx_queue (pr w d)) (rxq d)" using inv by (simp add: bufs_inv_def)
  obtain w1 where w1: "snull_dequeue_buf d w = Inr (Some a, w1)"
      "bufs_inv None pool (rxq(d := as)) (a # hand) w1" "same_rest d w w1" "pkts w1 = pkts w"
    using dequeue_buf_inv [OF inv as] by (elim exE conjE) (rule that; assumption)
  have s1: "nallocs w1 = nallocs w" "slog w1 = slog w" using w1(3) by (auto simp: same_rest_def)
  obtain pk where pk: "pkts w a = Some pk" using bufs_inv_cell [OF inv, of a d] as by auto
  have dl: "0 \<le> datalen pk" "datalen pk \<le> int ETH_DATA_LEN"
    using inv as pk unfolding bufs_inv_def by (metis list.set_intros(1))+
  have pk1: "pkts w1 a = Some pk" using pk w1(4) by simp
  obtain w2 where w2: "poll_one E d a pk w1 = Inr (b, w2)"
      "bufs_inv None (pool(pkt_dev pk := a # pool (pkt_dev pk))) (rxq(d := as)) hand w2" "owner w2 = owner w1"
      "nallocs w2 = Suc (nallocs w)" "\<forall>b. b \<noteq> a \<longrightarrow> pkts w2 b = pkts w1 b"
      "slog w2 = slog w @ (if b then [polled E d (payload pk)] else [])"
    using poll_one_ok [OF w1(2) pk1 dl, of E d, unfolded s1, folded b] by (elim exE conjE) (rule that; assumption)
  have "snull_poll_loop E d budget (Suc fuel) n w = snull_poll_loop E d budget fuel (if b then n + 1 else n) w2"
    using poll_loop_step [OF _ _ w1(1), of n budget pk E fuel] n l as pk1 w2(1) by simp
  moreover have "a \<notin> set as"
    using inv as all_bufs_sym(1) [of pool rxq hand d] by (auto simp: bufs_inv_def all_bufs_def)
  then have "frames w (rxq d) = payload pk # frames w2 as" using w2(5) w1(4) as pk by (auto simp: frames_def)
  ultimately show ?thesis using w2 owner_cong [OF w1(4)] by metis
qed

lemma poll_loop_total:
  "bufs_inv None pool rxq hand w \<Longrightarrow> length (rxq d) < fuel \<Longrightarrow> frames w (rxq d) = fs \<Longrightarrow>
   poll_spec (netdev_alloc_skb E) (nallocs w) (budget - n) fs = (up, rest) \<Longrightarrow>
   \<exists>w' pool' rxq'. snull_poll_loop E d budget fuel n w = Inr (n + int (length up), w')
     \<and> bufs_inv None pool' rxq' hand w' \<and> owner w' = owner w
     \<and> slog w' = slog w @ map (polled E d) up \<and> frames w' (rxq' d) = rest"
proof (induction fuel arbitrary: w pool rxq n fs up)
  case (Suc fuel)
  have l: "lst (pkts w) (rx_queue (pr w d)) (rxq d)" using Suc.prems(1) by (simp add: bufs_inv_def)
  show ?case
  proof (cases "n < budget \<and> rxq d \<noteq> []")
    case False
    then have "snull_poll_loop E d budget (Suc fuel) n w = Inr (n, w)" using l by auto
    moreover have "up = []" "rest = fs"
      using Suc.prems(3,4) False by (cases fs; auto simp: frames_def split: if_splits)+
    ultimately show ?thesis using Suc.prems
      by (intro exI [of _ w] exI [of _ pool] exI [of _ rxq]) simp
  next
    case True
    then obtain a as where as: "rxq d = a # as" by (cases "rxq d") auto
    let ?b = "netdev_alloc_skb E (nallocs w)" let ?n = "if ?b then n + 1 else n"
    obtain w2 pk pool2 where w2: "snull_poll_loop E d budget (Suc fuel) n w = snull_poll_loop E d budget fuel ?n w2"
        "bufs_inv None pool2 (rxq(d := as)) hand w2" "owner w2 = owner w" "nallocs w2 = Suc (nallocs w)"
        "slog w2 = slog w @ (if ?b then [polled E d (payload pk)] else [])" "frames w (rxq d) = payload pk # frames w2 as"
      using poll_round [OF Suc.prems(1) as conjunct1 [OF True] refl, of E fuel] by (elim exE conjE) (rule that; assumption)
    define up' where "up' = (if ?b then tl up else up)"
    have up: "up = (if ?b then [payload pk] else []) @ up'"
      and sp: "poll_spec (netdev_alloc_skb E) (nallocs w2) (budget - ?n) (frames w2 as) = (up', rest)"
      using Suc.prems(3,4) True w2(6) unfolding w2(4) up'_def
      by (auto split: prod.splits if_splits simp: algebra_simps)
    have "length ((rxq(d := as)) d) < fuel" "frames w2 ((rxq(d := as)) d) = frames w2 as" using Suc.prems(2) as by simp_all
    from Suc.IH [OF w2(2) this sp] show ?thesis unfolding w2(1) using w2(3,5) up
      by (elim exE conjE) (intro exI conjI; (assumption | simp))
  qed
qed simp

text \<open>The loop itself leaves the interrupt flag and the NAPI state of every device alone.\<close>

definition napi_state :: "sworld \<Rightarrow> sdev \<Rightarrow> int \<times> bool" where
  "napi_state w d = (rx_int_enabled (pr w d), napi_scheduled (pr w d))"

lemma napi_state_simps [simp]:
  "napi_state (count_drop x w) d = napi_state w d" "napi_state (count_rx x n w) d = napi_state w d"
  "napi_state (pass_up E x bs b w) d = napi_state w d" "napi_state (w\<lparr>nallocs := k\<rparr>) d = napi_state w d"
  by (simp_all add: napi_state_def count_drop_def count_rx_def pass_up_def upd_stats_def upd_priv_def snull_simps)

lemma napi_state_dequeue: "snull_dequeue_buf x w = Inr (p, w') \<Longrightarrow> napi_state w' d = napi_state w d"
  by (auto simp: snull_dequeue_buf_def spin_lock_def spin_unlock_def rbind_eq_Inr napi_state_def upd_priv_def
      snull_simps split: if_splits option.splits)

lemma napi_state_release: "snull_release_buffer a w = Inr w' \<Longrightarrow> napi_state w' d = napi_state w d"
  by (auto simp: snull_release_buffer_def spin_lock_def spin_unlock_def set_pkt_def netif_wake_queue_def Let_def
      rbind_eq_Inr napi_state_def upd_priv_def snull_simps split: if_splits)

lemma poll_loop_napi_state:
  "snull_poll_loop E d budget fuel n w = Inr (m, w') \<Longrightarrow> napi_state w' x = napi_state w x"
proof (induction fuel arbitrary: n w)
  case (Suc fuel)
  show ?case
  proof (cases "n < budget \<and> rx_queue (pr w d) \<noteq> None")
    case True
    obtain a w1 pk where w1: "snull_dequeue_buf d w = Inr (Some a, w1)" "pkts w1 a = Some pk"
      using Suc.prems True
      by (auto simp: rbind_eq_Inr deref_def pkt_at_def split: option.splits)
    obtain b w2 where w2: "poll_one E d a pk w1 = Inr (b, w2)"
        "snull_poll_loop E d budget fuel (if b then n + 1 else n) w2 = Inr (m, w')"
      using Suc.prems unfolding poll_loop_step [OF conjunct1 [OF True] conjunct2 [OF True] w1]
      by (cases "poll_one E d a pk w1") auto
    have "napi_state w2 x = napi_state w1 x"
      using w2(1) by (auto simp: poll_one_def rbind_eq_Inr dest!: napi_state_release split: if_splits)
    then show ?thesis using Suc.IH [OF w2(2)] napi_state_dequeue [OF w1(1)] by simp
  qed (use Suc.prems in simp)
qed simp

lemma snull_poll_total:
  assumes "bufs_inv None pool rxq hand w" "length (rxq d) < fuel"
    and "poll_spec (netdev_alloc_skb E) (nallocs w) budget (frames w (rxq d)) = (up, rest)"
  shows "\<exists>w' pool' rxq'. snull_poll E fuel d budget w = Inr (int (length up), w')
     \<and> bufs_inv None pool' rxq' hand w' \<and> owner w' = owner w
     \<and> slog w' = slog w @ map (polled E d) up \<and> frames w' (rxq' d) = rest
     \<and> napi_state w' d = (if int (length up) < budget then (1, False) else napi_state w d)"
proof -
  have "poll_spec (netdev_alloc_skb E) (nallocs w) (budget - 0) (frames w (rxq d)) = (up, rest)"
    using assms(3) by simp
  from poll_loop_total [OF assms(1,2) refl this]
  obtain w' pool' rxq' where r: "snull_poll_loop E d budget fuel 0 w = Inr (0 + int (length up), w')"
      "bufs_inv None pool' rxq' hand w'" "owner w' = owner w"
      "slog w' = slog w @ map (polled E d) up" "frames w' (rxq' d) = rest"
    by (elim exE conjE) (rule that; assumption)
  let ?w = "if int (length up) < budget
            then snull_rx_ints d 1 (upd_priv d (\<lambda>p. p\<lparr>napi_scheduled := False\<rparr>) w') else w'"
  have "snull_poll E fuel d budget w = Inr (int (length up), ?w)" using r(1) by (simp add: snull_poll_def)
  moreover have "bufs_inv None pool' rxq' hand ?w" "owner ?w = owner w"
    using r(2,3) by (auto simp: snull_rx_ints_def intro!: bufs_inv_upd_priv)
  moreover have "napi_state ?w d = (if int (length up) < budget then (1, False) else napi_state w d)"
    using poll_loop_napi_state [OF r(1), of d]
    by (simp add: napi_state_def snull_rx_ints_def upd_priv_def snull_simps)
  moreover have "pkts ?w = pkts w'" "slog ?w = slog w'"
    by (simp_all add: snull_rx_ints_def upd_priv_def snull_simps)
  ultimately show ?thesis
    by (intro exI [of _ ?w] exI [of _ pool'] exI [of _ rxq'] conjI) (use r in \<open>simp_all add: frames_def\<close>)
qed

end
