(* ===== verification/Snull_Regular.thy ===== *)
theory Snull_Regular
  imports Snull_Steps
begin

unbundle bit_operations_syntax

text \<open>
  Transmission in interrupt-driven mode (\<open>use_napi = 0\<close>), step by step: the receive interrupt on the
  twin consumes the packet just queued and returns its buffer, the transmit interrupt frees
  the \<open>sk_buff\<close>. \<open>tx_regular_ok\<close> puts them together: one call of \<open>snull_tx\<close> passes the rewritten
  frame to the other device and leaves both pools as they were.
\<close>

section \<open>The two interrupts\<close>

definition rx_stats :: "bool \<Rightarrow> int \<Rightarrow> net_device_stats \<Rightarrow> net_device_stats" where
  "rx_stats ok len s =
     (if ok then s\<lparr>rx_packets := rx_packets s + 1, rx_bytes := rx_bytes s + of_int len\<rparr>
      else s\<lparr>rx_dropped := rx_dropped s + 1\<rparr>)"

definition tx_stats :: "int \<Rightarrow> net_device_stats \<Rightarrow> net_device_stats" where
  "tx_stats len s = s\<lparr>tx_packets := tx_packets s + 1, tx_bytes := tx_bytes s + of_int len\<rparr>"

definition irq_frame :: "snull_env \<Rightarrow> sdev \<Rightarrow> bytes \<Rightarrow> sevent" where
  "irq_frame E d bs = RxFrame d bs (eth_type_trans E d bs) True"

definition on_priv :: "(snull_priv \<Rightarrow> snull_priv) \<Rightarrow> snull_dev \<Rightarrow> snull_dev" where
  "on_priv f x = x\<lparr>priv := f (priv x)\<rparr>"

lemma snull_rx_eq:
  assumes "pkts w a = Some pk" "0 \<le> datalen pk" "datalen pk \<le> int (length (pdata pk))"
    and ok: "ok = netdev_alloc_skb E (nallocs w)"
  shows "snull_rx E d a w = Inr (upd_stats d (rx_stats ok (datalen pk))
     (w\<lparr>nallocs := Suc (nallocs w), slog := slog w @ (if ok then [irq_frame E d (payload pk)] else [])\<rparr>))"
  using assms
  by (simp add: snull_rx_def alloc_skb_def pkt_payload_def pass_up_def count_rx_def count_drop_def
      rx_stats_def payload_def irq_frame_def upd_stats_def upd_priv_def upd_dev_def)

lemma tx_irq_eq:
  assumes "\<not> plock (pr w d)" "status (pr w d) = SNULL_TX_INTR" "priv_skb (pr w d) = Some skb" "skbs w skb \<noteq> None"
  shows "snull_interrupt E (Some d) w = Inr (IRQ_HANDLED,
     (upd_priv d (\<lambda>p. p\<lparr>status := 0, stats := tx_stats (tx_packetlen p) (stats p)\<rparr>) w)
       \<lparr>skbs := (skbs w)(skb := None), slog := slog w @ [KfreeSkb skb]\<rparr>)"
  using assms
  by (auto simp: snull_interrupt_def regular_interrupt_eq napi_interrupt_eq irq_rx_def irq_tx_def irq_exit_def
      irq_enter_def tx_done_def snull_kfree_skb_def Let_def upd_stats_def upd_priv_def upd_dev_def spin_unlock_def
      tx_stats_def fun_eq_iff intro!: sworld.equality snull_dev.equality snull_priv.equality)

text \<open>
  What the receive interrupt on \<open>d\<close> leaves when it has taken packet \<open>pk\<close>: the frame is logged and counted, the
  status cleared, and the sender's queue stays stopped only if \<open>kept\<close>.
\<close>

definition rx_irq_post :: "snull_env \<Rightarrow> sdev \<Rightarrow> snull_packet \<Rightarrow> bool \<Rightarrow> bool \<Rightarrow> sworld \<Rightarrow> sworld \<Rightarrow> bool" where
  "rx_irq_post E d pk ok kept w w' \<longleftrightarrow> owner w' = owner w \<and> skbs w' = skbs w \<and> nallocs w' = Suc (nallocs w)
    \<and> slog w' = slog w @ (if ok then [irq_frame E d (payload pk)] else [])
    \<and> dcore (devs w' d) =
        dcore (on_priv (\<lambda>p. p\<lparr>status := 0, stats := rx_stats ok (datalen pk) (stats p)\<rparr>) (devs w d))
    \<and> dcore (devs w' (twin d)) = dcore (devs w (twin d))
    \<and> queue_stopped (devs w' d) = queue_stopped (devs w d)
    \<and> queue_stopped (devs w' (twin d)) = (queue_stopped (devs w (twin d)) \<and> kept)"

text \<open>The part under the lock: everything but giving the buffer back.\<close>

lemma rx_irq_locked:
  assumes inv: "bufs_inv None pool rxq hand w" and a: "rxq d = a # as" and pk: "pkts w a = Some pk"
    and st: "status (pr w d) = SNULL_RX_INTR" and ok: "ok = netdev_alloc_skb E (nallocs w)"
  shows "\<exists>w2. snull_regular_interrupt E (Some d) w = irq_exit d (Some a) w2
    \<and> bufs_inv None pool (rxq(d := as)) (a # hand) (spin_unlock d w2) \<and> pkts (spin_unlock d w2) = pkts w
    \<and> rx_irq_post E d pk ok True w (spin_unlock d w2)"
proof -
  have l: "lst (pkts w) (rx_queue (pr w d)) (a # as)" using inv a by (metis bufs_inv_def)
  have dl: "0 \<le> datalen pk" "datalen pk \<le> int ETH_DATA_LEN" "length (pdata pk) = ETH_DATA_LEN"
    using inv a pk unfolding bufs_inv_def by (metis list.set_intros(1))+
  define w1 where "w1 = upd_priv d (\<lambda>p. p\<lparr>rx_queue := pkt_next pk\<rparr>) (irq_enter d w)"
  define w2 where "w2 = upd_stats d (rx_stats ok (datalen pk))
     (w1\<lparr>nallocs := Suc (nallocs w1), slog := slog w1 @ (if ok then [irq_frame E d (payload pk)] else [])\<rparr>)"
  note w1s = w1_def irq_enter_def upd_priv_def snull_simps
  note w2s = w2_def spin_unlock_def upd_stats_def
  have e1: "pkts w1 = pkts w" "skbs w1 = skbs w" "slog w1 = slog w" "nallocs w1 = nallocs w" by (simp_all add: w1s)
  have "irq_rx E d True (irq_enter d w) = rbind (snull_rx E d a w1) (\<lambda>w. Inr (Some a, w))"
    using l pk by (simp add: irq_rx_def pkt_at_def w1s)
  also have "\<dots> = Inr (Some a, w2)"
    using snull_rx_eq [of w1 a pk ok E d] e1 pk dl ok unfolding w2_def by simp
  finally have run: "snull_regular_interrupt E (Some d) w = irq_exit d (Some a) w2"
    using regular_interrupt_eq [OF bufs_inv_free [OF inv, of d], of E] st by (simp add: irq_tx_def)
  have "bufs_inv (Some d) pool (rxq(d := as)) (a # hand) w1" unfolding w1_def
    by (rule bufs_inv_pop_rxq [OF conjunct1 [OF irq_enter_inv [OF inv]] a])
       (auto simp: irq_enter_def upd_priv_def snull_simps pk)
  then have "bufs_inv (Some d) pool (rxq(d := as)) (a # hand) w2"
    unfolding w2_def by (intro bufs_inv_upd_stats) (simp add: bufs_inv_other)
  then have "bufs_inv None pool (rxq(d := as)) (a # hand) (spin_unlock d w2)" by (rule bufs_inv_unlock)
  moreover have u: "pkts (spin_unlock d w2) = pkts w" by (simp add: w2s e1 upd_priv_def snull_simps)
  moreover have "dcore (devs (spin_unlock d w2) d) =
      dcore (on_priv (\<lambda>p. p\<lparr>status := 0, stats := rx_stats ok (datalen pk) (stats p)\<rparr>) (devs w d))"
    using bufs_inv_free [OF inv, of d] by (simp add: w2s w1s dcore_def on_priv_def)
  then have "rx_irq_post E d pk ok True w (spin_unlock d w2)" unfolding rx_irq_post_def
    by (intro conjI owner_cong [OF u]) (simp_all add: w2s e1 upd_priv_def snull_simps, simp_all add: w1s)
  ultimately show ?thesis using run by blast
qed

lemma rx_irq_ok:
  assumes inv: "bufs_inv None pool rxq hand w" and a: "rxq d = a # as" and pk: "pkts w a = Some pk"
    and st: "status (pr w d) = SNULL_RX_INTR" and ok: "ok = netdev_alloc_skb E (nallocs w)"
  shows "\<exists>w'. snull_regular_interrupt E (Some d) w = Inr (IRQ_HANDLED, w')
    \<and> bufs_inv None (pool(twin d := a # pool (twin d))) (rxq(d := as)) hand w'
    \<and> rx_irq_post E d pk ok (pool (twin d) \<noteq> []) w w'"
proof -
  obtain w2 where w2: "snull_regular_interrupt E (Some d) w = irq_exit d (Some a) w2"
      "bufs_inv None pool (rxq(d := as)) (a # hand) (spin_unlock d w2)" "pkts (spin_unlock d w2) = pkts w"
      "rx_irq_post E d pk ok True w (spin_unlock d w2)"
    using rx_irq_locked [OF assms] by blast
  have dev: "pkt_dev pk = twin d" using inv a pk unfolding bufs_inv_def by (metis list.set_intros(1))
  have "pkts (spin_unlock d w2) a = Some pk" using w2(3) pk by simp
  from release_buffer_inv [OF w2(2) this dev] obtain w' where w': "snull_release_buffer a (spin_unlock d w2) = Inr w'"
      "bufs_inv None (pool(twin d := a # pool (twin d))) (rxq(d := as)) hand w'"
      "same_rest (twin d) (spin_unlock d w2) w'" "owner w' = owner (spin_unlock d w2)"
      "queue_stopped (devs w' (twin d)) = (queue_stopped (devs (spin_unlock d w2) (twin d)) \<and> pool (twin d) \<noteq> [])"
    by (elim exE conjE) (rule that; assumption)
  then have "rx_irq_post E d pk ok (pool (twin d) \<noteq> []) w w'"
    using w2(4) by (simp add: rx_irq_post_def same_rest_def)
  then show ?thesis using w2(1) w'(1,2) by (simp add: irq_exit_def)
qed

section \<open>One transmission\<close>

text \<open>The frame on the wire: short frames are padded with zeros to \<open>ETH_ZLEN\<close>.\<close>

definition padded :: "bytes \<Rightarrow> bytes" where
  "padded data = (if length data < ETH_ZLEN then data @ replicate (ETH_ZLEN - length data) 0 else data)"

lemma padded_put: "(if length data < ETH_ZLEN then put 0 data (replicate ETH_ZLEN 0) else data) = padded data"
  by (simp add: padded_def put_def)

lemma length_padded: "length (padded data) = max ETH_ZLEN (length data)"
  by (simp add: padded_def)

lemma status_OR [simp]: "(0 :: u32) OR x = x"
  by simp

lemma dcore_eqD:
  "dcore x = dcore y \<Longrightarrow>
   x = y\<lparr>priv := (priv y)\<lparr>ppool := ppool (priv x), rx_queue := rx_queue (priv x)\<rparr>, queue_stopped := queue_stopped x\<rparr>"
  by (cases x; cases y; cases "priv x"; cases "priv y") (simp add: dcore_def)

lemma dcore_priv:
  assumes "dcore x = dcore y"
  shows "status (priv x) = status (priv y)" "rx_int_enabled (priv x) = rx_int_enabled (priv y)"
    "stats (priv x) = stats (priv y)" "plock (priv x) = plock (priv y)" "priv_skb (priv x) = priv_skb (priv y)"
    "dev_flags x = dev_flags y" "mtu x = mtu y" "napi_enabled (priv x) = napi_enabled (priv y)"
    "napi_scheduled (priv x) = napi_scheduled (priv y)"
  by (subst dcore_eqD [OF assms], simp)+

text \<open>A device with nothing pending: empty receive queue, clear status, receive interrupts on.\<close>

definition quiet :: "(sdev \<Rightarrow> nat list) \<Rightarrow> sworld \<Rightarrow> bool" where
  "quiet pool w \<longleftrightarrow> bufs_inv None pool (\<lambda>_. []) [] w
     \<and> (\<forall>d. status (pr w d) = 0 \<and> rx_int_enabled (pr w d) = 1 \<and> \<not> napi_scheduled (pr w d))"

text \<open>What both interrupts of a transmission of \<open>pk\<close> from \<open>d\<close> leave.\<close>

definition tx_irqs_post ::
  "snull_env \<Rightarrow> sdev \<Rightarrow> nat \<Rightarrow> snull_packet \<Rightarrow> bool \<Rightarrow> bytes \<Rightarrow> bool \<Rightarrow> sworld \<Rightarrow> sworld \<Rightarrow> bool" where
  "tx_irqs_post E d skb pk ok buf kept w w' \<longleftrightarrow> owner w' = owner w
    \<and> skbs w' = (skbs w)(skb := None) \<and> nallocs w' = Suc (nallocs w)
    \<and> slog w' = slog w @ (if ok then [irq_frame E (twin d) (payload pk)] else []) @ [KfreeSkb skb]
    \<and> dcore (devs w' (twin d)) =
        dcore (on_priv (\<lambda>p. p\<lparr>status := 0, stats := rx_stats ok (datalen pk) (stats p)\<rparr>) (devs w (twin d)))
    \<and> dcore (devs w' d) = dcore (on_priv (\<lambda>p. p\<lparr>tx_packetlen := datalen pk, tx_packetdata := buf,
         stats := tx_stats (datalen pk) (stats p)\<rparr>) (devs w d))
    \<and> queue_stopped (devs w' (twin d)) = queue_stopped (devs w (twin d))
    \<and> queue_stopped (devs w' d) = (queue_stopped (devs w d) \<and> kept)"

lemma tx_signal_regular:
  assumes E: "\<not> use_napi E" "lockup E = 0"
    and inv: "bufs_inv None (pool(d := as)) (\<lambda>x. if x = twin d then [a] else []) [] w" and a: "pool d = a # as"
    and pk: "pkts w a = Some pk"
    and st: "status (pr w d) = 0" "status (pr w (twin d)) = 0" "rx_int_enabled (pr w (twin d)) = 1"
    and skb: "priv_skb (pr w d) = Some skb" "skbs w skb \<noteq> None"
    and ok: "ok = netdev_alloc_skb E (nallocs w)"
  shows "\<exists>w'. tx_signal E d (datalen pk) buf w = Inr w' \<and> bufs_inv None pool (\<lambda>_. []) [] w'
    \<and> tx_irqs_post E d skb pk ok buf (as \<noteq> []) w w'"
proof -
  let ?rxq = "\<lambda>x. if x = twin d then [a] else []"
  let ?w0 = "upd_priv (twin d) (\<lambda>p. p\<lparr>status := status p OR SNULL_RX_INTR\<rparr>) w"
  have i0: "bufs_inv None (pool(d := as)) ?rxq [] ?w0" by (rule bufs_inv_upd_priv [OF inv]) simp
  have p0: "pkts ?w0 a = Some pk" "status (pr ?w0 (twin d)) = SNULL_RX_INTR" "ok = netdev_alloc_skb E (nallocs ?w0)"
    using pk st ok by (simp_all add: upd_priv_def snull_simps)
  have a0: "?rxq (twin d) = [a]" by simp
  have f: "(pool(d := as))(twin (twin d) := a # (pool(d := as)) (twin (twin d))) = pool"
      "?rxq(twin d := []) = (\<lambda>_. [])" using a by (auto simp: fun_eq_iff)
  obtain w1 where w1: "snull_regular_interrupt E (Some (twin d)) ?w0 = Inr (IRQ_HANDLED, w1)"
     "bufs_inv None pool (\<lambda>_. []) [] w1" "rx_irq_post E (twin d) pk ok (as \<noteq> []) ?w0 w1"
    using rx_irq_ok [OF i0 a0 p0] unfolding f by auto
  note w1p = w1(3) [unfolded rx_irq_post_def]
  have d1: "dcore (devs w1 d) = dcore (devs w d)" using w1p by (simp add: upd_priv_def snull_simps)
  let ?w2 = "upd_priv d (\<lambda>p. p\<lparr>tx_packetlen := datalen pk, tx_packetdata := buf, status := status p OR SNULL_TX_INTR\<rparr>) w1"
  have i2: "bufs_inv None pool (\<lambda>_. []) [] ?w2" by (rule bufs_inv_upd_priv [OF w1(2)]) simp
  have s2: "status (pr ?w2 d) = SNULL_TX_INTR" "priv_skb (pr ?w2 d) = Some skb" "skbs ?w2 skb \<noteq> None"
    using dcore_priv [OF d1] st skb w1p by (simp_all add: upd_priv_def snull_simps)
  let ?w3 = "(upd_priv d (\<lambda>p. p\<lparr>status := 0, stats := tx_stats (tx_packetlen p) (stats p)\<rparr>) ?w2)
       \<lparr>skbs := (skbs ?w2)(skb := None), slog := slog ?w2 @ [KfreeSkb skb]\<rparr>"
  have "tx_signal E d (datalen pk) buf w = Inr ?w3"
    using E st w1(1) tx_irq_eq [OF bufs_inv_free [OF i2] s2, of E]
    by (simp add: tx_signal_def Let_def snull_interrupt_def)
  moreover have "bufs_inv None pool (\<lambda>_. []) [] ?w3"
    unfolding bufs_inv_other by (rule bufs_inv_upd_priv [OF i2]) simp
  moreover have "dcore (devs ?w3 d) = dcore (on_priv (\<lambda>p. p\<lparr>tx_packetlen := datalen pk, tx_packetdata := buf,
         stats := tx_stats (datalen pk) (stats p)\<rparr>) (devs w d))"
  proof -
    obtain p q b where x: "devs w1 d = (devs w d)\<lparr>priv := (pr w d)\<lparr>ppool := p, rx_queue := q\<rparr>, queue_stopped := b\<rparr>"
      using dcore_eqD [OF d1] by blast
    show ?thesis using st(1) by (simp add: upd_priv_def snull_simps x on_priv_def dcore_def)
  qed
  then have "tx_irqs_post E d skb pk ok buf (as \<noteq> []) w ?w3"
    using w1p unfolding tx_irqs_post_def by (simp add: upd_priv_def snull_simps on_priv_def dcore_def)
  ultimately show ?thesis by blast
qed

text \<open>The IP header length the frame claims, in bytes, lies within the frame; the frame fits a packet buffer.\<close>

definition frame_ok :: "bytes \<Rightarrow> bool" where
  "frame_ok data \<longleftrightarrow> length data \<le> ETH_DATA_LEN
     \<and> ETH_HLEN + 4 * unat (padded data ! ETH_HLEN AND 15) \<le> length (padded data)"

lemma rewrite_ok:
  assumes "ETH_HLEN + SIZEOF_IPHDR \<le> length buf" "ETH_HLEN + 4 * unat (buf ! ETH_HLEN AND 15) \<le> length buf"
  shows "\<exists>buf'. snull_rewrite E buf = Inr buf'"
  using assms by (simp add: snull_rewrite_def Let_def nth_put)

lemma padded_rewrite:
  assumes "frame_ok data"
  shows "\<exists>buf. snull_rewrite E (padded data) = Inr buf \<and> length buf = length (padded data)
     \<and> length buf \<le> ETH_DATA_LEN"
proof -
  have l: "ETH_HLEN + SIZEOF_IPHDR \<le> length (padded data)" "length (padded data) \<le> ETH_DATA_LEN"
    using assms by (simp_all add: length_padded frame_ok_def)
  obtain buf where "snull_rewrite E (padded data) = Inr buf"
    using rewrite_ok [OF l(1)] assms by (auto simp: frame_ok_def)
  then show ?thesis using rewrite_length l by force
qed

text \<open>What both modes have in common: the packet reaches the twin's queue before any interrupt.\<close>

lemma tx_prepare:
  assumes inv: "bufs_inv None pool rxq [] w" and a: "pool d = a # as"
    and skb: "skbs w skb = Some data" and buf: "snull_rewrite E (padded data) = Inr buf" "length data \<le> ETH_DATA_LEN"
  shows "\<exists>w' pk. snull_tx E skb d w = rbind (tx_signal E d (int (length buf)) buf w') (\<lambda>w. Inr (0, w))
    \<and> bufs_inv None (pool(d := as)) (rxq(twin d := a # rxq (twin d))) [] w' \<and> owner w' = owner w
    \<and> slog w' = slog w \<and> nallocs w' = nallocs w
    \<and> skbs w' skb \<noteq> None \<and> (skbs w')(skb := None) = (skbs w)(skb := None)
    \<and> dcore (devs w' d) = dcore (on_priv (\<lambda>p. p\<lparr>priv_skb := Some skb\<rparr>) (devs w d))
    \<and> dcore (devs w' (twin d)) = dcore (devs w (twin d))
    \<and> queue_stopped (devs w' d) = (queue_stopped (devs w d) \<or> as = [])
    \<and> queue_stopped (devs w' (twin d)) = queue_stopped (devs w (twin d))
    \<and> pkts w' a = Some pk \<and> datalen pk = int (length buf) \<and> payload pk = buf
    \<and> (\<forall>b. b \<noteq> a \<longrightarrow> pkts w' b = pkts w b)"
proof -
  have l: "ETH_HLEN + SIZEOF_IPHDR \<le> length (padded data)" "length (padded data) \<le> ETH_DATA_LEN"
    using buf(2) by (simp_all add: length_padded)
  have lb: "length buf = length (padded data)" using rewrite_length [OF buf(1) l(1)] .
  define w0 where "w0 = upd_priv d (\<lambda>p. p\<lparr>priv_skb := Some skb\<rparr>) w"
  define al where "al = (if length data < ETH_ZLEN then None else Some skb)"
  define w1 where "w1 = (case al of None \<Rightarrow> w0 | Some i \<Rightarrow> w0\<lparr>skbs := (skbs w0)(i \<mapsto> buf)\<rparr>)"
  have run: "snull_tx E skb d w = rbind (rbind (deliver d buf w1) (tx_signal E d (int (length buf)) buf)) (\<lambda>w. Inr (0, w))"
    using skb hw_tx_eq [OF _ buf(1), of al d w0] l(1)
    unfolding snull_tx_def Let_def padded_put w0_def al_def w1_def by simp
  have e1: "devs w1 = devs w0" "slog w1 = slog w" "nallocs w1 = nallocs w" "skbs w1 skb \<noteq> None"
      "(skbs w1)(skb := None) = (skbs w)(skb := None)" "pkts w1 = pkts w"
    using skb by (auto simp: w1_def w0_def al_def upd_priv_def snull_simps)
  have i1: "bufs_inv None pool rxq [] w1"
    using inv bufs_inv_upd_priv unfolding w1_def w0_def al_def by (auto simp: bufs_inv_other)
  have d1: "devs w1 d = on_priv (\<lambda>p. p\<lparr>priv_skb := Some skb\<rparr>) (devs w d)" "devs w1 (twin d) = devs w (twin d)"
      "queue_stopped (devs w1 d) = queue_stopped (devs w d)"
    unfolding e1(1) w0_def by (simp_all add: upd_priv_def snull_simps on_priv_def)
  obtain w2 pk where w2: "deliver d buf w1 = Inr w2"
     "bufs_inv None (pool(d := as)) (rxq(twin d := a # rxq (twin d))) [] w2" "owner w2 = owner w1"
     "skbs w2 = skbs w1" "slog w2 = slog w1" "nallocs w2 = nallocs w1"
     "dcore (devs w2 d) = dcore (devs w1 d)" "dcore (devs w2 (twin d)) = dcore (devs w1 (twin d))"
     "queue_stopped (devs w2 d) = (queue_stopped (devs w1 d) \<or> as = [])"
     "queue_stopped (devs w2 (twin d)) = queue_stopped (devs w1 (twin d))"
     "pkts w2 a = Some pk" "datalen pk = int (length buf)" "payload pk = buf"
     "\<forall>b. b \<noteq> a \<longrightarrow> pkts w2 b = pkts w1 b"
    using deliver_ok [OF i1 a l(2) [folded lb]] by (elim exE conjE) (rule that; assumption)
  then show ?thesis using run e1 d1 owner_cong [OF e1(6)]
    by (intro exI [of _ w2] exI [of _ pk] conjI) simp_all
qed

lemma tx_regular_ok:
  assumes E: "\<not> use_napi E" "lockup E = 0" and q: "quiet pool w" and ne: "pool d \<noteq> []"
    and skb: "skbs w skb = Some data" and buf: "snull_rewrite E (padded data) = Inr buf" "length data \<le> ETH_DATA_LEN"
    and ok: "ok = netdev_alloc_skb E (nallocs w)" and len: "len = int (length buf)"
  shows "\<exists>w'. snull_tx E skb d w = Inr (0, w') \<and> quiet pool w' \<and> owner w' = owner w
    \<and> skbs w' = (skbs w)(skb := None) \<and> nallocs w' = Suc (nallocs w)
    \<and> slog w' = slog w @ (if ok then [irq_frame E (twin d) buf] else []) @ [KfreeSkb skb]
    \<and> stats (pr w' (twin d)) = rx_stats ok len (stats (pr w (twin d)))
    \<and> stats (pr w' d) = tx_stats len (stats (pr w d))
    \<and> (\<forall>x. dev_flags (devs w' x) = dev_flags (devs w x))
    \<and> queue_stopped (devs w' (twin d)) = queue_stopped (devs w (twin d))
    \<and> (queue_stopped (devs w' d) \<longrightarrow> queue_stopped (devs w d))"
proof -
  obtain a as where a: "pool d = a # as" using ne by (cases "pool d") auto
  have i: "bufs_inv None pool (\<lambda>_. []) [] w" using q by (simp add: quiet_def)
  obtain w2 pk where w2: "snull_tx E skb d w = rbind (tx_signal E d (int (length buf)) buf w2) (\<lambda>w. Inr (0, w))"
     "bufs_inv None (pool(d := as)) ((\<lambda>_. [])(twin d := a # [])) [] w2" "owner w2 = owner w"
     "slog w2 = slog w" "nallocs w2 = nallocs w"
     "skbs w2 skb \<noteq> None" "(skbs w2)(skb := None) = (skbs w)(skb := None)"
     "dcore (devs w2 d) = dcore (on_priv (\<lambda>p. p\<lparr>priv_skb := Some skb\<rparr>) (devs w d))"
     "dcore (devs w2 (twin d)) = dcore (devs w (twin d))"
     "queue_stopped (devs w2 d) = (queue_stopped (devs w d) \<or> as = [])"
     "queue_stopped (devs w2 (twin d)) = queue_stopped (devs w (twin d))"
     "pkts w2 a = Some pk" "datalen pk = int (length buf)" "payload pk = buf"
    using tx_prepare [OF i a skb buf] by (elim exE conjE) (rule that; assumption)
  have rq: "((\<lambda>_. [])(twin d := a # [])) = (\<lambda>x. if x = twin d then [a] else [])" by auto
  note c2 = dcore_priv [OF w2(8)] dcore_priv [OF w2(9)]
  have st: "status (pr w2 d) = 0" "status (pr w2 (twin d)) = 0" "rx_int_enabled (pr w2 (twin d)) = 1"
      "priv_skb (pr w2 d) = Some skb" "skbs w2 skb \<noteq> None" "ok = netdev_alloc_skb E (nallocs w2)"
    using c2 q w2(5,6) ok by (simp_all add: quiet_def on_priv_def)
  obtain w' where w': "tx_signal E d (datalen pk) buf w2 = Inr w'" "bufs_inv None pool (\<lambda>_. []) [] w'"
     "tx_irqs_post E d skb pk ok buf (as \<noteq> []) w2 w'"
    using tx_signal_regular [OF E w2(2) [unfolded rq] a w2(12) st, of buf] by blast
  note p = w'(3) [unfolded tx_irqs_post_def]
  have c': "dcore (devs w' (twin d)) = dcore (on_priv (\<lambda>p. p\<lparr>status := 0, stats := rx_stats ok (datalen pk) (stats p)\<rparr>) (devs w2 (twin d)))"
      "dcore (devs w' d) = dcore (on_priv (\<lambda>p. p\<lparr>tx_packetlen := datalen pk, tx_packetdata := buf,
         stats := tx_stats (datalen pk) (stats p)\<rparr>) (devs w2 d))" using p by blast+
  note c = dcore_priv [OF c'(1)] dcore_priv [OF c'(2)] c2
  have s: "status (pr w' x) = 0 \<and> rx_int_enabled (pr w' x) = 1 \<and> napi_scheduled (pr w' x) = napi_scheduled (pr w x)
      \<and> dev_flags (devs w' x) = dev_flags (devs w x)" for x
    by (rule both_devs [of _ d]) (use q st c in \<open>simp_all add: on_priv_def quiet_def\<close>)
  have "stats (pr w' (twin d)) = rx_stats ok len (stats (pr w (twin d)))"
      "stats (pr w' d) = tx_stats len (stats (pr w d))" using c w2(13) len by (simp_all add: on_priv_def)
  moreover have "snull_tx E skb d w = Inr (0, w')" using w2(1,13) w'(1) by simp
  moreover have "queue_stopped (devs w' d) \<longrightarrow> queue_stopped (devs w d)" using p w2(10) by auto
  moreover have "quiet pool w'" using w'(2) s q by (simp add: quiet_def)
  ultimately show ?thesis using p w2 s by (intro exI [of _ w'] conjI allI) simp_all
qed

end
