(* ===== verification/Snull_Load.thy ===== *)
theory Snull_Load
  imports Snull_Regular
begin

unbundle bit_operations_syntax

text \<open>
  Loading the driver, transmitting in NAPI mode, and the calls the kernel makes in between.
  \<open>pool_list\<close> is the list of buffers \<open>snull_setup_pool\<close> builds; \<open>snull_call\<close> is one call into the
  driver with the kernel's own bookkeeping (\<open>IFF_UP\<close>, the buffer handed over), \<open>call_ok\<close> says when
  the kernel makes it, and \<open>snull_reach\<close> collects the states sequences of such calls lead to.
\<close>

section \<open>Transmission under NAPI\<close>

lemma napi_rx_irq_eq:
  assumes "\<not> plock (pr w d)" "status (pr w d) = SNULL_RX_INTR"
  shows "snull_napi_interrupt E (Some d) w = Inr (IRQ_HANDLED,
     upd_priv d (\<lambda>p. p\<lparr>status := 0, rx_int_enabled := 0, napi_scheduled := napi_scheduled p \<or> napi_enabled p\<rparr>) w)"
  using assms
  by (auto simp: napi_interrupt_eq irq_tx_def irq_enter_def napi_schedule_def snull_rx_ints_def spin_unlock_def
      upd_priv_def upd_dev_def fun_eq_iff intro!: sworld.equality snull_dev.equality snull_priv.equality)

definition napi_rx :: "snull_priv \<Rightarrow> snull_priv" where
  "napi_rx p = (if rx_int_enabled p \<noteq> 0
     then p\<lparr>status := 0, rx_int_enabled := 0, napi_scheduled := napi_scheduled p \<or> napi_enabled p\<rparr> else p)"

lemma tx_signal_napi:
  assumes E: "use_napi E" "lockup E = 0" and lk: "\<not> plock (pr w d)" "\<not> plock (pr w (twin d))"
    and st: "status (pr w d) = 0" "status (pr w (twin d)) = 0"
    and skb: "priv_skb (pr w d) = Some skb" "skbs w skb \<noteq> None"
  shows "tx_signal E d len buf w = Inr
    ((upd_priv d (\<lambda>p. p\<lparr>tx_packetlen := len, tx_packetdata := buf, stats := tx_stats len (stats p)\<rparr>)
       (upd_priv (twin d) napi_rx w))\<lparr>skbs := (skbs w)(skb := None), slog := slog w @ [KfreeSkb skb]\<rparr>)"
proof -
  let ?w1 = "upd_priv (twin d) napi_rx w"
  have 1: "(if rx_int_enabled (pr w (twin d)) \<noteq> 0
            then rbind (snull_interrupt E (Some (twin d))
                   (upd_priv (twin d) (\<lambda>p. p\<lparr>status := status p OR SNULL_RX_INTR\<rparr>) w))
                   (\<lambda>(_, w). Inr w)
            else Inr w) = Inr ?w1"
    using E lk st
    by (auto simp: snull_interrupt_def napi_rx_irq_eq upd_priv_def snull_simps napi_rx_def upd_dev_def fun_eq_iff
        intro!: sworld.equality snull_dev.equality snull_priv.equality)
  let ?w2 = "upd_priv d (\<lambda>p. p\<lparr>tx_packetlen := len, tx_packetdata := buf, status := status p OR SNULL_TX_INTR\<rparr>) ?w1"
  have 2: "\<not> plock (pr ?w2 d)" "status (pr ?w2 d) = SNULL_TX_INTR" "priv_skb (pr ?w2 d) = Some skb" "skbs ?w2 skb \<noteq> None"
    using lk st skb by (simp_all add: upd_priv_def snull_simps)
  show ?thesis unfolding tx_signal_def 1 rbind_Inr Let_def using E tx_irq_eq [OF 2, of E] st
    by (auto simp: upd_priv_def upd_dev_def fun_eq_iff
        intro!: sworld.equality snull_dev.equality snull_priv.equality)
qed

lemma tx_napi_ok:
  assumes E: "use_napi E" "lockup E = 0" and inv: "bufs_inv None pool rxq [] w" and a: "pool d = a # as"
    and st: "status (pr w d) = 0" "status (pr w (twin d)) = 0"
    and skb: "skbs w skb = Some data" and buf: "snull_rewrite E (padded data) = Inr buf" "length data \<le> ETH_DATA_LEN"
  shows "\<exists>w'. snull_tx E skb d w = Inr (0, w')
    \<and> bufs_inv None (pool(d := as)) (rxq(twin d := a # rxq (twin d))) [] w' \<and> owner w' = owner w
    \<and> frames w' (a # rxq (twin d)) = buf # frames w (rxq (twin d))
    \<and> skbs w' = (skbs w)(skb := None) \<and> slog w' = slog w @ [KfreeSkb skb] \<and> nallocs w' = nallocs w
    \<and> priv_skb (pr w' d) = Some skb \<and> status (pr w' d) = 0 \<and> status (pr w' (twin d)) = 0
    \<and> stats (pr w' d) = tx_stats (int (length buf)) (stats (pr w d))
    \<and> queue_stopped (devs w' d) = (queue_stopped (devs w d) \<or> as = [])
    \<and> rx_int_enabled (pr w' (twin d)) = 0
    \<and> napi_scheduled (pr w' (twin d)) = (napi_scheduled (pr w (twin d))
         \<or> rx_int_enabled (pr w (twin d)) \<noteq> 0 \<and> napi_enabled (pr w (twin d)))"
proof -
  obtain w2 pk where w2: "snull_tx E skb d w = rbind (tx_signal E d (int (length buf)) buf w2) (\<lambda>w. Inr (0, w))"
     "bufs_inv None (pool(d := as)) (rxq(twin d := a # rxq (twin d))) [] w2" "owner w2 = owner w"
     "slog w2 = slog w" "nallocs w2 = nallocs w"
     "skbs w2 skb \<noteq> None" "(skbs w2)(skb := None) = (skbs w)(skb := None)"
     "dcore (devs w2 d) = dcore (on_priv (\<lambda>p. p\<lparr>priv_skb := Some skb\<rparr>) (devs w d))"
     "dcore (devs w2 (twin d)) = dcore (devs w (twin d))"
     "queue_stopped (devs w2 d) = (queue_stopped (devs w d) \<or> as = [])"
     "pkts w2 a = Some pk" "payload pk = buf" "\<forall>b. b \<noteq> a \<longrightarrow> pkts w2 b = pkts w b"
    using tx_prepare [OF inv a skb buf] by (elim exE conjE) (rule that; assumption)
  note c = dcore_priv [OF w2(8)] dcore_priv [OF w2(9)]
  have s2: "status (pr w2 d) = 0" "status (pr w2 (twin d)) = 0" "priv_skb (pr w2 d) = Some skb"
    using c st by (simp_all add: on_priv_def)
  let ?w1 = "upd_priv d (\<lambda>p. p\<lparr>tx_packetlen := int (length buf), tx_packetdata := buf,
       stats := tx_stats (int (length buf)) (stats p)\<rparr>) (upd_priv (twin d) napi_rx w2)"
  let ?w' = "?w1\<lparr>skbs := (skbs w2)(skb := None), slog := slog w2 @ [KfreeSkb skb]\<rparr>"
  have run: "snull_tx E skb d w = Inr (0, ?w')"
    using tx_signal_napi [OF E bufs_inv_free [OF w2(2)] bufs_inv_free [OF w2(2)] s2 w2(6)] w2(1) by simp
  have "a \<notin> set (rxq (twin d))"
    using inv a all_bufs_sym(1) [of pool rxq "[]" d] by (auto simp: bufs_inv_def all_bufs_def)
  then have "frames ?w' (a # rxq (twin d)) = buf # frames w (rxq (twin d))"
    using w2(11-13) by (auto simp: frames_def upd_priv_def snull_simps)
  moreover have "bufs_inv None (pool(d := as)) (rxq(twin d := a # rxq (twin d))) [] ?w'"
    unfolding bufs_inv_other by (intro bufs_inv_upd_priv w2(2)) (simp_all add: napi_rx_def)
  ultimately show ?thesis using run w2(3-5,7,10) c s2
    by (intro exI [of _ ?w'] conjI) (simp_all add: upd_priv_def snull_simps napi_rx_def on_priv_def)
qed

section \<open>Building the pool\<close>

fun pool_list :: "(nat \<Rightarrow> nat option) \<Rightarrow> nat \<Rightarrow> nat \<Rightarrow> nat list \<Rightarrow> nat list" where
  "pool_list alloc i 0 acc = acc"
| "pool_list alloc i (Suc n) acc =
     (case alloc i of None \<Rightarrow> acc | Some a \<Rightarrow> pool_list alloc (Suc i) n (a # acc))"

definition pool_of :: "snull_env \<Rightarrow> sdev \<Rightarrow> nat list" where
  "pool_of E d = pool_list (kmalloc E d) 0 (nat (pool_size E)) []"

text \<open>\<open>kmalloc\<close> never returns memory that is still in use, across both devices.\<close>

definition kmalloc_ok :: "snull_env \<Rightarrow> bool" where
  "kmalloc_ok E \<longleftrightarrow> (\<forall>d i d' i' a. kmalloc E d i = Some a \<and> kmalloc E d' i' = Some a \<longrightarrow> d' = d \<and> i' = i)"

lemma bufs_inv_new:
  assumes "bufs_inv L pool rxq hand w" "pkts w a = None" "length (pdata pk) = ETH_DATA_LEN"
  shows "bufs_inv L pool rxq (a # hand) (set_pkt a pk w)"
proof -
  have a: "a \<notin> set (all_bufs pool rxq hand SN0)" using assms(1,2) by (auto simp: bufs_inv_def)
  then have "a \<notin> set (pool d)" "a \<notin> set (rxq d)" for d by (cases d; simp add: all_bufs_def)+
  then show ?thesis using a assms by (auto simp: bufs_inv_def snull_simps all_bufs_def)
qed

lemma setup_pool_loop_inv:
  assumes "kmalloc_ok E"
  shows "bufs_inv None pool rxq [] w \<Longrightarrow> \<forall>j \<ge> i. \<forall>a. kmalloc E d j = Some a \<longrightarrow> pkts w a = None \<Longrightarrow>
    bufs_inv None (pool(d := pool_list (kmalloc E d) i n (pool d))) rxq [] (setup_pool_loop E d i n w)"
proof (induction n arbitrary: i pool w)
  case (Suc n)
  show ?case
  proof (cases "kmalloc E d i")
    case None
    then show ?thesis using Suc.prems by simp
  next
    case (Some a)
    let ?pk = "\<lparr>pkt_next = ppool (pr w d), pkt_dev = d, datalen = 0, pdata = replicate ETH_DATA_LEN 0\<rparr>"
    let ?w = "upd_priv d (\<lambda>p. p\<lparr>ppool := Some a\<rparr>) (set_pkt a ?pk w)"
    have "bufs_inv None pool rxq [a] (set_pkt a ?pk w)"
      using Suc.prems Some by (intro bufs_inv_new) auto
    then have "bufs_inv None (pool(d := a # pool d)) rxq [] ?w"
      by (rule bufs_inv_push_pool) (auto simp: snull_simps upd_priv_def)
    moreover have "\<forall>j \<ge> Suc i. \<forall>b. kmalloc E d j = Some b \<longrightarrow> pkts ?w b = None"
    proof (intro allI impI)
      fix j b assume j: "Suc i \<le> j" "kmalloc E d j = Some b"
      then have "b \<noteq> a" using assms Some unfolding kmalloc_ok_def by (metis Suc_n_not_le_n)
      moreover have "i \<le> j" using j(1) by simp
      ultimately show "pkts ?w b = None" using j(2) Suc.prems(2) by (auto simp: snull_simps upd_priv_def)
    qed
    ultimately have "bufs_inv None ((pool(d := a # pool d))(d := pool_list (kmalloc E d) (Suc i) n ((pool(d := a # pool d)) d)))
        rxq [] (setup_pool_loop E d (Suc i) n ?w)"
      by (rule Suc.IH)
    then show ?thesis using Some by (simp add: Let_def fun_upd_same del: fun_upd_apply)
  qed
qed simp

lemma setup_pool_loop_other:
  "devs (setup_pool_loop E d i n w) (twin d) = devs w (twin d) \<and> skbs (setup_pool_loop E d i n w) = skbs w
   \<and> slog (setup_pool_loop E d i n w) = slog w \<and> snull_devs (setup_pool_loop E d i n w) = snull_devs w
   \<and> dcore (devs (setup_pool_loop E d i n w) d) = dcore (devs w d)
   \<and> (\<forall>a. (\<forall>j. kmalloc E d j \<noteq> Some a) \<longrightarrow> pkts (setup_pool_loop E d i n w) a = pkts w a)"
  by (induction n arbitrary: i w) (auto simp: Let_def snull_simps upd_priv_def dcore_def set_pkt_def split: option.splits)

lemma snull_init_inv:
  assumes E: "kmalloc_ok E" and inv: "bufs_inv None pool rxq [] w" and e: "pool d = []" "rxq d = []"
    and fresh: "\<forall>j a. kmalloc E d j = Some a \<longrightarrow> pkts w a = None"
  shows "bufs_inv None (pool(d := pool_of E d)) rxq [] (snull_init E d w)"
proof -
  define w1 where "w1 = upd_priv d (\<lambda>p. p\<lparr>ppool := None\<rparr>) (snull_rx_ints d 1 (upd_priv d (\<lambda>_. zero_priv)
    (upd_dev d (\<lambda>x. x\<lparr>watchdog_timeo := timeout E, dev_flags := dev_flags x OR IFF_NOARP, min_mtu := 68, max_mtu := 1500\<rparr>)
      (upd_dev d (ether_setup E) w))))"
  have p: "pkts w1 = pkts w" "pr w1 d = zero_priv\<lparr>rx_int_enabled := 1\<rparr>" "pr w1 (twin d) = pr w (twin d)"
    by (simp_all add: w1_def snull_rx_ints_def upd_priv_def snull_simps zero_priv_def)
  have "lst (pkts w1) (ppool (pr w1 d')) (pool d') \<and> lst (pkts w1) (rx_queue (pr w1 d')) (rxq d') \<and> \<not> plock (pr w1 d')" for d'
    by (rule both_devs [of _ d]) (use inv e p in \<open>simp_all add: bufs_inv_def zero_priv_def\<close>)
  then have "bufs_inv None pool rxq [] w1" using inv p(1) by (simp add: bufs_inv_def)
  then have "bufs_inv None (pool(d := pool_list (kmalloc E d) 0 (nat (pool_size E)) (pool d))) rxq []
      (setup_pool_loop E d 0 (nat (pool_size E)) w1)"
    using fresh p(1) by (intro setup_pool_loop_inv E) simp_all
  moreover have "snull_init E d w = setup_pool_loop E d 0 (nat (pool_size E)) w1"
    by (simp add: snull_init_def snull_setup_pool_def w1_def Let_def)
  ultimately show ?thesis using e by (simp add: pool_of_def)
qed

section \<open>Tearing the pool down\<close>

lemma bufs_inv_kfree:
  assumes inv: "bufs_inv L pool rxq (a # hand) w"
  shows "bufs_inv L pool rxq hand (w\<lparr>pkts := (pkts w)(a := None)\<rparr>)"
proof -
  note h = bufs_inv_hand [OF inv]
  have "dom ((pkts w)(a := None)) = set (all_bufs pool rxq hand SN0)" "distinct (all_bufs pool rxq hand SN0)"
    using inv by (auto simp: bufs_inv_def all_bufs_def)
  then show ?thesis using inv h(1,2) by (auto simp: bufs_inv_def)
qed

lemma teardown_inv:
  "bufs_inv None pool rxq hand w \<Longrightarrow> length (pool d) < fuel \<Longrightarrow>
   \<exists>w'. snull_teardown_pool fuel d w = Inr w' \<and> bufs_inv None (pool(d := [])) rxq hand w'
     \<and> slog w' = slog w \<and> skbs w' = skbs w \<and> snull_devs w' = snull_devs w
     \<and> devs w' (twin d) = devs w (twin d) \<and> dcore (devs w' d) = dcore (devs w d)"
proof (induction fuel arbitrary: pool w)
  case (Suc fuel)
  have l: "lst (pkts w) (ppool (pr w d)) (pool d)" using Suc.prems(1) by (simp add: bufs_inv_def)
  show ?case
  proof (cases "pool d")
    case Nil
    then show ?thesis using Suc.prems(1) l fun_upd_triv [of pool d] by simp
  next
    case (Cons a as)
    then obtain pk where pk: "ppool (pr w d) = Some a" "pkts w a = Some pk" using l by auto
    let ?w1 = "upd_priv d (\<lambda>p. p\<lparr>ppool := pkt_next pk\<rparr>) w"
    let ?w2 = "?w1\<lparr>pkts := (pkts ?w1)(a := None)\<rparr>"
    have "bufs_inv None (pool(d := as)) rxq (a # hand) ?w1"
      by (rule bufs_inv_pop_pool [OF Suc.prems(1) Cons]) (auto simp: snull_simps upd_priv_def pk)
    then have i2: "bufs_inv None (pool(d := as)) rxq hand ?w2" by (rule bufs_inv_kfree)
    have f2: "length ((pool(d := as)) d) < fuel" using Suc.prems(2) Cons by simp
    obtain w' where "snull_teardown_pool fuel d ?w2 = Inr w'"
        "bufs_inv None ((pool(d := as))(d := [])) rxq hand w'" "slog w' = slog ?w2" "skbs w' = skbs ?w2"
        "snull_devs w' = snull_devs ?w2" "devs w' (twin d) = devs ?w2 (twin d)" "dcore (devs w' d) = dcore (devs ?w2 d)"
      using Suc.IH [OF i2 f2] by (elim exE conjE) (rule that; assumption)
    then show ?thesis using pk
      by (intro exI [of _ w'] conjI) (simp_all add: Let_def upd_priv_def snull_simps dcore_def del: fun_upd_apply)
  qed
qed simp

lemma cleanup_dev_inv:
  assumes inv: "bufs_inv None pool rxq hand w" and dev: "snull_devs w d" and fuel: "length (pool d) < fuel"
  shows "\<exists>w'. cleanup_dev E fuel d w = Inr w' \<and> bufs_inv None (pool(d := [])) rxq hand w'
     \<and> slog w' = slog w @ [UnregisterNetdev d (registered (devs w d)), FreeNetdev d] \<and> snull_devs w' = snull_devs w
     \<and> devs w' (twin d) = devs w (twin d) \<and> skbs w' = skbs w"
proof -
  let ?w1 = "if use_napi E then upd_priv d (\<lambda>p. p\<lparr>napi_scheduled := False\<rparr>) w else w"
  let ?w2 = "upd_dev d (\<lambda>x. x\<lparr>registered := False\<rparr>) (?w1\<lparr>slog := slog ?w1 @ [UnregisterNetdev d (registered (devs ?w1 d))]\<rparr>)"
  have "bufs_inv None pool rxq hand ?w1" using bufs_inv_upd_priv [OF inv] inv by simp
  then have i2: "bufs_inv None pool rxq hand ?w2" by (intro bufs_inv_upd_dev) (simp_all only: bufs_inv_other, simp)
  obtain w' where w': "snull_teardown_pool fuel d ?w2 = Inr w'" "bufs_inv None (pool(d := [])) rxq hand w'"
     "slog w' = slog ?w2" "skbs w' = skbs ?w2" "snull_devs w' = snull_devs ?w2" "devs w' (twin d) = devs ?w2 (twin d)"
    using teardown_inv [OF i2 fuel] by (elim exE conjE) (rule that; assumption)
  then show ?thesis using dev
    by (intro exI [of _ "w'\<lparr>slog := slog w' @ [FreeNetdev d]\<rparr>"] conjI)
      (simp_all add: cleanup_dev_def Let_def upd_priv_def snull_simps bufs_inv_other)
qed

text \<open>
  Unloading frees both pools and nothing else: a buffer still on a receive queue stays
  allocated (the FIXME of \<open>snull_teardown_pool\<close>).
\<close>

lemma snull_cleanup_inv:
  assumes inv: "bufs_inv None pool rxq [] w" and dev: "\<And>d. snull_devs w d" and fuel: "\<And>d. length (pool d) < fuel"
  shows "\<exists>w'. snull_cleanup E fuel w = Inr w' \<and> bufs_inv None (\<lambda>_. []) rxq [] w'
     \<and> dom (pkts w') = set (rxq SN0) \<union> set (rxq SN1)
     \<and> slog w' = slog w @ [UnregisterNetdev SN0 (registered (devs w SN0)), FreeNetdev SN0,
         UnregisterNetdev SN1 (registered (devs w SN1)), FreeNetdev SN1]"
proof -
  obtain w1 where w1: "cleanup_dev E fuel SN0 w = Inr w1" "bufs_inv None (pool(SN0 := [])) rxq [] w1"
     "slog w1 = slog w @ [UnregisterNetdev SN0 (registered (devs w SN0)), FreeNetdev SN0]" "snull_devs w1 = snull_devs w"
     "devs w1 (twin SN0) = devs w (twin SN0)"
    using cleanup_dev_inv [OF inv dev [of SN0] fuel, of E] by (elim exE conjE) (rule that; assumption)
  have f: "length ((pool(SN0 := [])) SN1) < fuel" "snull_devs w1 SN1" using fuel dev w1(4) by simp_all
  obtain w2 where w2: "cleanup_dev E fuel SN1 w1 = Inr w2" "bufs_inv None ((pool(SN0 := []))(SN1 := [])) rxq [] w2"
     "slog w2 = slog w1 @ [UnregisterNetdev SN1 (registered (devs w1 SN1)), FreeNetdev SN1]"
    using cleanup_dev_inv [OF w1(2) f(2,1), of E] by (elim exE conjE) (rule that; assumption)
  have e: "(pool(SN0 := []))(SN1 := []) = (\<lambda>_. [])" by (auto simp: fun_eq_iff) (metis sdev.exhaust)
  have "dom (pkts w2) = set (rxq SN0) \<union> set (rxq SN1)"
    using w2(2) unfolding e by (simp add: bufs_inv_def all_bufs_def)
  then show ?thesis using w1 w2 unfolding e snull_cleanup_def by (intro exI [of _ w2]) simp
qed

section \<open>Loading\<close>

text \<open>The world before the module is loaded: no packet buffers, no devices.\<close>

definition boot :: "sworld \<Rightarrow> bool" where
  "boot w \<longleftrightarrow> pkts w = (\<lambda>_. None) \<and> (\<forall>d. pr w d = zero_priv)"

text \<open>\<open>ether_setup\<close> makes a broadcast, multicast Ethernet device; it does not bring it up.\<close>

definition ether_setup_ok :: "snull_env \<Rightarrow> bool" where
  "ether_setup_ok E \<longleftrightarrow> (\<forall>x. dev_flags (ether_setup E x) AND IFF_UP = 0)"

lemma snull_init_dev:
  "pr (snull_init E d w) (twin d) = pr w (twin d)" "devs (snull_init E d w) (twin d) = devs w (twin d)"
  "status (pr (snull_init E d w) d) = 0" "rx_int_enabled (pr (snull_init E d w) d) = 1"
  "\<not> napi_scheduled (pr (snull_init E d w) d)" "stats (pr (snull_init E d w) d) = zero_stats"
  "dev_flags (devs (snull_init E d w) d) = dev_flags (ether_setup E (devs w d)) OR IFF_NOARP"
  "snull_devs (snull_init E d w) = snull_devs w" "skbs (snull_init E d w) = skbs w" "slog (snull_init E d w) = slog w"
  "\<forall>j. kmalloc E d j \<noteq> Some a \<Longrightarrow> pkts (snull_init E d w) a = pkts w a"
proof -
  define w1 where "w1 = upd_priv d (\<lambda>p. p\<lparr>ppool := None\<rparr>) (snull_rx_ints d 1 (upd_priv d (\<lambda>_. zero_priv)
    (upd_dev d (\<lambda>x. x\<lparr>watchdog_timeo := timeout E, dev_flags := dev_flags x OR IFF_NOARP, min_mtu := 68, max_mtu := 1500\<rparr>)
      (upd_dev d (ether_setup E) w))))"
  have i: "snull_init E d w = setup_pool_loop E d 0 (nat (pool_size E)) w1"
    by (simp add: snull_init_def snull_setup_pool_def w1_def Let_def)
  note o = setup_pool_loop_other [of E d 0 "nat (pool_size E)" w1]
  have c: "dcore (devs (snull_init E d w) d) = dcore (devs w1 d)" using o unfolding i by blast
  have w1: "devs w1 (twin d) = devs w (twin d)" "pkts w1 = pkts w" "skbs w1 = skbs w" "slog w1 = slog w"
    "snull_devs w1 = snull_devs w" "pr w1 d = zero_priv\<lparr>rx_int_enabled := 1\<rparr>"
    "dev_flags (devs w1 d) = dev_flags (ether_setup E (devs w d)) OR IFF_NOARP"
    by (simp_all add: w1_def snull_rx_ints_def upd_priv_def snull_simps zero_priv_def)
  show "pr (snull_init E d w) (twin d) = pr w (twin d)" "devs (snull_init E d w) (twin d) = devs w (twin d)"
    "snull_devs (snull_init E d w) = snull_devs w" "skbs (snull_init E d w) = skbs w" "slog (snull_init E d w) = slog w"
    using o w1 unfolding i by simp_all
  show "status (pr (snull_init E d w) d) = 0" "rx_int_enabled (pr (snull_init E d w) d) = 1"
    "\<not> napi_scheduled (pr (snull_init E d w) d)" "stats (pr (snull_init E d w) d) = zero_stats"
    "dev_flags (devs (snull_init E d w) d) = dev_flags (ether_setup E (devs w d)) OR IFF_NOARP"
    using dcore_priv [OF c] w1 by (simp_all add: zero_priv_def)
  show "\<forall>j. kmalloc E d j \<noteq> Some a \<Longrightarrow> pkts (snull_init E d w) a = pkts w a"
    using o w1(2) unfolding i by simp
qed

lemma alloc_both_inv:
  assumes E: "kmalloc_ok E" and b: "boot w"
  shows "bufs_inv None (pool_of E) (\<lambda>_. []) [] (snull_init E SN1 (snull_init E SN0 w))"
proof -
  have "bufs_inv None (\<lambda>_. []) (\<lambda>_. []) [] w"
    using b by (simp add: boot_def bufs_inv_def all_bufs_def zero_priv_def)
  then have "bufs_inv None ((\<lambda>_. [])(SN0 := pool_of E SN0)) (\<lambda>_. []) [] (snull_init E SN0 w)"
    using b by (intro snull_init_inv E) (simp_all add: boot_def)
  moreover have "pkts (snull_init E SN0 w) a = None" if "kmalloc E SN1 j = Some a" for j a
    using that E snull_init_dev(11) [of E SN0 a w] b unfolding kmalloc_ok_def boot_def by (metis sdev.distinct(1))
  ultimately have "bufs_inv None (((\<lambda>_. [])(SN0 := pool_of E SN0))(SN1 := pool_of E SN1)) (\<lambda>_. []) []
      (snull_init E SN1 (snull_init E SN0 w))"
    by (intro snull_init_inv [OF E, where d = SN1]) auto
  moreover have "((\<lambda>_. [])(SN0 := pool_of E SN0))(SN1 := pool_of E SN1) = pool_of E"
    by (auto simp: fun_eq_iff) (metis sdev.exhaust)
  ultimately show ?thesis by simp
qed

lemma setup_pool_loop_snull_devs:
  "setup_pool_loop E d i n (w\<lparr>snull_devs := f\<rparr>) = (setup_pool_loop E d i n w)\<lparr>snull_devs := f\<rparr>"
proof (induction n arbitrary: i w)
  case (Suc n)
  have "upd_priv d g (set_pkt a pk (w\<lparr>snull_devs := f\<rparr>)) = (upd_priv d g (set_pkt a pk w))\<lparr>snull_devs := f\<rparr>" for g a pk
    by (simp add: upd_priv_def upd_dev_def set_pkt_def)
  then show ?case by (simp add: Let_def Suc.IH split: option.split)
qed simp

lemma snull_init_snull_devs: "snull_init E d (w\<lparr>snull_devs := f\<rparr>) = (snull_init E d w)\<lparr>snull_devs := f\<rparr>"
proof -
  have "upd_dev d g (v\<lparr>snull_devs := f\<rparr>) = (upd_dev d g v)\<lparr>snull_devs := f\<rparr>" for g v
    by (cases v) (simp add: upd_dev_def)
  then show ?thesis
    by (simp add: snull_init_def snull_setup_pool_def Let_def setup_pool_loop_snull_devs snull_rx_ints_def upd_priv_def)
qed

lemma alloc_both:
  assumes "alloc SN0" "alloc SN1"
  shows "alloc_dev E alloc SN1 (alloc_dev E alloc SN0 w) =
    (snull_init E SN1 (snull_init E SN0 w))\<lparr>snull_devs := (snull_devs w)(SN0 := True, SN1 := True)\<rparr>"
  using assms by (simp add: alloc_dev_def Let_def snull_init_snull_devs snull_init_dev(8))

text \<open>Both devices as they are after allocation and before registration.\<close>

lemma alloc_both_quiet:
  assumes E: "kmalloc_ok E" "ether_setup_ok E" and b: "boot w"
    and w1: "w1 = (snull_init E SN1 (snull_init E SN0 w))\<lparr>snull_devs := f\<rparr>"
  shows "quiet (pool_of E) w1 \<and> (\<forall>d. dev_flags (devs w1 d) AND IFF_UP = 0) \<and> skbs w1 = skbs w \<and> slog w1 = slog w"
proof -
  have i: "bufs_inv None (pool_of E) (\<lambda>_. []) [] w1"
    using alloc_both_inv [OF E(1) b] by (simp add: w1 bufs_inv_def)
  have up: "(x OR IFF_NOARP) AND IFF_UP = 0" if "x AND IFF_UP = 0" for x :: u32
    using that by (simp add: bit.conj_disj_distrib2)
  have s: "status (pr w1 d) = 0 \<and> rx_int_enabled (pr w1 d) = 1 \<and> \<not> napi_scheduled (pr w1 d)
      \<and> dev_flags (devs w1 d) AND IFF_UP = 0" for d
  proof (rule both_devs [of _ SN1])
    show "status (pr w1 SN1) = 0 \<and> rx_int_enabled (pr w1 SN1) = 1 \<and> \<not> napi_scheduled (pr w1 SN1)
      \<and> dev_flags (devs w1 SN1) AND IFF_UP = 0"
      using snull_init_dev(3-5,7) [of E SN1] E(2) up by (simp add: w1 ether_setup_ok_def)
    show "status (pr w1 (twin SN1)) = 0 \<and> rx_int_enabled (pr w1 (twin SN1)) = 1 \<and> \<not> napi_scheduled (pr w1 (twin SN1))
      \<and> dev_flags (devs w1 (twin SN1)) AND IFF_UP = 0"
      using snull_init_dev(3-5,7) [of E SN0] snull_init_dev(2) [of E SN1] E(2) up by (simp add: w1 ether_setup_ok_def)
  qed
  show ?thesis using i s by (simp add: quiet_def w1 snull_init_dev(9,10))
qed

text \<open>A successful load leaves both devices quiet and down.\<close>

lemma register_dev_cases:
  "\<exists>w'. register_dev reg d (r, w) = (if reg d = 0 then 0 else r, w') \<and>
     (w' = w \<or> w' = upd_dev d (\<lambda>x. x\<lparr>registered := True\<rparr>) w)"
  by (simp add: register_dev_def)

lemma quiet_registered:
  assumes "quiet pool w" "\<forall>d. dev_flags (devs w d) AND IFF_UP = 0" "w' = w \<or> w' = upd_dev x (\<lambda>x. x\<lparr>registered := True\<rparr>) w"
  shows "quiet pool w' \<and> (\<forall>d. dev_flags (devs w' d) AND IFF_UP = 0) \<and> skbs w' = skbs w \<and> snull_devs w' = snull_devs w
    \<and> owner w' = owner w \<and> slog w' = slog w"
  using assms bufs_inv_upd_dev [of None pool "\<lambda>_. []" "[]" w "\<lambda>x. x\<lparr>registered := True\<rparr>" x]
  by (auto simp: quiet_def snull_simps split: if_splits)

lemma load_quiet:
  assumes E: "kmalloc_ok E" "ether_setup_ok E" and b: "boot w"
    and run: "snull_init_module E fuel alloc reg w = Inr (0, w')"
  shows "quiet (pool_of E) w' \<and> (\<forall>d. dev_flags (devs w' d) AND IFF_UP = 0) \<and> (\<forall>d. snull_devs w' d)
    \<and> skbs w' = skbs w"
proof -
  let ?w1 = "alloc_dev E alloc SN1 (alloc_dev E alloc SN0 w)"
  have sd: "snull_devs ?w1 SN0 = alloc SN0" "snull_devs ?w1 SN1 = alloc SN1"
    by (simp_all add: alloc_dev_def Let_def snull_init_dev)
  then have al: "alloc SN0" "alloc SN1"
    using run by (auto simp: snull_init_module_def Let_def rbind_eq_Inr split: if_splits)
  note w1 = alloc_both_quiet [OF E b alloc_both [OF al]]
  obtain w2 where w2: "register_dev reg SN0 (- ENODEV, ?w1) = (if reg SN0 = 0 then 0 else - ENODEV, w2)"
      "w2 = ?w1 \<or> w2 = upd_dev SN0 (\<lambda>x. x\<lparr>registered := True\<rparr>) ?w1"
    using register_dev_cases by blast
  obtain w3 where w3: "register_dev reg SN1 (if reg SN0 = 0 then 0 else - ENODEV, w2) =
       (if reg SN1 = 0 then 0 else if reg SN0 = 0 then 0 else - ENODEV, w3)"
      "w3 = w2 \<or> w3 = upd_dev SN1 (\<lambda>x. x\<lparr>registered := True\<rparr>) w2"
    using register_dev_cases by blast
  have "w' = w3"
    using run sd al by (auto simp: snull_init_module_def Let_def w2(1) w3(1) rbind_eq_Inr split: if_splits)
  moreover have "snull_devs ?w1 d" for d using sd al by (cases d) simp_all
  ultimately show ?thesis
    using quiet_registered [OF _ _ w2(2)] quiet_registered [OF _ _ w3(2)] w1 by metis
qed

lemma failed_load:
  assumes E: "kmalloc_ok E" "ether_setup_ok E" and b: "boot w"
    and al: "alloc SN0" "alloc SN1" and reg: "reg SN0 \<noteq> 0" "reg SN1 \<noteq> 0" and fuel: "nat (pool_size E) < fuel"
    and un: "\<And>d. registered (devs (alloc_dev E alloc SN1 (alloc_dev E alloc SN0 w)) d) = False"
  shows "\<exists>w'. snull_init_module E fuel alloc reg w = Inr (- ENODEV, w') \<and> pkts w' = (\<lambda>_. None)
    \<and> slog w' = slog w @ [UnregisterNetdev SN0 False, FreeNetdev SN0, UnregisterNetdev SN1 False, FreeNetdev SN1]"
proof -
  let ?w1 = "alloc_dev E alloc SN1 (alloc_dev E alloc SN0 w)"
  have w1: "quiet (pool_of E) ?w1" "slog ?w1 = slog w" using alloc_both_quiet [OF E b alloc_both [OF al]] by auto
  have sd: "snull_devs ?w1 d" for d using al by (cases d) (simp_all add: alloc_dev_def Let_def snull_init_dev)
  have len: "length (pool_list f i n acc) \<le> n + length acc" for f i n acc
    by (induction f i n acc rule: pool_list.induct) (auto split: option.splits)
  have "length (pool_of E d) < fuel" for d
    using len [of "kmalloc E d" 0 "nat (pool_size E)" "[]"] fuel by (simp add: pool_of_def)
  then obtain w' where w': "snull_cleanup E fuel ?w1 = Inr w'" "dom (pkts w') = set [] \<union> set []"
      "slog w' = slog ?w1 @ [UnregisterNetdev SN0 (registered (devs ?w1 SN0)), FreeNetdev SN0,
        UnregisterNetdev SN1 (registered (devs ?w1 SN1)), FreeNetdev SN1]"
    using snull_cleanup_inv [of "pool_of E" "\<lambda>_. []" ?w1 fuel E] w1(1) sd unfolding quiet_def by metis
  have "snull_init_module E fuel alloc reg w = Inr (- ENODEV, w')"
    using w'(1) sd reg by (simp add: snull_init_module_def Let_def register_dev_def)
  then show ?thesis using w' un w1(2) by (intro exI [of _ w']) auto
qed

end
