(* ===== verification/Snull_Driver.thy ===== *)
theory Snull_Driver
  imports Snull_Load
begin

unbundle bit_operations_syntax

text \<open>
  The properties of the snull driver. \<open>snull_call\<close> is one call of the kernel into the driver;
  \<open>snull_reach\<close> the states reachable from a loaded driver by calls the kernel may make.
\<close>

section \<open>Calls\<close>

datatype scall =
    CTx nat sdev bytes
  | COpen sdev
  | CClose sdev
  | CTimeout sdev
  | CPoll sdev int
  | CMtu sdev int
  | CConfig sdev ifmap

definition is_up :: "sworld \<Rightarrow> sdev \<Rightarrow> bool" where
  "is_up w d \<longleftrightarrow> dev_flags (devs w d) AND IFF_UP \<noteq> 0"

text \<open>When the kernel makes the call: a fresh buffer on a running queue, a stalled queue, a scheduled poll.\<close>

fun call_ok :: "sworld \<Rightarrow> scall \<Rightarrow> bool" where
  "call_ok w (CTx skb d data) \<longleftrightarrow> is_up w d \<and> \<not> queue_stopped (devs w d) \<and> skbs w skb = None"
| "call_ok w (COpen d) \<longleftrightarrow> \<not> is_up w d"
| "call_ok w (CClose d) \<longleftrightarrow> is_up w d"
| "call_ok w (CTimeout d) \<longleftrightarrow> is_up w d \<and> queue_stopped (devs w d)"
| "call_ok w (CPoll d budget) \<longleftrightarrow> napi_scheduled (pr w d)"
| "call_ok w (CMtu d m) \<longleftrightarrow> True"
| "call_ok w (CConfig d m) \<longleftrightarrow> True"

definition set_up :: "sdev \<Rightarrow> bool \<Rightarrow> sworld \<Rightarrow> sworld" where
  "set_up d b w = upd_dev d (\<lambda>x. x\<lparr>dev_flags := if b then dev_flags x OR IFF_UP else dev_flags x AND NOT IFF_UP\<rparr>) w"

fun snull_call :: "snull_env \<Rightarrow> nat \<Rightarrow> scall \<Rightarrow> sworld \<Rightarrow> sworld res" where
  "snull_call E fuel (CTx skb d data) w =
     rbind (snull_tx E skb d (w\<lparr>skbs := (skbs w)(skb \<mapsto> data)\<rparr>)) (\<lambda>(_, w). Inr w)"
| "snull_call E fuel (COpen d) w = Inr (set_up d True (snd (snull_open E d w)))"
| "snull_call E fuel (CClose d) w = Inr (set_up d False (snd (snull_release E d w)))"
| "snull_call E fuel (CTimeout d) w = snull_tx_timeout E d w"
| "snull_call E fuel (CPoll d budget) w = rbind (snull_poll E fuel d budget w) (\<lambda>(_, w). Inr w)"
| "snull_call E fuel (CMtu d m) w = rbind (snull_change_mtu d m w) (\<lambda>(_, w). Inr w)"
| "snull_call E fuel (CConfig d m) w = Inr (snd (snull_config d m w))"

text \<open>\<open>P\<close> restricts the calls considered.\<close>

inductive snull_reach :: "snull_env \<Rightarrow> nat \<Rightarrow> (scall \<Rightarrow> bool) \<Rightarrow> sworld \<Rightarrow> sworld \<Rightarrow> bool"
  for E fuel P w0 where
  start: "snull_reach E fuel P w0 w0"
| call: "snull_reach E fuel P w0 w \<Longrightarrow> call_ok w c \<Longrightarrow> P c \<Longrightarrow> snull_call E fuel c w = Inr w' \<Longrightarrow>
         snull_reach E fuel P w0 w'"

section \<open>The invariant in every reachable state\<close>

lemma poll_loop_mono:
  "snull_poll_loop E d budget fuel n w = Inr r \<Longrightarrow> fuel \<le> fuel' \<Longrightarrow> snull_poll_loop E d budget fuel' n w = Inr r"
proof (induction fuel arbitrary: fuel' n w)
  case (Suc fuel)
  then obtain f where f: "fuel' = Suc f" "fuel \<le> f" by (cases fuel') auto
  show ?case using Suc.prems(1) Suc.IH [OF _ f(2)] unfolding f(1)
    by (auto simp: rbind_eq_Inr alloc_skb_def split: if_splits prod.splits)
qed simp

lemma poll_inv:
  assumes inv: "bufs_inv None pool rxq hand w" and run: "snull_poll E fuel d budget w = Inr (n, w')"
  shows "\<exists>pool' rxq'. bufs_inv None pool' rxq' hand w' \<and> owner w' = owner w"
proof -
  define f where "f = max fuel (Suc (length (rxq d)))"
  obtain r where r: "snull_poll_loop E d budget fuel 0 w = Inr r"
    using run by (auto simp: snull_poll_def rbind_eq_Inr)
  have "snull_poll_loop E d budget f 0 w = Inr r" by (rule poll_loop_mono [OF r]) (simp add: f_def)
  then have "snull_poll E f d budget w = Inr (n, w')" using run r by (simp add: snull_poll_def)
  moreover have "length (rxq d) < f" by (simp add: f_def)
  ultimately show ?thesis
    using snull_poll_total [OF inv, of d f E budget] by (metis Inr_inject Pair_inject surj_pair)
qed

lemma change_mtu_inv:
  assumes inv: "bufs_inv None pool rxq hand w" and run: "snull_change_mtu d m w = Inr (r, w')"
  shows "bufs_inv None pool rxq hand w' \<and> owner w' = owner w"
proof -
  have "bufs_inv None pool rxq hand (spin_unlock d (upd_dev d (\<lambda>x. x\<lparr>mtu := m\<rparr>) (upd_priv d (\<lambda>p. p\<lparr>plock := True\<rparr>) w)))"
    using bufs_inv_lock [OF inv, of d] by (intro bufs_inv_unlock bufs_inv_upd_dev) simp_all
  then show ?thesis using run inv bufs_inv_free [OF inv, of d]
    by (auto simp: snull_change_mtu_def split: if_splits)
qed

lemma snull_call_inv:
  assumes inv: "bufs_inv None pool rxq [] w" and run: "snull_call E fuel c w = Inr w'"
  shows "\<exists>pool' rxq'. bufs_inv None pool' rxq' [] w' \<and> owner w' = owner w"
proof (cases c)
  case (CTx skb d data)
  then show ?thesis using run tx_inv [of pool rxq "[]" "w\<lparr>skbs := (skbs w)(skb \<mapsto> data)\<rparr>"] inv
    by (fastforce simp: rbind_eq_Inr bufs_inv_other)
next
  case (COpen d)
  then have "bufs_inv None pool rxq [] w' \<and> owner w' = owner w"
    using run inv by (auto simp: snull_open_def set_up_def netif_start_queue_def Let_def
        intro!: bufs_inv_upd_dev bufs_inv_upd_priv)
  then show ?thesis by blast
next
  case (CClose d)
  then have "bufs_inv None pool rxq [] w' \<and> owner w' = owner w"
    using run inv by (auto simp: snull_release_def set_up_def netif_stop_queue_def Let_def
        intro!: bufs_inv_upd_dev bufs_inv_upd_priv)
  then show ?thesis by blast
next
  case (CTimeout d)
  then show ?thesis using tx_timeout_inv [OF inv] run by auto
next
  case (CPoll d b)
  then show ?thesis using poll_inv [OF inv] run by (fastforce simp: rbind_eq_Inr)
next
  case (CMtu d m)
  then show ?thesis using change_mtu_inv [OF inv] run by (fastforce simp: rbind_eq_Inr)
next
  case (CConfig d m)
  then have "bufs_inv None pool rxq [] w' \<and> owner w' = owner w"
    using run inv by (auto simp: snull_config_def intro!: bufs_inv_upd_dev)
  then show ?thesis by blast
qed

lemma snull_reach_inv:
  assumes "snull_reach E fuel P w0 w" "bufs_inv None pool rxq [] w0"
  shows "\<exists>pool' rxq'. bufs_inv None pool' rxq' [] w \<and> owner w = owner w0"
  using assms
proof (induction rule: snull_reach.induct)
  case (call w c w')
  then obtain pool' rxq' where "bufs_inv None pool' rxq' [] w" "owner w = owner w0" by blast
  with snull_call_inv [OF this(1) call.hyps(4)] show ?case by simp
qed blast

text \<open>The buffers owned by a device are those in its pool and those queued at its twin.\<close>

lemma bufs_inv_owned:
  assumes "bufs_inv None pool rxq [] w"
  shows "owner w a = Some d \<longleftrightarrow> a \<in> set (pool d) \<union> set (rxq (twin d))"
proof
  assume "owner w a = Some d"
  then obtain pk where pk: "pkts w a = Some pk" "pkt_dev pk = d" by (auto simp: owner_def)
  then have "a \<in> set (all_bufs pool rxq [] d)" using assms all_bufs_sym(2) [of pool rxq "[]" d]
    by (auto simp: bufs_inv_def)
  moreover have "a \<notin> set (pool (twin d))" using assms pk unfolding bufs_inv_def by (metis twin_neq(1))
  moreover have "a \<notin> set (rxq d)" using assms pk unfolding bufs_inv_def by (metis twin_neq(1))
  ultimately show "a \<in> set (pool d) \<union> set (rxq (twin d))" by (auto simp: all_bufs_def)
next
  assume a: "a \<in> set (pool d) \<union> set (rxq (twin d))"
  then obtain pk where pk: "pkts w a = Some pk"
    using bufs_inv_cell [OF assms, of a d] bufs_inv_cell [OF assms, of a "twin d"] by auto
  then have "pkt_dev pk = d" using a assms unfolding bufs_inv_def by (metis Un_iff twin_twin)
  then show "owner w a = Some d" using pk by (simp add: owner_def)
qed

section \<open>Interrupt-driven mode\<close>

definition reg_inv :: "(sdev \<Rightarrow> nat list) \<Rightarrow> sworld \<Rightarrow> bool" where
  "reg_inv pool w \<longleftrightarrow> quiet pool w \<and> (\<forall>d. is_up w d \<longrightarrow> \<not> queue_stopped (devs w d))"

fun good_call :: "scall \<Rightarrow> bool" where
  "good_call (CTx skb d data) = frame_ok data"
| "good_call _ = True"

text \<open>What a call that touches only the settings of \<open>d\<close> leaves of the invariant.\<close>

lemma reg_inv_upd_dev:
  assumes inv: "reg_inv pool w" and f: "\<And>x. priv (f x) = (priv x)\<lparr>napi_enabled := napi_enabled (priv (f x))\<rparr>"
    and up: "dev_flags (f (devs w d)) AND IFF_UP \<noteq> 0 \<Longrightarrow> \<not> queue_stopped (f (devs w d))"
  shows "reg_inv pool (upd_dev d f w)"
proof -
  have p: "ppool (priv (f x)) = ppool (priv x)" "rx_queue (priv (f x)) = rx_queue (priv x)"
    "plock (priv (f x)) = plock (priv x)" "status (priv (f x)) = status (priv x)"
    "rx_int_enabled (priv (f x)) = rx_int_enabled (priv x)" "napi_scheduled (priv (f x)) = napi_scheduled (priv x)" for x
    by (subst f, simp)+
  have "bufs_inv None pool (\<lambda>_. []) [] (upd_dev d f w)"
    by (rule bufs_inv_cong [of None pool "\<lambda>_. []" "[]" w])
       (use inv in \<open>auto simp: reg_inv_def quiet_def snull_simps p bufs_inv_def\<close>)
  then show ?thesis using inv up by (auto simp: reg_inv_def quiet_def snull_simps p is_up_def)
qed

lemma upd_dev_upd_dev: "upd_dev d f (upd_dev d g w) = upd_dev d (f \<circ> g) w"
  by (simp add: upd_dev_def)

lemma up_flags [simp]: "(x OR 1 :: u32) AND 1 \<noteq> 0" "(x AND - 2 :: u32) AND 1 = 0"
  by (simp_all add: bit.conj_disj_distrib2 and.assoc)

lemma reg_tx_ok:
  assumes E: "\<not> use_napi E" "lockup E = 0" and ne: "pool d \<noteq> []" and inv: "reg_inv pool w" and ok: "frame_ok data"
  shows "\<exists>w'. snull_tx E skb d (w\<lparr>skbs := (skbs w)(skb \<mapsto> data)\<rparr>) = Inr (0, w') \<and> reg_inv pool w'"
proof -
  let ?w = "w\<lparr>skbs := (skbs w)(skb \<mapsto> data)\<rparr>"
  have q: "quiet pool ?w" using inv by (simp add: reg_inv_def quiet_def bufs_inv_other)
  obtain buf where buf: "snull_rewrite E (padded data) = Inr buf" "length data \<le> ETH_DATA_LEN"
    using padded_rewrite [OF ok, of E] ok by (auto simp: frame_ok_def)
  obtain w' where w': "snull_tx E skb d ?w = Inr (0, w')" "quiet pool w'"
      "\<forall>x. dev_flags (devs w' x) = dev_flags (devs ?w x)"
      "queue_stopped (devs w' (twin d)) = queue_stopped (devs ?w (twin d))"
      "queue_stopped (devs w' d) \<longrightarrow> queue_stopped (devs ?w d)"
    using tx_regular_ok [OF E q ne _ buf refl refl, of skb] by simp (elim exE conjE, rule that; simp)
  have "is_up w' x \<longrightarrow> \<not> queue_stopped (devs w' x)" for x
    by (rule both_devs [of _ d]) (use w'(3-5) inv in \<open>auto simp: reg_inv_def is_up_def\<close>)
  then show ?thesis using w' by (simp add: reg_inv_def)
qed

lemma reg_mtu_ok:
  assumes inv: "reg_inv pool w"
  shows "\<exists>w'. snull_call E fuel (CMtu d m) w = Inr w' \<and> reg_inv pool w'"
proof -
  have lk: "\<not> plock (pr w d)" using inv bufs_inv_free by (auto simp: reg_inv_def quiet_def)
  have "spin_unlock d (upd_dev d (\<lambda>x. x\<lparr>mtu := m\<rparr>) (upd_priv d (\<lambda>p. p\<lparr>plock := True\<rparr>) w)) = upd_dev d (\<lambda>x. x\<lparr>mtu := m\<rparr>) w"
    using lk by (auto simp: spin_unlock_def upd_priv_def upd_dev_def fun_eq_iff
        intro!: sworld.equality snull_dev.equality snull_priv.equality)
  then have "snull_call E fuel (CMtu d m) w \<in> {Inr w, Inr (upd_dev d (\<lambda>x. x\<lparr>mtu := m\<rparr>) w)}"
    using lk by (simp add: snull_change_mtu_def)
  moreover have "reg_inv pool (upd_dev d (\<lambda>x. x\<lparr>mtu := m\<rparr>) w)"
    by (rule reg_inv_upd_dev [OF inv]) (use inv in \<open>simp_all add: reg_inv_def is_up_def\<close>)
  ultimately show ?thesis using inv by auto
qed

lemma reg_call_ok:
  assumes E: "\<not> use_napi E" "lockup E = 0" and ne: "\<And>d. pool d \<noteq> []"
    and inv: "reg_inv pool w" and ok: "call_ok w c" "good_call c"
  shows "\<exists>w'. snull_call E fuel c w = Inr w' \<and> reg_inv pool w'"
proof (cases c)
  case (CTx skb d data)
  then show ?thesis using reg_tx_ok [OF E ne inv, of data skb d] ok(2) by auto
next
  case (COpen d)
  have "snull_call E fuel c w = Inr (upd_dev d (\<lambda>x. x\<lparr>dev_addr := snull_hw_addr d, queue_stopped := False,
       dev_flags := dev_flags x OR IFF_UP\<rparr>) w)"
    using E COpen by (simp add: snull_open_def set_up_def netif_start_queue_def upd_dev_upd_dev o_def)
  then show ?thesis using reg_inv_upd_dev [OF inv] by simp
next
  case (CClose d)
  have "snull_call E fuel c w = Inr (upd_dev d (\<lambda>x. x\<lparr>queue_stopped := True, dev_flags := dev_flags x AND NOT IFF_UP\<rparr>) w)"
    using E CClose by (simp add: snull_release_def set_up_def netif_stop_queue_def upd_dev_upd_dev o_def)
  moreover have "reg_inv pool (upd_dev d (\<lambda>x. x\<lparr>queue_stopped := True, dev_flags := dev_flags x AND NOT IFF_UP\<rparr>) w)"
    by (rule reg_inv_upd_dev [OF inv]) simp_all
  ultimately show ?thesis by simp
next
  case (CMtu d m)
  then show ?thesis using reg_mtu_ok [OF inv] by blast
next
  case (CConfig d m)
  have "reg_inv pool (upd_dev d (\<lambda>x. x\<lparr>dev_irq := map_irq m\<rparr>) w)"
    by (rule reg_inv_upd_dev [OF inv]) (use inv in \<open>simp_all add: reg_inv_def is_up_def\<close>)
  then show ?thesis using inv CConfig by (simp add: snull_config_def)
qed (use ok inv in \<open>auto simp: reg_inv_def quiet_def\<close>)

lemma reg_reach_inv:
  assumes "snull_reach E fuel good_call w0 w" "\<not> use_napi E" "lockup E = 0" "\<And>d. pool d \<noteq> []" "reg_inv pool w0"
  shows "reg_inv pool w"
  using assms
proof (induction rule: snull_reach.induct)
  case (call w c w')
  then show ?case using reg_call_ok [of E pool w c fuel] by auto
qed

lemma load_reg_inv:
  assumes "kmalloc_ok E" "ether_setup_ok E" "boot w0" "snull_init_module E fuel alloc reg w0 = Inr (0, w)"
  shows "reg_inv (pool_of E) w"
  using load_quiet [OF assms] by (simp add: reg_inv_def is_up_def)

end
