(* ===== verification/Snull_Props.thy ===== *)
theory Snull_Props
  imports Snull_Driver
begin

unbundle bit_operations_syntax

text \<open>
  The properties of \<open>snull/snull.c\<close>: no buffer is lost in any mode, interrupt-driven
  transmission delivers the rewritten frame and never faults on frames that fit, polling
  refines its contract, and the situations in which the driver does go wrong.
\<close>

section \<open>A concrete kernel\<close>

definition sample_senv :: "bool \<Rightarrow> int \<Rightarrow> snull_env" where
  "sample_senv napi n =
     \<lparr>lockup = 0, timeout = 5, use_napi = napi, pool_size = n, netdev_alloc_skb = (\<lambda>_. True),
      kmalloc = (\<lambda>d i. Some (2 * i + (if d = SN0 then 0 else 1))),
      ip_fast_csum = (\<lambda>bs ihl. inet_csum bs), eth_type_trans = (\<lambda>d bs. be16_at bs 12),
      ether_setup = (\<lambda>x. x\<lparr>mtu := 1500, addr_len := 6, hard_header_len := 14, dev_flags := 0x1002\<rparr>)\<rparr>"

definition sample_sdev :: snull_dev where
  "sample_sdev = \<lparr>priv = zero_priv, queue_stopped = False, dev_flags = 0, base_addr = 0, dev_irq = 0, mtu = 0,
     min_mtu = 0, max_mtu = 0, dev_addr = [0, 0, 0, 0, 0, 0], addr_len = 0, hard_header_len = 0,
     watchdog_timeo = 0, registered = False\<rparr>"

definition sample_boot :: sworld where
  "sample_boot = \<lparr>pkts = (\<lambda>_. None), devs = (\<lambda>_. sample_sdev), snull_devs = (\<lambda>_. False),
     skbs = (\<lambda>_. None), slog = [], nallocs = 0\<rparr>"

definition sample_sframe :: bytes where
  "sample_sframe = [0, 0x53, 0x4e, 0x55, 0x4c, 0x31, 0, 0x53, 0x4e, 0x55, 0x4c, 0x30, 8, 0,
     69, 0, 0, 28, 0, 1, 0, 0, 64, 1, 0, 0, 192, 168, 0, 1, 192, 168, 0, 2, 8, 0, 0, 0, 0, 1, 0, 1]"

lemma sample_senv_ok: "kmalloc_ok (sample_senv b n)" "ether_setup_ok (sample_senv b n)" "boot sample_boot"
    "lockup (sample_senv b n) = 0" "use_napi (sample_senv b n) = b"
proof -
  show "kmalloc_ok (sample_senv b n)"
  proof -
    have h: "d' = d \<and> i' = i"
      if "2 * i + (if d = SN0 then 0 else 1) = a" "2 * i' + (if d' = SN0 then 0 else 1) = (a :: nat)" for d i d' i' a
      using that by (cases d; cases d'; simp) presburger+
    show ?thesis unfolding kmalloc_ok_def
    proof (intro allI impI, elim conjE)
      fix d i d' i' a assume "kmalloc (sample_senv b n) d i = Some a" "kmalloc (sample_senv b n) d' i' = Some a"
      then show "d' = d \<and> i' = i" by (intro h [of i d a]) (simp_all only: sample_senv_def snull_env.simps option.inject)
    qed
  qed
qed (simp_all add: ether_setup_ok_def boot_def sample_senv_def sample_boot_def sample_sdev_def)

lemma sample_pool: "pool_of (sample_senv b 1) d = [if d = SN0 then 0 else 1]"
  by (simp add: pool_of_def sample_senv_def)

lemma sample_sframe_ok: "frame_ok sample_sframe"
  by (simp add: frame_ok_def padded_def sample_sframe_def)

text \<open>Loading succeeds when both devices can be allocated and one registers.\<close>

lemma load_ok:
  assumes "alloc SN0" "alloc SN1" "reg SN0 = 0 \<or> reg SN1 = 0"
  shows "\<exists>w'. snull_init_module E fuel alloc reg w = Inr (0, w')"
proof -
  let ?w1 = "alloc_dev E alloc SN1 (alloc_dev E alloc SN0 w)"
  have "snull_devs ?w1 SN0" "snull_devs ?w1 SN1"
    using assms by (simp_all add: alloc_dev_def Let_def snull_init_dev)
  then show ?thesis using assms(3) by (auto simp: snull_init_module_def Let_def register_dev_def)
qed

lemma sample_loaded:
  obtains w where "snull_init_module (sample_senv b n) 9 (\<lambda>_. True) (\<lambda>_. 0) sample_boot = Inr (0, w)"
    "reg_inv (pool_of (sample_senv b n)) w" "skbs w = (\<lambda>_. None)"
proof -
  obtain w where w: "snull_init_module (sample_senv b n) 9 (\<lambda>_. True) (\<lambda>_. 0) sample_boot = Inr (0, w)"
    using load_ok [of "\<lambda>_. True" "\<lambda>_. 0"] by blast
  from load_quiet [OF sample_senv_ok(1-3) w] load_reg_inv [OF sample_senv_ok(1-3) w] show ?thesis
    using that [OF w] by (simp add: sample_boot_def)
qed

section \<open>Buffers\<close>

text \<open>
  C4: in every state any sequence of calls can lead to after a successful load, in either mode,
  the buffers a device set up are exactly those in its pool and those still queued at its twin:
  none is lost, shared or on two lists, and no lock is left held.
\<close>

theorem snull_buffers_conserved:
  assumes "kmalloc_ok E" "ether_setup_ok E" "boot w0"
    and "snull_init_module E fuel alloc reg w0 = Inr (0, w1)" "snull_reach E n P w1 w"
  shows "\<exists>pool rxq. bufs_inv None pool rxq [] w
    \<and> (\<forall>d. set (pool d) \<union> set (rxq (twin d)) = set (pool_of E d))"
proof -
  have q: "bufs_inv None (pool_of E) (\<lambda>_. []) [] w1" using load_quiet [OF assms(1-4)] by (simp add: quiet_def)
  obtain pool rxq where i: "bufs_inv None pool rxq [] w" "owner w = owner w1"
    using snull_reach_inv [OF assms(5) q] by blast
  have "set (pool d) \<union> set (rxq (twin d)) = set (pool_of E d)" for d
    using bufs_inv_owned [OF i(1), of _ d] bufs_inv_owned [OF q, of _ d] i(2) by auto
  then show ?thesis using i(1) by blast
qed

theorem snull_buffers_conserved_witness:
  "\<exists>w w'. snull_init_module (sample_senv True 1) 9 (\<lambda>_. True) (\<lambda>_. 0) sample_boot = Inr (0, w)
     \<and> snull_reach (sample_senv True 1) 9 (\<lambda>_. True) w w' \<and> is_up w' SN0
     \<and> (\<exists>pool rxq. bufs_inv None pool rxq [] w'
         \<and> (\<forall>d. set (pool d) \<union> set (rxq (twin d)) = set (pool_of (sample_senv True 1) d)))"
proof -
  let ?E = "sample_senv True 1"
  obtain w where w: "snull_init_module ?E 9 (\<lambda>_. True) (\<lambda>_. 0) sample_boot = Inr (0, w)"
    by (rule sample_loaded)
  let ?w' = "set_up SN0 True (snd (snull_open ?E SN0 w))"
  have "call_ok w (COpen SN0)" using load_quiet [OF sample_senv_ok(1-3) w] by (simp add: is_up_def)
  then have r: "snull_reach ?E 9 (\<lambda>_. True) w ?w'"
    by (rule snull_reach.call [OF snull_reach.start]) simp_all
  have "is_up ?w' SN0" by (simp add: is_up_def set_up_def snull_simps)
  then show ?thesis using snull_buffers_conserved [OF sample_senv_ok(1-3) w r] w r by blast
qed

section \<open>Interrupt-driven transmission\<close>

lemma tx_empty_pool:
  assumes inv: "bufs_inv None pool rxq [] w" and e: "pool d = []" and skb: "skbs w skb = Some data"
    and f: "frame_ok data"
  shows "snull_tx E skb d w = Inl NullDeref"
proof -
  let ?w0 = "upd_priv d (\<lambda>p. p\<lparr>priv_skb := Some skb\<rparr>) w"
  obtain buf where buf: "snull_rewrite E (padded data) = Inr buf" using padded_rewrite [OF f] by blast
  have l: "\<not> length (padded data) < ETH_HLEN + SIZEOF_IPHDR" by (simp add: length_padded)
  have "lst (pkts w) (ppool (pr w d)) (pool d)" using inv by (simp add: bufs_inv_def)
  then have "ppool (pr w d) = None" "\<not> plock (pr w d)" using e bufs_inv_free [OF inv, of d] by simp_all
  then have d: "deliver d buf (?w0\<lparr>skbs := k\<rparr>) = Inl NullDeref" "deliver d buf ?w0 = Inl NullDeref" for k
    by (simp_all add: deliver_def snull_get_tx_buffer_def spin_lock_def upd_priv_def snull_simps)
  have "snull_hw_tx E x (padded data) d ?w0 = Inl NullDeref" for x
    using hw_tx_eq [OF l buf, of x d ?w0] d by (simp split: option.splits)
  then show ?thesis using skb padded_put [of data]
    by (simp add: snull_tx_def Let_def padded_def split: if_splits)
qed

text \<open>
  C5: with \<open>use_napi = 0\<close>, no simulated lockup and at least one packet buffer in the pool of each device, no call
  the kernel may make faults, as long as every
  frame fits a packet buffer and contains the IP header it claims: no NULL pointer, no double
  free, no access outside a buffer, no deadlock, after any sequence of such calls. The condition on
  the pools is needed: the load succeeds also when \<open>pool_size\<close> is not positive or the first \<open>kmalloc\<close> of a
  pool fails, and then every such transmission on the device without buffers goes through
  the NULL pointer in \<open>snull_get_tx_buffer\<close>.
\<close>

theorem snull_regular_no_fault:
  assumes "kmalloc_ok E" "ether_setup_ok E" "boot w0" "\<not> use_napi E" "lockup E = 0"
    and "snull_init_module E fuel alloc reg w0 = Inr (0, w1)" "snull_reach E n good_call w1 w"
    and "call_ok w c" "good_call c"
  shows "((\<forall>d. pool_of E d \<noteq> []) \<longrightarrow> (\<exists>w'. snull_call E n c w = Inr w'))
    \<and> (\<forall>skb d data. c = CTx skb d data \<and> pool_of E d = [] \<longrightarrow> snull_call E n c w = Inl NullDeref)"
proof (intro conjI impI allI)
  assume p: "\<forall>d. pool_of E d \<noteq> []"
  have "reg_inv (pool_of E) w"
    using reg_reach_inv [OF assms(7,4,5)] load_reg_inv [OF assms(1-3,6)] p by blast
  then show "\<exists>w'. snull_call E n c w = Inr w'" using reg_call_ok [OF assms(4,5) _ _ assms(8,9)] p by blast
next
  fix skb d data
  assume c: "c = CTx skb d data \<and> pool_of E d = []"
  have q: "bufs_inv None (pool_of E) (\<lambda>_. []) [] w1" using load_quiet [OF assms(1-3,6)] by (simp add: quiet_def)
  obtain pool rxq where i: "bufs_inv None pool rxq [] w" "owner w = owner w1"
    using snull_reach_inv [OF assms(7) q] by blast
  have "set (pool d) \<subseteq> set (pool_of E d)"
    using bufs_inv_owned [OF i(1), of _ d] bufs_inv_owned [OF q, of _ d] i(2) by auto
  then have "pool d = []" using c by simp
  moreover have "bufs_inv None pool rxq [] (w\<lparr>skbs := (skbs w)(skb \<mapsto> data)\<rparr>)" using i(1) by (simp add: bufs_inv_other)
  ultimately show "snull_call E n c w = Inl NullDeref"
    using tx_empty_pool [of pool rxq "w\<lparr>skbs := (skbs w)(skb \<mapsto> data)\<rparr>" d skb data E] c assms(9) by simp
qed

theorem snull_regular_no_fault_witness:
  "\<exists>w w' w''. snull_init_module (sample_senv False 1) 9 (\<lambda>_. True) (\<lambda>_. 0) sample_boot = Inr (0, w)
     \<and> snull_reach (sample_senv False 1) 9 good_call w w'
     \<and> snull_call (sample_senv False 1) 9 (CTx 5 SN0 sample_sframe) w' = Inr w''"
proof -
  let ?E = "sample_senv False 1"
  obtain w where w: "snull_init_module ?E 9 (\<lambda>_. True) (\<lambda>_. 0) sample_boot = Inr (0, w)" "skbs w = (\<lambda>_. None)"
    by (rule sample_loaded)
  let ?w' = "set_up SN0 True (snd (snull_open ?E SN0 w))"
  have "call_ok w (COpen SN0)" using load_quiet [OF sample_senv_ok(1-3) w(1)] by (simp add: is_up_def)
  then have r: "snull_reach ?E 9 good_call w ?w'"
    by (rule snull_reach.call [OF snull_reach.start]) simp_all
  have "call_ok ?w' (CTx 5 SN0 sample_sframe)"
    using w(2) by (simp add: is_up_def set_up_def snull_open_def netif_start_queue_def Let_def snull_simps sample_senv_def)
  then show ?thesis
    using snull_regular_no_fault [OF sample_senv_ok(1-3) _ _ w(1) r, of "CTx 5 SN0 sample_sframe"]
      sample_senv_ok(4,5) sample_sframe_ok w(1) r by (auto simp: sample_pool)
qed

text \<open>
  C8: in the same setting one \<open>snull_tx\<close> carries the frame across: the twin passes up exactly the
  rewritten frame (zero-padded to 60 bytes, with the protocol \<open>eth_type_trans\<close> finds), the \<open>sk_buff\<close> is
  freed once, both devices count the bytes on the wire, and both pools are as before.
\<close>

theorem snull_tx_delivers:
  assumes "\<not> use_napi E" "lockup E = 0" "reg_inv pool w" "pool d \<noteq> []" "netdev_alloc_skb E (nallocs w)"
    and "skbs w skb = None" "frame_ok data"
  shows "\<exists>w' buf. snull_tx E skb d (w\<lparr>skbs := (skbs w)(skb \<mapsto> data)\<rparr>) = Inr (0, w')
    \<and> snull_rewrite E (padded data) = Inr buf \<and> length buf = max ETH_ZLEN (length data)
    \<and> slog w' = slog w @ [RxFrame (twin d) buf (eth_type_trans E (twin d) buf) True, KfreeSkb skb]
    \<and> skbs w' = skbs w
    \<and> stats (pr w' d) = (stats (pr w d))\<lparr>tx_packets := tx_packets (stats (pr w d)) + 1,
         tx_bytes := tx_bytes (stats (pr w d)) + of_nat (length buf)\<rparr>
    \<and> stats (pr w' (twin d)) = (stats (pr w (twin d)))\<lparr>rx_packets := rx_packets (stats (pr w (twin d))) + 1,
         rx_bytes := rx_bytes (stats (pr w (twin d))) + of_nat (length buf)\<rparr>
    \<and> reg_inv pool w'"
proof -
  let ?w = "w\<lparr>skbs := (skbs w)(skb \<mapsto> data)\<rparr>"
  have q: "quiet pool ?w" using assms(3) by (simp add: reg_inv_def quiet_def bufs_inv_other)
  obtain buf where buf: "snull_rewrite E (padded data) = Inr buf" "length buf = length (padded data)"
    using padded_rewrite [OF assms(7)] by blast
  have ld: "length data \<le> ETH_DATA_LEN" using assms(7) by (simp add: frame_ok_def)
  have ok: "True = netdev_alloc_skb E (nallocs ?w)" and sk: "skbs ?w skb = Some data" using assms(5) by simp_all
  obtain w' where w': "snull_tx E skb d ?w = Inr (0, w')" "quiet pool w'" "skbs w' = (skbs ?w)(skb := None)"
      "slog w' = slog ?w @ (if True then [irq_frame E (twin d) buf] else []) @ [KfreeSkb skb]"
      "stats (pr w' (twin d)) = rx_stats True (int (length buf)) (stats (pr ?w (twin d)))"
      "stats (pr w' d) = tx_stats (int (length buf)) (stats (pr ?w d))"
      "\<forall>x. dev_flags (devs w' x) = dev_flags (devs ?w x)"
      "queue_stopped (devs w' (twin d)) = queue_stopped (devs ?w (twin d))"
      "queue_stopped (devs w' d) \<longrightarrow> queue_stopped (devs ?w d)"
    using tx_regular_ok [OF assms(1,2) q assms(4) sk buf(1) ld ok refl] by (elim exE conjE) (rule that; assumption)
  have "is_up w' x \<longrightarrow> \<not> queue_stopped (devs w' x)" for x
    by (rule both_devs [of _ d]) (use w'(7-9) assms(3) in \<open>auto simp: reg_inv_def is_up_def\<close>)
  moreover have "(skbs w)(skb := None) = skbs w" using assms(6) by (simp add: fun_upd_idem)
  ultimately show ?thesis using w' buf
    by (intro exI [of _ w'] exI [of _ buf] conjI)
       (simp_all add: irq_frame_def rx_stats_def tx_stats_def length_padded reg_inv_def)
qed

theorem snull_tx_delivers_witness:
  "\<exists>w w' buf. snull_init_module (sample_senv False 1) 9 (\<lambda>_. True) (\<lambda>_. 0) sample_boot = Inr (0, w)
     \<and> snull_tx (sample_senv False 1) 5 SN0 (w\<lparr>skbs := (skbs w)(5 \<mapsto> sample_sframe)\<rparr>) = Inr (0, w')
     \<and> length buf = 60 \<and> last (slog w') = KfreeSkb 5
     \<and> RxFrame SN1 buf (be16_at buf 12) True \<in> set (slog w')"
proof -
  let ?E = "sample_senv False 1"
  obtain w where w: "snull_init_module ?E 9 (\<lambda>_. True) (\<lambda>_. 0) sample_boot = Inr (0, w)"
    "reg_inv (pool_of ?E) w" "skbs w = (\<lambda>_. None)"
    by (rule sample_loaded)
  have "\<not> use_napi ?E" "pool_of ?E SN0 \<noteq> []" "netdev_alloc_skb ?E (nallocs w)" "skbs w 5 = None"
    using w(3) by (simp_all add: sample_senv_def pool_of_def)
  from snull_tx_delivers [OF this(1) sample_senv_ok(4) w(2) this(2-4) sample_sframe_ok]
  obtain w' buf where "snull_tx ?E 5 SN0 (w\<lparr>skbs := (skbs w)(5 \<mapsto> sample_sframe)\<rparr>) = Inr (0, w')"
      "length buf = max ETH_ZLEN (length sample_sframe)"
      "slog w' = slog w @ [RxFrame (twin SN0) buf (eth_type_trans ?E (twin SN0) buf) True, KfreeSkb 5]" by blast
  then show ?thesis using w(1) by (auto simp: sample_sframe_def sample_senv_def)
qed

text \<open>
  C9: the address rewriting of \<open>snull_hw_tx\<close> flips the lowest bit of the third octet of the source and
  of the destination address, rebuilds the header checksum so that it verifies, and changes
  nothing else.
\<close>

theorem snull_rewrite_spec:
  assumes csum: "\<forall>bs k. 5 \<le> k \<longrightarrow> length bs = 4 * k \<longrightarrow> ip_fast_csum E bs k = inet_csum bs"
    and ihl: "ihl = unat (buf ! 14 AND 15)" "5 \<le> ihl" "14 + 4 * ihl \<le> length buf"
  shows "\<exists>buf'. snull_rewrite E buf = Inr buf' \<and> length buf' = length buf
    \<and> buf' ! 28 = buf ! 28 XOR 1 \<and> buf' ! 32 = buf ! 32 XOR 1
    \<and> (\<forall>j < length buf. j \<notin> {24, 25, 28, 32} \<longrightarrow> buf' ! j = buf ! j)
    \<and> csum_valid (slice buf' 14 (4 * ihl))"
proof -
  let ?b = "(buf[28 := buf ! 28 XOR 1])[32 := buf ! 32 XOR 1]"
  let ?z = "put 24 (be16_bytes 0) ?b"
  let ?c = "inet_csum (slice ?z 14 (4 * ihl))"
  have l: "34 \<le> length buf" using ihl by simp
  have zi: "unat (?z ! 14 AND 15) = ihl" using l ihl(1) by (simp add: nth_put)
  have run: "snull_rewrite E buf = Inr (put 24 (be16_bytes ?c) ?b)"
    using csum ihl l zi by (simp add: snull_rewrite_def Let_def put_put_same)
  have s: "slice (put 24 (be16_bytes v) ?b) 14 (4 * ihl) = put 10 (be16_bytes v) (slice ?b 14 (4 * ihl))" for v
    using slice_put_inside [of 14 24 "be16_bytes v" "4 * ihl" ?b] ihl by simp
  have "csum_valid (put 10 (be16_bytes ?c) (slice ?b 14 (4 * ihl)))"
    unfolding s using ihl by (intro csum_valid_put) simp_all
  then have "csum_valid (slice (put 24 (be16_bytes ?c) ?b) 14 (4 * ihl))" by (simp only: s)
  then show ?thesis using run l by (intro exI [of _ "put 24 (be16_bytes ?c) ?b"]) (auto simp: nth_put)
qed

theorem snull_rewrite_spec_witness:
  "\<exists>buf'. snull_rewrite (sample_senv False 1) sample_sframe = Inr buf' \<and> buf' ! 28 = 1 \<and> buf' ! 32 = 1
     \<and> csum_valid (slice buf' 14 20)"
proof -
  have c: "\<forall>bs k. 5 \<le> k \<longrightarrow> length bs = 4 * k \<longrightarrow> ip_fast_csum (sample_senv False 1) bs k = inet_csum bs"
    by (simp add: sample_senv_def)
  have f: "5 = unat (sample_sframe ! 14 AND 15)" "14 + 4 * 5 \<le> length sample_sframe"
      "sample_sframe ! 28 XOR 1 = 1" "sample_sframe ! 32 XOR 1 = 1"
    by (simp_all add: sample_sframe_def)
  obtain buf' where "snull_rewrite (sample_senv False 1) sample_sframe = Inr buf'"
      "buf' ! 28 = sample_sframe ! 28 XOR 1" "buf' ! 32 = sample_sframe ! 32 XOR 1" "csum_valid (slice buf' 14 (4 * 5))"
    using snull_rewrite_spec [OF c f(1) _ f(2)] by (elim exE conjE meta_impE) simp_all
  then show ?thesis unfolding f(3,4) by (intro exI [of _ buf']) simp
qed

section \<open>Polling\<close>

lemma rxq_short:
  assumes inv: "bufs_inv None pool rxq [] w" and own: "set (pool (twin d)) \<union> set (rxq d) = set (pool_of E (twin d))"
  shows "length (rxq d) \<le> length (pool_of E (twin d))"
proof -
  have "distinct (rxq d)"
    using inv all_bufs_sym(1) [of pool rxq "[]" d] by (auto simp: bufs_inv_def all_bufs_def)
  then have "length (rxq d) = card (set (rxq d))" by (simp add: distinct_card)
  also have "\<dots> \<le> card (set (pool_of E (twin d)))" using own by (intro card_mono) auto
  also have "\<dots> \<le> length (pool_of E (twin d))" by (rule card_length)
  finally show ?thesis .
qed

text \<open>
  C10: in every reachable state \<open>snull_poll\<close> returns, after at most one round per buffer of the
  twin, and does what \<open>poll_spec\<close> says on the queued frames: it passes up at most \<open>budget\<close> frames from the
  front of the queue, drops those without memory, leaves the rest queued and returns the number
  passed up. When that number is below the budget, the queue is empty, the poll is completed and receive
  interrupts are on; when it is not, which can be with an empty queue too, the interrupt flag and the
  poll's scheduled state are what they were.
\<close>

theorem snull_poll_refines:
  assumes "kmalloc_ok E" "ether_setup_ok E" "boot w0"
    and "snull_init_module E m alloc reg w0 = Inr (0, w1)" "snull_reach E n P w1 w"
    and "length (pool_of E (twin d)) < fuel"
  shows "\<exists>pool rxq up rest w' pool' rxq'. bufs_inv None pool rxq [] w
    \<and> poll_spec (netdev_alloc_skb E) (nallocs w) budget (frames w (rxq d)) = (up, rest)
    \<and> snull_poll E fuel d budget w = Inr (int (length up), w')
    \<and> slog w' = slog w @ map (\<lambda>bs. RxFrame d bs (eth_type_trans E d bs) False) up
    \<and> bufs_inv None pool' rxq' [] w' \<and> frames w' (rxq' d) = rest
    \<and> (if int (length up) < budget
       then rest = [] \<and> rx_int_enabled (pr w' d) = 1 \<and> \<not> napi_scheduled (pr w' d)
       else rx_int_enabled (pr w' d) = rx_int_enabled (pr w d)
            \<and> napi_scheduled (pr w' d) = napi_scheduled (pr w d))"
proof -
  have q: "bufs_inv None (pool_of E) (\<lambda>_. []) [] w1" using load_quiet [OF assms(1-4)] by (simp add: quiet_def)
  obtain pool rxq where i: "bufs_inv None pool rxq [] w" "owner w = owner w1"
    using snull_reach_inv [OF assms(5) q] by blast
  have "set (pool (twin d)) \<union> set (rxq (twin (twin d))) = set (pool_of E (twin d))"
    using bufs_inv_owned [OF i(1), of _ "twin d"] bufs_inv_owned [OF q, of _ "twin d"] i(2) by auto
  then have len: "length (rxq d) < fuel" using rxq_short [OF i(1), of d E] assms(6) by simp
  obtain up rest where sp: "poll_spec (netdev_alloc_skb E) (nallocs w) budget (frames w (rxq d)) = (up, rest)"
    by (metis surj_pair)
  obtain w' pool' rxq' where w': "snull_poll E fuel d budget w = Inr (int (length up), w')"
      "bufs_inv None pool' rxq' [] w'" "slog w' = slog w @ map (polled E d) up" "frames w' (rxq' d) = rest"
      "napi_state w' d = (if int (length up) < budget then (1, False) else napi_state w d)"
    using snull_poll_total [OF i(1) len sp] by (elim exE conjE) (rule that; assumption)
  have "int (length up) < budget \<longrightarrow> rest = []"
    using poll_spec_stop [of "netdev_alloc_skb E" "nallocs w" budget "frames w (rxq d)"] sp by simp
  moreover have "map (polled E d) up = map (\<lambda>bs. RxFrame d bs (eth_type_trans E d bs) False) up"
    by (simp add: polled_def)
  ultimately show ?thesis using i(1) sp w'
    by (intro exI [of _ pool] exI [of _ rxq] exI [of _ up] exI [of _ rest] exI [of _ w'] exI [of _ pool']
        exI [of _ rxq'] conjI) (simp_all add: napi_state_def split: if_splits)
qed

lemma bufs_inv_open:
  "bufs_inv None pool rxq hand w \<Longrightarrow> bufs_inv None pool rxq hand (set_up d b (snd (snull_open E d w)))"
  by (auto simp: snull_open_def set_up_def netif_start_queue_def Let_def
      intro!: bufs_inv_upd_dev bufs_inv_upd_priv)

text \<open>A state with one frame queued at \<open>SN1\<close>: both devices are opened and \<open>SN0\<close> transmits.\<close>

lemma sample_queued:
  obtains w1 w pool a where
    "snull_init_module (sample_senv True 1) 9 (\<lambda>_. True) (\<lambda>_. 0) sample_boot = Inr (0, w1)"
    "snull_reach (sample_senv True 1) 9 (\<lambda>_. True) w1 w"
    "bufs_inv None pool ((\<lambda>_. [])(SN1 := [a])) [] w" "rx_int_enabled (pr w SN1) = 0" "napi_scheduled (pr w SN1)"
proof -
  let ?E = "sample_senv True 1"
  obtain w1 where w1: "snull_init_module ?E 9 (\<lambda>_. True) (\<lambda>_. 0) sample_boot = Inr (0, w1)"
      "reg_inv (pool_of ?E) w1" "skbs w1 = (\<lambda>_. None)" by (rule sample_loaded)
  define w2 where "w2 = set_up SN1 True (snd (snull_open ?E SN1 w1))"
  define w3 where "w3 = set_up SN0 True (snd (snull_open ?E SN0 w2))"
  note op = snull_open_def set_up_def netif_start_queue_def Let_def upd_priv_def
  have ok: "call_ok w1 (COpen SN1)" "call_ok w2 (COpen SN0)"
    using load_quiet [OF sample_senv_ok(1-3) w1(1)]
    by (simp_all add: w2_def is_up_def op snull_simps sample_senv_def)
  have r: "snull_reach ?E 9 (\<lambda>_. True) w1 w3"
    using snull_reach.call [OF snull_reach.call [OF snull_reach.start ok(1)] ok(2)]
    by (simp add: w2_def w3_def)
  let ?w = "w3\<lparr>skbs := (skbs w3)(5 \<mapsto> sample_sframe)\<rparr>"
  have "is_up w3 SN0" "\<not> queue_stopped (devs w3 SN0)" "skbs w3 = skbs w1"
    by (simp_all add: w3_def w2_def is_up_def op snull_simps sample_senv_def)
  then have ok3: "call_ok w3 (CTx 5 SN0 sample_sframe)" using w1(3) by simp
  have q: "bufs_inv None (pool_of ?E) (\<lambda>_. []) [] w1" "\<forall>d. status (pr w1 d) = 0" "\<forall>d. rx_int_enabled (pr w1 d) = 1"
    using w1(2) by (simp_all add: reg_inv_def quiet_def)
  have i: "bufs_inv None (pool_of ?E) (\<lambda>_. []) [] ?w"
    unfolding bufs_inv_other w3_def w2_def by (intro bufs_inv_open q(1))
  have st: "status (pr ?w SN0) = 0" "status (pr ?w SN1) = 0" "rx_int_enabled (pr ?w SN1) \<noteq> 0" "napi_enabled (pr ?w SN1)"
    using q(2,3) by (simp_all add: w3_def w2_def op snull_simps sample_senv_def)
  have st2: "status (pr ?w (twin SN0)) = 0" using st(2) by simp
  obtain buf where buf: "snull_rewrite ?E (padded sample_sframe) = Inr buf" "length sample_sframe \<le> ETH_DATA_LEN"
    using padded_rewrite [OF sample_sframe_ok] by (auto simp: sample_sframe_def)
  have u: "use_napi ?E" "pool_of ?E SN0 = 0 # []" "skbs ?w 5 = Some sample_sframe"
    by (simp_all add: sample_senv_ok sample_pool)
  obtain w where w: "snull_tx ?E 5 SN0 ?w = Inr (0, w)"
      "bufs_inv None ((pool_of ?E)(SN0 := [])) ((\<lambda>_. [])(twin SN0 := 0 # [])) [] w"
      "rx_int_enabled (pr w (twin SN0)) = 0"
      "napi_scheduled (pr w (twin SN0)) = (napi_scheduled (pr ?w (twin SN0))
         \<or> rx_int_enabled (pr ?w (twin SN0)) \<noteq> 0 \<and> napi_enabled (pr ?w (twin SN0)))"
    using tx_napi_ok [OF u(1) sample_senv_ok(4) i u(2) st(1) st2 u(3) buf]
    by (elim exE conjE) (rule that; assumption)
  have "snull_reach ?E 9 (\<lambda>_. True) w1 w"
    using snull_reach.call [OF r ok3] w(1) by simp
  then show ?thesis using that [OF w1(1)] w st by simp
qed

theorem snull_poll_refines_witness:
  "\<exists>w1 w. snull_init_module (sample_senv True 1) 9 (\<lambda>_. True) (\<lambda>_. 0) sample_boot = Inr (0, w1)
     \<and> snull_reach (sample_senv True 1) 9 (\<lambda>_. True) w1 w \<and> rx_int_enabled (pr w SN1) = 0
     \<and> (\<exists>w'. snull_poll (sample_senv True 1) 2 SN1 64 w = Inr (1, w') \<and> rx_int_enabled (pr w' SN1) = 1)
     \<and> (\<exists>w'. snull_poll (sample_senv True 1) 2 SN1 1 w = Inr (1, w') \<and> rx_int_enabled (pr w' SN1) = 0
           \<and> napi_scheduled (pr w' SN1))"
proof -
  let ?E = "sample_senv True 1"
  obtain w1 w pool0 a where w: "snull_init_module ?E 9 (\<lambda>_. True) (\<lambda>_. 0) sample_boot = Inr (0, w1)"
      "snull_reach ?E 9 (\<lambda>_. True) w1 w" "bufs_inv None pool0 ((\<lambda>_. [])(SN1 := [a])) [] w"
      "rx_int_enabled (pr w SN1) = 0" "napi_scheduled (pr w SN1)"
    by (rule sample_queued)
  have f: "length (pool_of ?E (twin SN1)) < 2" by (simp add: sample_pool)
  have al: "netdev_alloc_skb ?E = (\<lambda>_. True)" by (simp add: sample_senv_def)
  have sp: "length up = 1"
    if "bufs_inv None pool rxq [] w" "poll_spec (\<lambda>_. True) (nallocs w) k (frames w (rxq SN1)) = (up, rest)" "0 < k"
    for k up rest pool rxq
  proof -
    have l: "lst (pkts w) (rx_queue (pr w SN1)) (q SN1)" if "bufs_inv None p q [] w" for p q
      using that by (simp add: bufs_inv_def)
    from l [OF that(1)] l [OF w(3), unfolded fun_upd_same] have "rxq SN1 = [a]" by (rule lst_unique)
    then show ?thesis using that(2,3) by (auto simp: frames_def)
  qed
  have "\<exists>w'. snull_poll ?E 2 SN1 k w = Inr (1, w')
      \<and> (if 1 < k then rx_int_enabled (pr w' SN1) = 1 else rx_int_enabled (pr w' SN1) = 0 \<and> napi_scheduled (pr w' SN1))"
    if "0 < k" for k
    using snull_poll_refines [OF sample_senv_ok(1-3) w(1,2) f, of k] sp that w(4,5) unfolding al
    by (elim exE conjE) fastforce
  from this [of 64] this [of 1] show ?thesis using w by auto
qed

section \<open>Transmission under NAPI\<close>

text \<open>
  C27: with \<open>use_napi = 1\<close> and no simulated lockup, \<open>snull_tx\<close> puts the rewritten frame in front of the
  twin's receive queue, frees the \<open>sk_buff\<close>, turns the twin's receive interrupts off, schedules the
  twin's poll if that is enabled, and stops the transmit queue when it took the last buffer.
\<close>

theorem snull_tx_napi_queues:
  assumes "use_napi E" "lockup E = 0" "bufs_inv None pool rxq [] w" "pool d = a # as"
    and "status (pr w d) = 0" "status (pr w (twin d)) = 0" "skbs w skb = Some data" "frame_ok data"
  shows "\<exists>w' buf. snull_tx E skb d w = Inr (0, w') \<and> snull_rewrite E (padded data) = Inr buf
    \<and> bufs_inv None (pool(d := as)) (rxq(twin d := a # rxq (twin d))) [] w'
    \<and> frames w' (a # rxq (twin d)) = buf # frames w (rxq (twin d))
    \<and> slog w' = slog w @ [KfreeSkb skb] \<and> skbs w' = (skbs w)(skb := None)
    \<and> queue_stopped (devs w' d) = (queue_stopped (devs w d) \<or> as = [])
    \<and> rx_int_enabled (pr w' (twin d)) = 0
    \<and> napi_scheduled (pr w' (twin d)) = (napi_scheduled (pr w (twin d))
         \<or> rx_int_enabled (pr w (twin d)) \<noteq> 0 \<and> napi_enabled (pr w (twin d)))"
proof -
  obtain buf where buf: "snull_rewrite E (padded data) = Inr buf" using padded_rewrite [OF assms(8)] by blast
  have "length data \<le> ETH_DATA_LEN" using assms(8) by (simp add: frame_ok_def)
  from tx_napi_ok [OF assms(1-7) buf this] buf show ?thesis by blast
qed

lemma sample_napi_state:
  obtains w where "bufs_inv None (pool_of (sample_senv True n)) (\<lambda>_. []) [] w"
    "\<forall>d. status (pr w d) = 0" "\<forall>d. rx_int_enabled (pr w d) = 1" "skbs w 5 = Some sample_sframe"
proof -
  obtain w where w: "reg_inv (pool_of (sample_senv True n)) w" by (rule sample_loaded)
  show ?thesis
    by (rule that [of "w\<lparr>skbs := [5 \<mapsto> sample_sframe]\<rparr>"])
       (use w in \<open>simp_all add: reg_inv_def quiet_def bufs_inv_other\<close>)
qed

theorem snull_tx_napi_queues_witness:
  "\<exists>w w'. snull_tx (sample_senv True 1) 5 SN0 w = Inr (0, w') \<and> queue_stopped (devs w' SN0)
     \<and> rx_int_enabled (pr w' SN1) = 0"
proof -
  obtain w where w: "bufs_inv None (pool_of (sample_senv True 1)) (\<lambda>_. []) [] w"
    "\<forall>d. status (pr w d) = 0" "skbs w 5 = Some sample_sframe"
    by (rule sample_napi_state [of 1])
  have "use_napi (sample_senv True 1)" "pool_of (sample_senv True 1) SN0 = [0]"
    by (simp_all add: sample_senv_ok sample_pool)
  from snull_tx_napi_queues [OF this(1) sample_senv_ok(4) w(1) this(2) spec [OF w(2)] spec [OF w(2)] w(3) sample_sframe_ok]
  show ?thesis by auto
qed

section \<open>Where the driver goes wrong\<close>

text \<open>
  C28: with NAPI, once a transmission has taken the last buffer of the pool and stopped the queue,
  the transmit watchdog frees the \<open>sk_buff\<close> of that transmission a second time.
\<close>

theorem snull_timeout_double_free:
  assumes "use_napi E" "lockup E = 0" "bufs_inv None pool rxq [] w" "pool d = [a]"
    and "status (pr w d) = 0" "status (pr w (twin d)) = 0" "skbs w skb = Some data" "frame_ok data"
  shows "\<exists>w'. snull_tx E skb d w = Inr (0, w') \<and> queue_stopped (devs w' d)
    \<and> snull_tx_timeout E d w' = Inl DoubleFree"
proof -
  obtain buf where buf: "snull_rewrite E (padded data) = Inr buf" "length data \<le> ETH_DATA_LEN"
    using padded_rewrite [OF assms(8)] assms(8) by (auto simp: frame_ok_def)
  obtain w' where w': "snull_tx E skb d w = Inr (0, w')"
      "bufs_inv None (pool(d := [])) (rxq(twin d := a # rxq (twin d))) [] w'"
      "skbs w' = (skbs w)(skb := None)" "priv_skb (pr w' d) = Some skb"
      "queue_stopped (devs w' d) = (queue_stopped (devs w d) \<or> [] = ([] :: nat list))"
    using tx_napi_ok [OF assms(1-7) buf] by (elim exE conjE) (rule that; assumption)
  let ?w = "upd_priv d (\<lambda>p. p\<lparr>status := SNULL_TX_INTR\<rparr>) w'"
  have "\<not> plock (pr ?w d)" "status (pr ?w d) = SNULL_TX_INTR" "priv_skb (pr ?w d) = Some skb" "skbs ?w skb = None"
    using w' bufs_inv_free [OF w'(2), of d] by (simp_all add: upd_priv_def snull_simps)
  then have "snull_interrupt E (Some d) ?w = Inl DoubleFree"
    using assms(1) by (simp add: snull_interrupt_def napi_interrupt_eq irq_tx_def tx_done_def Let_def irq_enter_def
        snull_kfree_skb_def upd_stats_def upd_priv_def snull_simps)
  then show ?thesis using w' by (simp add: snull_tx_timeout_def)
qed

theorem snull_timeout_double_free_witness:
  "\<exists>w w'. snull_tx (sample_senv True 1) 5 SN0 w = Inr (0, w') \<and> queue_stopped (devs w' SN0)
     \<and> snull_tx_timeout (sample_senv True 1) SN0 w' = Inl DoubleFree"
proof -
  obtain w where w: "bufs_inv None (pool_of (sample_senv True 1)) (\<lambda>_. []) [] w"
    "\<forall>d. status (pr w d) = 0" "skbs w 5 = Some sample_sframe"
    by (rule sample_napi_state [of 1])
  have "use_napi (sample_senv True 1)" "pool_of (sample_senv True 1) SN0 = [0]"
    by (simp_all add: sample_senv_ok sample_pool)
  from snull_timeout_double_free [OF this(1) sample_senv_ok(4) w(1) this(2) spec [OF w(2)] spec [OF w(2)] w(3) sample_sframe_ok]
  show ?thesis by blast
qed

text \<open>
  C29: a frame longer than 1500 bytes, as every frame is that fills the MTU of 1500, is copied past the
  end of the 1500-byte array of the packet buffer.
\<close>

theorem snull_tx_overflows:
  assumes "bufs_inv None pool rxq [] w" "pool d \<noteq> []" "skbs w skb = Some data" "ETH_DATA_LEN < length data"
  shows "snull_tx E skb d w = Inl OutOfBounds"
proof (cases "snull_rewrite E (padded data)")
  case (Inl e)
  then have "e = OutOfBounds" by (auto simp: snull_rewrite_def Let_def split: if_splits)
  then show ?thesis using Inl assms(3,4) padded_put [of data]
    by (simp add: snull_tx_def Let_def snull_hw_tx_def padded_def)
next
  case (Inr buf)
  let ?w0 = "upd_priv d (\<lambda>p. p\<lparr>priv_skb := Some skb\<rparr>) w"
  have l: "\<not> length (padded data) < ETH_HLEN + SIZEOF_IPHDR" "padded data = data"
    using assms(4) by (simp_all add: padded_def)
  have "length buf = length data" using rewrite_length [OF Inr] l by simp
  moreover have "bufs_inv None pool rxq [] (?w0\<lparr>skbs := (skbs ?w0)(skb \<mapsto> buf)\<rparr>)"
    unfolding bufs_inv_other by (rule bufs_inv_upd_priv [OF assms(1)]) simp
  ultimately have "deliver d buf (?w0\<lparr>skbs := (skbs ?w0)(skb \<mapsto> buf)\<rparr>) = Inl OutOfBounds"
    using deliver_too_long assms(2,4) by simp
  then have "snull_hw_tx E (Some skb) data d ?w0 = Inl OutOfBounds"
    using hw_tx_eq [OF l(1) Inr, of "Some skb" d ?w0] unfolding l(2) by simp
  then show ?thesis using assms(3,4) by (simp add: snull_tx_def Let_def)
qed

theorem snull_tx_overflows_witness:
  "\<exists>w. skbs w 5 = Some (sample_sframe @ replicate 1472 0)
     \<and> snull_tx (sample_senv False 1) 5 SN0 w = Inl OutOfBounds"
proof -
  obtain w where "reg_inv (pool_of (sample_senv False 1)) w" by (rule sample_loaded)
  then have i: "bufs_inv None (pool_of (sample_senv False 1)) (\<lambda>_. []) []
      (w\<lparr>skbs := [5 \<mapsto> sample_sframe @ replicate 1472 0]\<rparr>)"
    by (simp add: reg_inv_def quiet_def bufs_inv_other)
  have "pool_of (sample_senv False 1) SN0 \<noteq> []" by (simp add: sample_pool)
  from snull_tx_overflows [OF i this, of 5] show ?thesis
    by (intro exI [of _ "w\<lparr>skbs := [5 \<mapsto> sample_sframe @ replicate 1472 0]\<rparr>"]) (simp add: sample_sframe_def)
qed

text \<open>
  C39: \<open>snull_enqueue_buf\<close> misorders packets: of two packets queued one after the other, the later one is
  dequeued first.
\<close>

theorem snull_rx_queue_misorders:
  assumes "\<not> plock (pr w d)" "pkts w a \<noteq> None" "pkts w b \<noteq> None" "a \<noteq> b"
    and "lst (pkts w) (rx_queue (pr w d)) xs" "a \<notin> set xs" "b \<notin> set xs"
  shows "\<exists>w'. rbind (snull_enqueue_buf d a w) (\<lambda>w.
     rbind (snull_enqueue_buf d b w) (\<lambda>w.
     rbind (snull_dequeue_buf d w) (\<lambda>(x, w).
     rbind (snull_dequeue_buf d w) (\<lambda>(y, w). Inr (x, y, w))))) = Inr (Some b, Some a, w')"
proof -
  have "\<exists>w' w''. rxq.push_all d [a, b] w = Inr w' \<and> rxq.pop_n d 2 w' = Inr ([Some b, Some a], w'')
      \<and> lst (pkts w'') (rx_queue (pr w'' d)) xs"
    using rxq.push_then_pop [of w d xs "[a, b]"] assms by (auto simp: numeral_2_eq_2)
  then show ?thesis by (auto simp: res_simps numeral_2_eq_2)
qed

theorem snull_rx_queue_misorders_witness:
  "\<exists>w w'. rbind (snull_enqueue_buf SN1 0 w) (\<lambda>w.
     rbind (snull_enqueue_buf SN1 2 w) (\<lambda>w.
     rbind (snull_dequeue_buf SN1 w) (\<lambda>(x, w).
     rbind (snull_dequeue_buf SN1 w) (\<lambda>(y, w). Inr (x, y, w))))) = Inr (Some 2, Some 0, w')"
proof -
  let ?w = "setup_pool_loop (sample_senv True 2) SN0 0 2 sample_boot"
  have "pkts ?w 0 \<noteq> None" "pkts ?w 2 \<noteq> None" "\<not> plock (pr ?w SN1)" "rx_queue (pr ?w SN1) = None"
    by (simp_all add: numeral_2_eq_2 sample_senv_def sample_boot_def sample_sdev_def zero_priv_def Let_def
        set_pkt_def upd_priv_def upd_dev_def)
  from snull_rx_queue_misorders [OF this(3,1,2) _, of "[]"] this(4) show ?thesis by auto
qed

section \<open>Load, unload and headers\<close>

text \<open>
  Unloading in any reachable state frees exactly the buffers of the two pools, each once; the
  buffers still on a receive queue stay allocated for ever.
\<close>

theorem snull_cleanup_leaks_in_flight:
  assumes "kmalloc_ok E" "ether_setup_ok E" "boot w0"
    and "snull_init_module E m alloc reg w0 = Inr (0, w1)" "snull_reach E n P w1 w"
    and "\<forall>d. snull_devs w d" "\<forall>d. length (pool_of E d) < fuel"
  shows "\<exists>pool rxq w'. bufs_inv None pool rxq [] w \<and> snull_cleanup E fuel w = Inr w'
    \<and> dom (pkts w') = set (rxq SN0) \<union> set (rxq SN1)
    \<and> dom (pkts w) - dom (pkts w') = set (pool SN0) \<union> set (pool SN1)"
proof -
  have q: "bufs_inv None (pool_of E) (\<lambda>_. []) [] w1" using load_quiet [OF assms(1-4)] by (simp add: quiet_def)
  obtain pool rxq where i: "bufs_inv None pool rxq [] w" "owner w = owner w1"
    using snull_reach_inv [OF assms(5) q] by blast
  have "length (pool d) < fuel" for d
  proof -
    have "distinct (pool d)"
      using i(1) all_bufs_sym(1) [of pool rxq "[]" d] by (auto simp: bufs_inv_def all_bufs_def)
    then have "length (pool d) = card (set (pool d))" by (simp add: distinct_card)
    also have "\<dots> \<le> card (set (pool_of E d))"
      using bufs_inv_owned [OF i(1), of _ d] bufs_inv_owned [OF q, of _ d] i(2) by (intro card_mono) auto
    also have "\<dots> \<le> length (pool_of E d)" by (rule card_length)
    finally show ?thesis using assms(7) le_less_trans by blast
  qed
  then obtain w' where w': "snull_cleanup E fuel w = Inr w'" "dom (pkts w') = set (rxq SN0) \<union> set (rxq SN1)"
    using snull_cleanup_inv [OF i(1), of fuel E] assms(6) by blast
  have "dom (pkts w) - dom (pkts w') = set (pool SN0) \<union> set (pool SN1)"
    using i(1) w'(2) by (auto simp: bufs_inv_def all_bufs_def)
  then show ?thesis using i(1) w' by blast
qed

theorem snull_cleanup_leaks_in_flight_witness:
  "\<exists>w w'. snull_init_module (sample_senv False 1) 9 (\<lambda>_. True) (\<lambda>_. 0) sample_boot = Inr (0, w)
     \<and> snull_cleanup (sample_senv False 1) 2 w = Inr w'"
proof -
  obtain w where w: "snull_init_module (sample_senv False 1) 9 (\<lambda>_. True) (\<lambda>_. 0) sample_boot = Inr (0, w)"
    by (rule sample_loaded)
  have "\<forall>d. snull_devs w d" using load_quiet [OF sample_senv_ok(1-3) w] by blast
  moreover have "\<forall>d. length (pool_of (sample_senv False 1) d) < 2" by (simp add: sample_pool)
  ultimately show ?thesis
    using snull_cleanup_leaks_in_flight [OF sample_senv_ok(1-3) w snull_reach.start] w by blast
qed

text \<open>
  When neither device registers, loading fails with \<open>-ENODEV\<close> and gives back every packet buffer, but
  calls \<open>unregister_netdev\<close> on both devices although they were never registered.
\<close>

theorem snull_failed_load:
  assumes "kmalloc_ok E" "ether_setup_ok E" "boot w" "alloc SN0" "alloc SN1" "reg SN0 \<noteq> 0" "reg SN1 \<noteq> 0"
    and "nat (pool_size E) < fuel" "\<forall>d. \<not> registered (devs (alloc_dev E alloc SN1 (alloc_dev E alloc SN0 w)) d)"
  shows "\<exists>w'. snull_init_module E fuel alloc reg w = Inr (- ENODEV, w') \<and> pkts w' = (\<lambda>_. None)
    \<and> slog w' = slog w @ [UnregisterNetdev SN0 False, FreeNetdev SN0, UnregisterNetdev SN1 False, FreeNetdev SN1]"
  using failed_load [OF assms(1-8)] assms(9) by simp

theorem snull_failed_load_witness:
  "\<exists>w'. snull_init_module (sample_senv False 1) 9 (\<lambda>_. True) (\<lambda>_. 1) sample_boot = Inr (- ENODEV, w')
     \<and> pkts w' = (\<lambda>_. None)"
proof -
  have "\<forall>d. \<not> registered (devs (alloc_dev (sample_senv False 1) (\<lambda>_. True) SN1
      (alloc_dev (sample_senv False 1) (\<lambda>_. True) SN0 sample_boot)) d)"
  proof
    fix d
    show "\<not> registered (devs (alloc_dev (sample_senv False 1) (\<lambda>_. True) SN1
      (alloc_dev (sample_senv False 1) (\<lambda>_. True) SN0 sample_boot)) d)"
      by (cases d) (simp_all add: alloc_dev_def Let_def snull_init_def snull_setup_pool_def sample_senv_def
          sample_boot_def sample_sdev_def upd_dev_def upd_priv_def snull_rx_ints_def set_pkt_def)
  qed
  moreover have "nat (pool_size (sample_senv False 1)) < 9" by (simp add: sample_senv_def)
  ultimately show ?thesis
    using snull_failed_load [OF sample_senv_ok(1-3), of "\<lambda>_. True" "\<lambda>_. 1" False 1 9] by auto
qed

text \<open>
  Once the devices are open, a header built without explicit addresses is from this device and
  to its twin: the two hardware addresses differ exactly in the bit \<open>snull_header\<close> flips. The call returns
  the header length and leaves the payload alone.
\<close>

theorem snull_header_addresses_twin:
  assumes "dev_addr dev = snull_hw_addr d" "addr_len dev = ETH_ALEN" "length headroom = ETH_HLEN"
  shows "snull_header headroom body dev type None None
    = Inr (hard_header_len dev, snull_hw_addr (twin d) @ snull_hw_addr d @ be16_bytes type @ body)"
proof -
  obtain hs where hs: "headroom = hs" "length hs = 14" using assms(3) by blast
  have l: "length (snull_hw_addr d) = 6" "length (snull_hw_addr (twin d)) = 6"
    by (cases d; simp add: snull_hw_addr_def)+
  have x: "(snull_hw_addr d)[5 := snull_hw_addr d ! 5 XOR 1] = snull_hw_addr (twin d)"
    by (cases d) (simp_all add: snull_hw_addr_def)
  have p: "put 0 (snull_hw_addr d) (put 6 (snull_hw_addr d) (put 12 (be16_bytes type) (hs @ body)))
      = snull_hw_addr d @ snull_hw_addr d @ be16_bytes type @ body"
    using hs(2) l by (simp add: put_def)
  have "(snull_hw_addr d @ ys)[5 := (snull_hw_addr d @ ys) ! 5 XOR 1] = snull_hw_addr (twin d) @ ys" for ys
    using l x by (simp add: list_update_append nth_append)
  then show ?thesis using assms hs l p by (simp add: snull_header_def Let_def)
qed

theorem snull_header_addresses_twin_witness:
  "\<exists>w :: sworld. snull_header (replicate 14 0) [1, 2, 3] (devs w SN0) ETH_P_IP None None
     = Inr (14, [0, 0x53, 0x4e, 0x55, 0x4c, 0x31, 0, 0x53, 0x4e, 0x55, 0x4c, 0x30, 8, 0, 1, 2, 3])"
proof -
  let ?dev = "sample_sdev\<lparr>dev_addr := snull_hw_addr SN0, addr_len := 6, hard_header_len := 14\<rparr>"
  have "dev_addr ?dev = snull_hw_addr SN0" "addr_len ?dev = ETH_ALEN" "length (replicate 14 (0 :: u8)) = ETH_HLEN"
    by simp_all
  from snull_header_addresses_twin [OF this, of "[1, 2, 3]" ETH_P_IP] show ?thesis
    by (intro exI [of _ "sample_boot\<lparr>devs := \<lambda>_. ?dev\<rparr>"]) (simp add: snull_hw_addr_def be16_bytes_def)
qed

end
