(* ===== verification/Cstrings.thy ===== *)
theory Cstrings
  imports Prelude
begin

text \<open>
  C strings and the formatting functions the user-space programs share: \<open>snprintf\<close> with its
  truncation, \<open>%d\<close> of a natural number, \<open>inet_ntop\<close> for IPv4, and the string found in a buffer.
\<close>

function (sequential) decimal :: "nat \<Rightarrow> bytes" where
  "decimal n = (if n < 10 then [48 + of_nat n] else decimal (n div 10) @ [48 + of_nat (n mod 10)])"
  by pat_completeness auto
termination by (relation "measure id") auto

declare decimal.simps [simp del]

text \<open>The bytes of a string literal.\<close>

definition ascii :: "string \<Rightarrow> bytes" where
  "ascii s = map of_char s"

definition snprintf :: "nat \<Rightarrow> bytes \<Rightarrow> bytes" where
  "snprintf n s = take (n - 1) s"

text \<open>The string that starts at the buffer: reading on past the end of the buffer is a fault.\<close>

definition cstring :: "bytes \<Rightarrow> bytes res" where
  "cstring buf = (if 0 \<in> set buf then Inr (takeWhile (\<lambda>b. b \<noteq> 0) buf) else Inl OutOfBounds)"

text \<open>Reads that stay inside a buffer, and fault outside it.\<close>

definition get8 :: "bytes \<Rightarrow> nat \<Rightarrow> nat res" where
  "get8 buf i = (if i < length buf then Inr (unat (buf ! i)) else Inl OutOfBounds)"

definition get_bytes :: "bytes \<Rightarrow> nat \<Rightarrow> nat \<Rightarrow> bytes res" where
  "get_bytes buf i n = (if i + n \<le> length buf then Inr (slice buf i n) else Inl OutOfBounds)"

definition inet_ntop :: "bytes \<Rightarrow> bytes" where
  "inet_ntop a = decimal (unat (a ! 0)) @ [46] @ decimal (unat (a ! 1)) @ [46]
               @ decimal (unat (a ! 2)) @ [46] @ decimal (unat (a ! 3))"

definition is_digit :: "u8 \<Rightarrow> bool" where
  "is_digit d \<longleftrightarrow> 48 \<le> d \<and> d \<le> 57"

definition digits_val :: "bytes \<Rightarrow> nat" where
  "digits_val ds = foldl (\<lambda>n d. 10 * n + (unat d - 48)) 0 ds"

lemma length_decimal: "0 < k \<Longrightarrow> n < 10 ^ k \<Longrightarrow> length (decimal n) \<le> k"
proof (induction k arbitrary: n)
  case (Suc k)
  show ?case
  proof (cases "n < 10")
    case False
    then have "k \<noteq> 0" "n div 10 < 10 ^ k" using Suc.prems(2) by (auto intro!: Nat.gr0I)
    then show ?thesis using Suc.IH [of "n div 10"] False by (subst decimal.simps) simp
  qed (subst decimal.simps, simp)
qed simp

text \<open>The digits of a number are no terminators.\<close>

lemma no_zero_decimal: "0 \<notin> set (decimal n)"
proof (induction n rule: decimal.induct)
  case (1 n)
  have d: "(48 :: u8) + of_nat k \<noteq> 0" if "k < 10" for k :: nat
  proof
    assume "(48 :: u8) + of_nat k = 0"
    then have "unat ((48 :: u8) + of_nat k) = 0" by simp
    then have "(48 + k) mod 256 = 0" by (simp add: unat_word_ariths unat_of_nat mod_add_right_eq)
    then show False using that by simp
  qed
  show ?case
  proof (cases "n < 10")
    case True
    then show ?thesis using d [of n] by (subst decimal.simps) auto
  next
    case False
    then show ?thesis using 1 d [of "n mod 10"] by (subst decimal.simps) auto
  qed
qed

lemma no_zero_inet_ntop: "0 \<notin> set (inet_ntop a)"
  using no_zero_decimal by (simp add: inet_ntop_def)

lemma length_inet_ntop: "length (inet_ntop a) \<le> 15"
proof -
  have "length (decimal (unat b)) \<le> 3" for b :: u8
    using less_trans [OF unat_byte_less [of b], of 1000] by (intro length_decimal) simp_all
  from this [of "a ! 0"] this [of "a ! 1"] this [of "a ! 2"] this [of "a ! 3"] show ?thesis
    by (simp add: inet_ntop_def)
qed

text \<open>The decimal text is made of digits and determines the number.\<close>

lemma digit_byte:
  assumes "n < 10"
  shows "is_digit (48 + of_nat n)" "unat (48 + of_nat n :: u8) = 48 + n"
proof -
  have "48 + of_nat n = (of_nat (48 + n) :: u8)" by simp
  then show u: "unat (48 + of_nat n :: u8) = 48 + n" using assms by (simp only: unat_of_nat) simp
  show "is_digit (48 + of_nat n)" using assms u by (simp add: is_digit_def word_le_nat_alt)
qed

lemma decimal_digits: "decimal n \<noteq> [] \<and> (\<forall>d \<in> set (decimal n). is_digit d) \<and> digits_val (decimal n) = n"
proof (induction n rule: decimal.induct)
  case (1 n)
  show ?case
  proof (cases "n < 10")
    case True
    then show ?thesis by (subst (1 2 3) decimal.simps) (simp add: digit_byte digits_val_def)
  next
    case False
    have "n mod 10 < 10" by simp
    then show ?thesis using False 1 digit_byte [of "n mod 10"]
      by (subst (1 2 3) decimal.simps) (auto simp: digits_val_def)
  qed
qed

lemma decimal_inject: "decimal m = decimal n \<longleftrightarrow> m = n"
  using decimal_digits by metis

lemma decimal_takeWhile: "takeWhile is_digit (decimal n @ 46 # x) = decimal n"
proof -
  have "\<not> is_digit 46" by (simp add: is_digit_def)
  then show ?thesis using decimal_digits [of n] by (simp add: takeWhile_append2)
qed

lemma decimal_dot: "decimal m @ 46 # x = decimal n @ 46 # y \<longleftrightarrow> m = n \<and> x = y"
  using decimal_takeWhile [of m x] decimal_takeWhile [of n y] decimal_inject by (metis append_same_eq same_append_eq list.inject)

text \<open>Different addresses have different texts.\<close>

lemma inet_ntop_inject:
  assumes "length a = 4" "length b = 4"
  shows "inet_ntop a = inet_ntop b \<longleftrightarrow> a = b"
proof -
  obtain a0 a1 a2 a3 b0 b1 b2 b3 where "a = [a0, a1, a2, a3]" "b = [b0, b1, b2, b3]"
    using assms by (auto simp: numeral_eq_Suc length_Suc_conv)
  then show ?thesis by (auto simp: inet_ntop_def decimal_dot decimal_inject word_unat_eq_iff)
qed

end
