(* ===== verification/Chat_Server.thy ===== *)
theory Chat_Server
  imports Cstrings
begin

text \<open>
  The chat room of \<open>select/chat-server/\<close>: the server (\<open>server.c\<close>) with its table of clients, its main
  loop and one thread per connection, and the client (\<open>client.c\<close>).

  \<^item> The table \<open>clients\<close> is a list of \<open>MAX_CLIENTS\<close> records; \<open>add_client\<close> and \<open>remove_client\<close> scan it for the
    first suitable slot, and both are interpretations of the locale \<open>slot_scan\<close>.
  \<^item> A thread keeps a pointer into the table, here an index; every use of it is checked.
  \<^item> \<open>sv_exec\<close> is one step of the main loop or of a thread, between two points where another
    thread can run; \<open>sv_reach\<close> are the states any interleaving of such steps can reach. The network
    and the scheduler choose the events.
  \<^item> Strings are byte lists without the terminating NUL; a buffer without a NUL is a fault for
    every function that looks for it.
\<close>

section \<open>The client table\<close>

abbreviation MAX_CLIENTS :: nat where "MAX_CLIENTS \<equiv> 30"
abbreviation BUFFER_SIZE :: nat where "BUFFER_SIZE \<equiv> 1024"

record sockaddr_in =
  sin_addr :: bytes
  sin_port :: u16

record client_info =
  sockfd :: int
  caddr :: sockaddr_in
  cip :: bytes
  cport :: int

datatype read_result = ReadData bytes | ReadEof | ReadError

datatype tphase = TWelcome | TJoin | TRead | TRemove | TClose | TDone

record thread =
  tsock :: int
  tclient :: int
  tphase :: tphase

datatype main_pc = MSelect | MAdded int | MFailed int

record server =
  clients :: "client_info list"
  client_count :: int
  threads :: "thread list"
  open_fds :: "int list"
  sent :: "(int \<times> bytes) list"
  main_pc :: main_pc

definition fill_slot :: "int \<Rightarrow> sockaddr_in \<Rightarrow> client_info \<Rightarrow> client_info" where
  "fill_slot fd addr c = c\<lparr>sockfd := fd, caddr := addr, cip := inet_ntop (sin_addr addr), cport := uint (sin_port addr)\<rparr>"

definition clear_slot :: "client_info \<Rightarrow> client_info" where
  "clear_slot c = c\<lparr>sockfd := 0, cip := [], cport := 0\<rparr>"

fun add_scan :: "int \<Rightarrow> sockaddr_in \<Rightarrow> client_info list \<Rightarrow> client_info list option" where
  "add_scan fd addr [] = None"
| "add_scan fd addr (c # cs) =
     (if sockfd c = 0 then Some (fill_slot fd addr c # cs) else map_option ((#) c) (add_scan fd addr cs))"

definition add_client :: "int \<Rightarrow> sockaddr_in \<Rightarrow> server \<Rightarrow> server" where
  "add_client fd addr S =
     (case add_scan fd addr (clients S) of
        None \<Rightarrow> S
      | Some cs \<Rightarrow> S\<lparr>clients := cs, client_count := client_count S + 1\<rparr>)"

fun remove_scan :: "int \<Rightarrow> client_info list \<Rightarrow> client_info list option" where
  "remove_scan fd [] = None"
| "remove_scan fd (c # cs) =
     (if sockfd c = fd then Some (clear_slot c # cs) else map_option ((#) c) (remove_scan fd cs))"

definition remove_client :: "int \<Rightarrow> server \<Rightarrow> server" where
  "remove_client fd S =
     (case remove_scan fd (clients S) of
        None \<Rightarrow> S
      | Some cs \<Rightarrow> S\<lparr>clients := cs, client_count := client_count S - 1\<rparr>)"

definition broadcast_message :: "bytes \<Rightarrow> int \<Rightarrow> server \<Rightarrow> server" where
  "broadcast_message msg sender S =
     S\<lparr>sent := sent S @ map (\<lambda>c. (sockfd c, msg)) (filter (\<lambda>c. sockfd c > 0 \<and> sockfd c \<noteq> sender) (clients S))\<rparr>"

definition close_fd :: "int \<Rightarrow> server \<Rightarrow> server" where
  "close_fd fd S = S\<lparr>open_fds := removeAll fd (open_fds S)\<rparr>"

definition cleanup :: "server \<Rightarrow> server" where
  "cleanup S = S\<lparr>open_fds := filter (\<lambda>fd. \<not> (fd > 0 \<and> fd \<in> sockfd ` set (clients S))) (open_fds S)\<rparr>"

section \<open>Messages\<close>

definition strip_newline :: "bytes \<Rightarrow> bytes" where
  "strip_newline s = takeWhile (\<lambda>b. b \<noteq> 10) s"

definition client_label :: "client_info \<Rightarrow> bytes" where
  "client_label c = cip c @ [58] @ decimal (nat (cport c))"

definition welcome_text :: "client_info \<Rightarrow> bytes" where
  "welcome_text c = snprintf BUFFER_SIZE ([230, 172, 162, 232, 191, 142, 32] @ client_label c @
     [32, 229, 138, 160, 229, 133, 165, 232, 129, 138, 229, 164, 169, 229, 174, 164, 239, 188, 129, 10])"

definition join_text :: "client_info \<Rightarrow> bytes" where
  "join_text c = snprintf BUFFER_SIZE ([231, 179, 187, 231, 187, 159, 58, 32] @ client_label c @
     [32, 229, 138, 160, 229, 133, 165, 228, 186, 134, 232, 129, 138, 229, 164, 169, 229, 174, 164, 10])"

definition leave_text :: "client_info \<Rightarrow> bytes" where
  "leave_text c = snprintf BUFFER_SIZE ([231, 179, 187, 231, 187, 159, 58, 32] @ client_label c @
     [32, 231, 166, 187, 229, 188, 128, 228, 186, 134, 232, 129, 138, 229, 164, 169, 229, 174, 164, 10])"

definition chat_text :: "client_info \<Rightarrow> bytes \<Rightarrow> bytes" where
  "chat_text c s = snprintf (BUFFER_SIZE + 50) ([91] @ client_label c @ [93, 58, 32] @ s @ [10])"

section \<open>Threads\<close>

definition client_at :: "server \<Rightarrow> int \<Rightarrow> client_info res" where
  "client_at S i = (if 0 \<le> i \<and> nat i < length (clients S) then Inr (clients S ! nat i) else Inl OutOfBounds)"

text \<open>\<open>read\<close> fills the zeroed buffer; the string in it is what the thread works on.\<close>

definition handle_message :: "thread \<Rightarrow> bytes \<Rightarrow> server \<Rightarrow> server res" where
  "handle_message t data S =
     (let buffer = put 0 data (replicate BUFFER_SIZE 0) in
      rbind (cstring buffer) (\<lambda>s.
        if s = [] then Inr S
        else rbind (client_at S (tclient t)) (\<lambda>c.
               Inr (broadcast_message (chat_text c (strip_newline s)) (tsock t) S))))"

text \<open>
  One step of \<open>handle_client\<close>: the welcome, the announcement, one \<open>read\<close> with what follows it, the
  removal from the table, the close. The result is the next phase and the new state.
\<close>

fun handle_client :: "thread \<Rightarrow> read_result \<Rightarrow> server \<Rightarrow> (tphase \<times> server) res" where
  "handle_client t r S =
     (case tphase t of
        TWelcome \<Rightarrow> rbind (client_at S (tclient t)) (\<lambda>c.
          Inr (TJoin, S\<lparr>sent := sent S @ [(tsock t, welcome_text c)]\<rparr>))
      | TJoin \<Rightarrow> rbind (client_at S (tclient t)) (\<lambda>c.
          Inr (TRead, broadcast_message (join_text c) (tsock t) S))
      | TRead \<Rightarrow>
          (case r of
             ReadData data \<Rightarrow> rbind (handle_message t data S) (\<lambda>S. Inr (TRead, S))
           | _ \<Rightarrow> rbind (client_at S (tclient t)) (\<lambda>c.
               Inr (TRemove, broadcast_message (leave_text c) (tsock t) S)))
      | TRemove \<Rightarrow> Inr (TClose, remove_client (tsock t) S)
      | TClose \<Rightarrow> Inr (TDone, close_fd (tsock t) S)
      | TDone \<Rightarrow> Inr (TDone, S))"

section \<open>The main loop\<close>

text \<open>The set the main loop waits on, and its largest descriptor.\<close>

definition select_fds :: "int \<Rightarrow> server \<Rightarrow> int list" where
  "select_fds server_fd S = server_fd # filter (\<lambda>fd. fd > 0) (map sockfd (clients S))"

definition select_max :: "int \<Rightarrow> server \<Rightarrow> int" where
  "select_max server_fd S =
     fold (\<lambda>c m. if sockfd c > 0 \<and> sockfd c > m then sockfd c else m) (clients S) server_fd"

text \<open>
  What \<open>select\<close> returns: a failure, by a signal or not, or whether the listening socket is among the descriptors
  reported. A failed call is at most complained about and leaves \<open>readfds\<close> as it was built, with the listening
  socket in it.
\<close>

datatype sel_result = SelFailed bool | SelReported bool

definition listener_isset :: "sel_result \<Rightarrow> bool" where
  "listener_isset sel = (case sel of SelFailed eintr \<Rightarrow> True | SelReported b \<Rightarrow> b)"

datatype sv_event =
    Round sel_result "(int \<times> sockaddr_in) option"
  | Spawn bool
  | DropClient
  | Run nat read_result

text \<open>A new connection.\<close>

abbreviation Accept :: "int \<Rightarrow> sockaddr_in \<Rightarrow> sv_event" where
  "Accept fd addr \<equiv> Round (SelReported True) (Some (fd, addr))"

text \<open>
  \<open>None\<close>: the event is not possible in this state. \<open>Round\<close> is one round of the main loop up to \<open>add_client\<close>: \<open>select\<close> and,
  if the listening socket is in the set, \<open>accept\<close>, which fails or returns a descriptor that is not
  open; \<open>Spawn b\<close> is the rest of the round, with \<open>pthread_create\<close> succeeding or
  not (then the socket is closed and, in \<open>DropClient\<close>, removed). \<open>read\<close> returns at most \<open>BUFFER_SIZE\<close> bytes.
\<close>

fun read_ok :: "read_result \<Rightarrow> bool" where
  "read_ok (ReadData data) \<longleftrightarrow> data \<noteq> [] \<and> length data \<le> BUFFER_SIZE"
| "read_ok _ \<longleftrightarrow> True"

fun sv_exec :: "sv_event \<Rightarrow> server \<Rightarrow> server res option" where
  "sv_exec (Round sel acc) S =
     (if main_pc S \<noteq> MSelect then None
      else if \<not> listener_isset sel then Some (Inr S)
      else case acc of
        None \<Rightarrow> Some (Inr S)
      | Some (fd, addr) \<Rightarrow>
          if fd > 0 \<and> fd \<notin> set (open_fds S)
          then Some (Inr ((add_client fd addr (S\<lparr>open_fds := fd # open_fds S\<rparr>))\<lparr>main_pc := MAdded fd\<rparr>))
          else None)"
| "sv_exec (Spawn ok) S =
     (case main_pc S of
        MAdded fd \<Rightarrow>
          Some (Inr (if ok
            then S\<lparr>threads := threads S @ [\<lparr>tsock = fd, tclient = client_count S - 1, tphase = TWelcome\<rparr>],
                   main_pc := MSelect\<rparr>
            else (close_fd fd S)\<lparr>main_pc := MFailed fd\<rparr>))
      | _ \<Rightarrow> None)"
| "sv_exec DropClient S =
     (case main_pc S of
        MFailed fd \<Rightarrow> Some (Inr ((remove_client fd S)\<lparr>main_pc := MSelect\<rparr>))
      | _ \<Rightarrow> None)"
| "sv_exec (Run i r) S =
     (if i < length (threads S) \<and> tphase (threads S ! i) \<noteq> TDone \<and> read_ok r then
        Some (rbind (handle_client (threads S ! i) r S) (\<lambda>(ph, S).
          Inr (S\<lparr>threads := (threads S)[i := (threads S ! i)\<lparr>tphase := ph\<rparr>]\<rparr>)))
      else None)"

definition empty_slot :: client_info where
  "empty_slot = \<lparr>sockfd = 0, caddr = \<lparr>sin_addr = [0, 0, 0, 0], sin_port = 0\<rparr>, cip = [], cport = 0\<rparr>"

definition server_init :: server where
  "server_init = \<lparr>clients = replicate MAX_CLIENTS empty_slot, client_count = 0, threads = [], open_fds = [],
     sent = [], main_pc = MSelect\<rparr>"

text \<open>
  Start-up: the exit code, or \<open>None\<close> when the main loop is reached. The arguments are what the calls
  return; the program takes 0 from \<open>socket\<close>, not a negative number, for failure.
\<close>

record sv_answers =
  v_socket :: int
  v_setsockopt :: int
  v_pton :: int
  v_bind :: int
  v_listen :: int

definition sv_start :: "sv_answers \<Rightarrow> int option" where
  "sv_start A =
     (if v_socket A = 0 then Some 1
      else if v_setsockopt A \<noteq> 0 then Some 1
      else if v_pton A \<le> 0 then Some 1
      else if v_bind A < 0 then Some 1
      else if v_listen A < 0 then Some 1
      else None)"

text \<open>
  The handler of \<open>SIGINT\<close> locks the mutex: if the thread it interrupts holds it, the program hangs. The
  exit code is 0.
\<close>

definition sigint_handler :: "bool \<Rightarrow> server \<Rightarrow> (int \<times> server) res" where
  "sigint_handler mutex_held S = (if mutex_held then Inl Deadlock else Inr (0, cleanup S))"

inductive sv_reach :: "server \<Rightarrow> bool" where
  start: "sv_reach server_init"
| step: "sv_reach S \<Longrightarrow> sv_exec e S = Some (Inr S') \<Longrightarrow> sv_reach S'"

section \<open>The client program\<close>

text \<open>
  The sending loop of \<open>client.c\<close> on a list of inputs: what \<open>fgets\<close> reads (\<open>None\<close> at end of file, when
  the zeroed buffer stays empty) and whether \<open>send\<close> succeeds. The result is what was sent and
  whether the loop ended.
\<close>

fun client_loop :: "(bytes option \<times> bool) list \<Rightarrow> bytes list \<Rightarrow> (bytes list \<times> bool) res" where
  "client_loop [] out = Inr (out, False)"
| "client_loop ((inp, ok) # rest) out =
     (let line = (case inp of None \<Rightarrow> [] | Some l \<Rightarrow> l) in
      rbind (cstring (put 0 line (replicate BUFFER_SIZE 0))) (\<lambda>s.
        let s = strip_newline s in
        if s = [113, 117, 105, 116] then Inr (out, True)
        else if s = [] then client_loop rest out
        else if ok then client_loop rest (out @ [s])
        else Inr (out @ [s], True)))"

text \<open>The receiving thread: what it prints of each \<open>read\<close>, until the server closes or fails.\<close>

fun receive_messages :: "(read_result \<times> bool) list \<Rightarrow> bytes list \<Rightarrow> (bytes list \<times> bool) res" where
  "receive_messages [] out = Inr (out, False)"
| "receive_messages ((r, eintr) # rest) out =
     (case r of
        ReadData data \<Rightarrow>
          if data = [] then Inr (out, True)
          else rbind (cstring (put 0 data (replicate BUFFER_SIZE 0))) (\<lambda>s. receive_messages rest (out @ [s]))
      | ReadEof \<Rightarrow> Inr (out, True)
      | ReadError \<Rightarrow> if eintr then receive_messages rest out else Inr (out, True))"

text \<open>
  The whole client, given what \<open>socket\<close>, \<open>inet_pton\<close>, \<open>connect\<close> and \<open>pthread_create\<close> return: the exit code (\<open>None\<close> while it
  runs), what it sent, and whether it closed its socket.
\<close>

record cl_answers =
  c_socket :: int
  c_pton :: int
  c_connect :: int
  c_thread :: int

definition client_main :: "cl_answers \<Rightarrow> (bytes option \<times> bool) list \<Rightarrow> (int option \<times> bytes list \<times> bool) res" where
  "client_main A input =
     (if c_socket A < 0 then Inr (Some (- 1), [], False)
      else if c_pton A \<le> 0 then Inr (Some (- 1), [], False)
      else if c_connect A < 0 then Inr (Some (- 1), [], False)
      else if c_thread A \<noteq> 0 then Inr (Some (- 1), [], True)
      else rbind (client_loop input []) (\<lambda>(out, ended).
        if ended then Inr (Some 0, out, True) else Inr (None, out, False)))"

text \<open>The handler of \<open>SIGINT\<close>: the exit code, the new \<open>running\<close> and the descriptors closed.\<close>

definition client_sigint_handler :: "int \<Rightarrow> bool \<Rightarrow> int \<times> bool \<times> int list" where
  "client_sigint_handler sock running = (0, False, if sock > 0 then [sock] else [])"

end
