(* ===== verification/Chat_Inv.thy ===== *)
theory Chat_Inv
  imports Chat_Server
begin

text \<open>
  The table of the chat server under every interleaving. The locale \<open>slot_scan\<close> is the contract of a
  scan that changes the first suitable slot; \<open>add_client\<close> and \<open>remove_client\<close> are its instances. \<open>sv_inv\<close>
  is the invariant of the server, shown step by step in \<open>sv_exec_inv\<close>.
\<close>

section \<open>Scanning the table\<close>

locale slot_scan =
  fixes scan :: "'c list \<Rightarrow> 'c list option" and P :: "'c \<Rightarrow> bool" and f :: "'c \<Rightarrow> 'c"
  assumes scan_Nil: "scan [] = None"
    and scan_Cons: "scan (c # cs) = (if P c then Some (f c # cs) else map_option ((#) c) (scan cs))"
begin

lemma scan_None: "scan cs = None \<longleftrightarrow> (\<forall>c \<in> set cs. \<not> P c)"
  by (induction cs) (auto simp: scan_Nil scan_Cons)

lemma scan_Some:
  "scan cs = Some cs' \<Longrightarrow> \<exists>as c bs. cs = as @ c # bs \<and> (\<forall>a \<in> set as. \<not> P a) \<and> P c \<and> cs' = as @ f c # bs"
proof (induction cs arbitrary: cs')
  case (Cons x cs)
  show ?case
  proof (cases "P x")
    case True
    then show ?thesis using Cons.prems by (intro exI [of _ "[]"]) (simp add: scan_Cons)
  next
    case False
    then obtain ds where ds: "scan cs = Some ds" "cs' = x # ds" using Cons.prems by (auto simp: scan_Cons)
    then obtain as c bs where "cs = as @ c # bs" "\<forall>a \<in> set as. \<not> P a" "P c" "ds = as @ f c # bs"
      using Cons.IH by blast
    then show ?thesis using False ds(2) by (intro exI [of _ "x # as"]) auto
  qed
qed (simp add: scan_Nil)

lemma scan_length: "scan cs = Some cs' \<Longrightarrow> length cs' = length cs"
  by (drule scan_Some) auto

lemma scan_first:
  assumes "i < length cs" "P (cs ! i)" "\<forall>j < i. \<not> P (cs ! j)"
  shows "scan cs = Some (cs[i := f (cs ! i)])"
  using assms
proof (induction cs arbitrary: i)
  case (Cons x cs)
  show ?case
  proof (cases i)
    case 0
    then show ?thesis using Cons.prems by (simp add: scan_Cons)
  next
    case (Suc k)
    then have "\<not> P x" "\<forall>j < k. \<not> P (cs ! j)" using Cons.prems(3) by (auto dest: spec [of _ "Suc _"])
    then show ?thesis using Cons.IH [of k] Cons.prems Suc by (simp add: scan_Cons)
  qed
qed simp

end

interpretation adds: slot_scan "add_scan fd addr" "\<lambda>c. sockfd c = 0" "fill_slot fd addr" for fd addr
  by unfold_locales simp_all

interpretation removes: slot_scan "remove_scan fd" "\<lambda>c. sockfd c = fd" clear_slot for fd
  by unfold_locales simp_all

section \<open>The descriptors in the table\<close>

lemma listener_reported [simp]: "listener_isset (SelReported b) = b"
  by (simp add: listener_isset_def)

definition fds :: "client_info list \<Rightarrow> int list" where
  "fds cs = filter (\<lambda>fd. fd \<noteq> 0) (map sockfd cs)"

lemma fds_simps [simp]: "fds [] = []" "fds (c # cs) = (if sockfd c = 0 then fds cs else sockfd c # fds cs)"
    "fds (as @ bs) = fds as @ fds bs"
  by (simp_all add: fds_def)

lemma fds_mem: "fd \<in> set (fds cs) \<longleftrightarrow> fd \<noteq> 0 \<and> fd \<in> sockfd ` set cs"
  by (auto simp: fds_def)

lemma length_fds: "length (fds cs) \<le> length cs"
  by (simp add: fds_def)

lemma slot_sockfd [simp]: "sockfd (fill_slot fd addr c) = fd" "sockfd (clear_slot c) = 0"
  by (simp_all add: fill_slot_def clear_slot_def)

lemma add_scan_fds:
  assumes "add_scan fd addr cs = Some cs'" "fd \<noteq> 0"
  shows "length cs' = length cs" "length (fds cs') = Suc (length (fds cs))" "set (fds cs') = insert fd (set (fds cs))"
    "distinct (fds cs) \<Longrightarrow> fd \<notin> set (fds cs) \<Longrightarrow> distinct (fds cs')"
  using adds.scan_Some [OF assms(1)] assms(2) by auto

lemma remove_scan_fds:
  assumes "remove_scan fd cs = Some cs'" "fd \<noteq> 0" "distinct (fds cs)"
  shows "length cs' = length cs" "Suc (length (fds cs')) = length (fds cs)" "set (fds cs') = set (fds cs) - {fd}"
    "distinct (fds cs')"
  using removes.scan_Some [OF assms(1)] assms(2,3) by auto

lemma remove_scan_None: "remove_scan fd cs = None \<Longrightarrow> fd \<notin> set (fds cs)"
  using removes.scan_None [of fd cs] by (auto simp: fds_mem)

section \<open>The invariant\<close>

definition slot_ok :: "client_info \<Rightarrow> bool" where
  "slot_ok c \<longleftrightarrow> length (cip c) \<le> 15 \<and> 0 \<notin> set (cip c) \<and> 0 \<le> cport c \<and> cport c < 65536"

text \<open>
  The table has all its slots, \<open>client_count\<close> counts the used ones, no descriptor is in two slots, and a
  descriptor in the table is open (or its thread could not be created and it is about to be
  removed). A live thread's socket is open and its own; when it is about to be closed it is no
  longer in the table.
\<close>

definition table_inv :: "server \<Rightarrow> bool" where
  "table_inv S \<longleftrightarrow> length (clients S) = MAX_CLIENTS \<and> client_count S = int (length (fds (clients S)))
     \<and> distinct (fds (clients S))
     \<and> (\<forall>fd \<in> set (fds (clients S)). fd > 0 \<and> (fd \<in> set (open_fds S) \<or> main_pc S = MFailed fd))
     \<and> (\<forall>c \<in> set (clients S). slot_ok c)"

definition live :: "server \<Rightarrow> nat \<Rightarrow> bool" where
  "live S i \<longleftrightarrow> i < length (threads S) \<and> tphase (threads S ! i) \<noteq> TDone"

definition thread_inv :: "server \<Rightarrow> bool" where
  "thread_inv S \<longleftrightarrow>
     (\<forall>i. live S i \<longrightarrow> tsock (threads S ! i) > 0 \<and> tsock (threads S ! i) \<in> set (open_fds S)
        \<and> main_pc S \<noteq> MAdded (tsock (threads S ! i))
        \<and> (tphase (threads S ! i) = TClose \<longrightarrow> tsock (threads S ! i) \<notin> set (fds (clients S))))
     \<and> (\<forall>i j. live S i \<longrightarrow> live S j \<longrightarrow> i \<noteq> j \<longrightarrow> tsock (threads S ! i) \<noteq> tsock (threads S ! j))
     \<and> (\<forall>fd. main_pc S = MAdded fd \<longrightarrow> fd > 0 \<and> fd \<in> set (open_fds S))
     \<and> (\<forall>fd. main_pc S = MFailed fd \<longrightarrow> fd > 0)"

definition sv_inv :: "server \<Rightarrow> bool" where
  "sv_inv S \<longleftrightarrow> table_inv S \<and> thread_inv S"

lemma fill_slot_ok: "slot_ok (fill_slot fd addr c)"
  using length_inet_ntop [of "sin_addr addr"] no_zero_inet_ntop [of "sin_addr addr"] uint_bounded [of "sin_port addr"] by (simp add: slot_ok_def fill_slot_def)

lemma clear_slot_ok: "slot_ok (clear_slot c)"
  by (simp add: slot_ok_def clear_slot_def)

lemma table_inv_init: "sv_inv server_init"
  by (simp add: sv_inv_def table_inv_def thread_inv_def live_def server_init_def empty_slot_def fds_def slot_ok_def)

lemma add_client_other [simp]:
  "threads (add_client fd addr S) = threads S" "open_fds (add_client fd addr S) = open_fds S"
  "main_pc (add_client fd addr S) = main_pc S" "sent (add_client fd addr S) = sent S"
  by (simp_all add: add_client_def split: option.split)

lemma remove_client_other [simp]:
  "threads (remove_client fd S) = threads S" "open_fds (remove_client fd S) = open_fds S"
  "main_pc (remove_client fd S) = main_pc S" "sent (remove_client fd S) = sent S"
  by (simp_all add: remove_client_def split: option.split)

lemma set_fds_add: "fd \<noteq> 0 \<Longrightarrow> set (fds (clients (add_client fd addr S))) \<subseteq> insert fd (set (fds (clients S)))"
  using add_scan_fds(3) [of fd addr "clients S"] by (auto simp: add_client_def split: option.splits)

lemma set_fds_remove:
  "fd \<noteq> 0 \<Longrightarrow> distinct (fds (clients S)) \<Longrightarrow> set (fds (clients (remove_client fd S))) = set (fds (clients S)) - {fd}"
  using remove_scan_fds(3) [of fd "clients S"] remove_scan_None [of fd "clients S"]
  by (auto simp: remove_client_def split: option.splits)

lemma table_inv_add:
  assumes "table_inv S" "fd > 0" "fd \<notin> set (fds (clients S))"
    and "fd \<in> set (open_fds S)"
  shows "table_inv (add_client fd addr S)"
proof (cases "add_scan fd addr (clients S)")
  case None
  then show ?thesis using assms(1) by (simp add: add_client_def)
next
  case (Some cs)
  have "c \<in> set cs \<Longrightarrow> c \<in> set (clients S) \<or> (\<exists>c'. c = fill_slot fd addr c')" for c
    using adds.scan_Some [OF Some] by auto
  then have "\<forall>c \<in> set cs. slot_ok c"
    using assms(1) fill_slot_ok unfolding table_inv_def by blast
  then show ?thesis using assms Some add_scan_fds [OF Some]
    by (auto simp: add_client_def table_inv_def)
qed

lemma table_inv_remove:
  assumes "table_inv S" "fd > 0"
  shows "table_inv (remove_client fd S)"
proof (cases "remove_scan fd (clients S)")
  case None
  then show ?thesis using assms(1) by (simp add: remove_client_def)
next
  case (Some cs)
  have "c \<in> set cs \<Longrightarrow> c \<in> set (clients S) \<or> (\<exists>c'. c = clear_slot c')" for c
    using removes.scan_Some [OF Some] by auto
  then have "\<forall>c \<in> set cs. slot_ok c"
    using assms(1) clear_slot_ok unfolding table_inv_def by blast
  then show ?thesis using assms Some remove_scan_fds [OF Some]
    by (auto simp: remove_client_def table_inv_def)
qed

section \<open>Every step keeps the invariant\<close>

lemma handle_client_cases:
  assumes "handle_client t r S = Inr (ph, S')" "tphase t \<noteq> TDone"
  obtains (talk) msgs where "S' = S\<lparr>sent := sent S @ msgs\<rparr>" "ph \<in> {TJoin, TRead, TRemove}"
  | (remove) "tphase t = TRemove" "ph = TClose" "S' = remove_client (tsock t) S"
  | (close) "tphase t = TClose" "ph = TDone" "S' = close_fd (tsock t) S"
proof -
  have "(\<exists>msgs. S' = S\<lparr>sent := sent S @ msgs\<rparr> \<and> ph \<in> {TJoin, TRead, TRemove})
    \<or> (tphase t = TRemove \<and> ph = TClose \<and> S' = remove_client (tsock t) S)
    \<or> (tphase t = TClose \<and> ph = TDone \<and> S' = close_fd (tsock t) S)"
  proof (cases "tphase t")
    case TRead
    then show ?thesis using assms
      by (auto simp: rbind_eq_Inr handle_message_def broadcast_message_def Let_def intro: exI [of _ "[]"]
          split: read_result.splits if_splits)
  qed (use assms in \<open>auto simp: rbind_eq_Inr broadcast_message_def\<close>)
  then show ?thesis using that by blast
qed

lemma inv_accept:
  assumes inv: "sv_inv S" and e: "main_pc S = MSelect" "fd > 0" "fd \<notin> set (open_fds S)"
  shows "sv_inv ((add_client fd addr (S\<lparr>open_fds := fd # open_fds S\<rparr>))\<lparr>main_pc := MAdded fd\<rparr>)" (is "sv_inv ?S'")
proof -
  let ?S1 = "S\<lparr>open_fds := fd # open_fds S\<rparr>"
  have sub: "set (fds (clients S)) \<subseteq> set (open_fds S)" using inv e(1) by (auto simp: sv_inv_def table_inv_def)
  have "table_inv ?S1" using inv by (auto simp: sv_inv_def table_inv_def)
  then have t: "table_inv (add_client fd addr ?S1)" using e sub by (intro table_inv_add) auto
  have f: "set (fds (clients (add_client fd addr ?S1))) \<subseteq> insert fd (set (fds (clients S)))"
    using set_fds_add [of fd addr ?S1] e(2) by simp
  have "table_inv ?S'" using t e by (auto simp: table_inv_def)
  moreover have "thread_inv ?S'" using inv e f by (auto simp: sv_inv_def thread_inv_def live_def)
  ultimately show ?thesis by (simp add: sv_inv_def)
qed

lemma inv_spawn:
  assumes inv: "sv_inv S" and e: "main_pc S = MAdded fd"
  shows "sv_inv (S\<lparr>threads := threads S @ [\<lparr>tsock = fd, tclient = n, tphase = TWelcome\<rparr>], main_pc := MSelect\<rparr>)"
    (is "sv_inv ?S'")
proof -
  have l: "live ?S' i \<longleftrightarrow> live S i \<or> i = length (threads S)" for i
    by (auto simp: live_def nth_append less_Suc_eq)
  have n: "live S i \<Longrightarrow> threads ?S' ! i = threads S ! i" for i by (simp add: live_def nth_append)
  have o: "threads ?S' ! length (threads S) = \<lparr>tsock = fd, tclient = n, tphase = TWelcome\<rparr>" by simp
  have lt: "\<And>i. live S i \<Longrightarrow> tsock (threads S ! i) > 0 \<and> tsock (threads S ! i) \<in> set (open_fds S)
        \<and> tsock (threads S ! i) \<noteq> fd
        \<and> (tphase (threads S ! i) = TClose \<longrightarrow> tsock (threads S ! i) \<notin> set (fds (clients S)))"
    "\<And>i j. live S i \<Longrightarrow> live S j \<Longrightarrow> i \<noteq> j \<Longrightarrow> tsock (threads S ! i) \<noteq> tsock (threads S ! j)"
    "fd > 0" "fd \<in> set (open_fds S)"
    using inv e by (auto simp: sv_inv_def thread_inv_def)
  have "thread_inv ?S'" unfolding thread_inv_def
  proof (intro conjI allI impI)
    fix i j assume a: "live ?S' i" "live ?S' j" "i \<noteq> j"
    then show "tsock (threads ?S' ! i) \<noteq> tsock (threads ?S' ! j)"
      unfolding l using lt n o by (metis thread.select_convs(1))
  qed (use l n o lt in \<open>auto\<close>)
  moreover have "table_inv ?S'" using inv e by (auto simp: sv_inv_def table_inv_def)
  ultimately show ?thesis by (simp add: sv_inv_def)
qed

lemma inv_spawn_failed:
  assumes inv: "sv_inv S" and e: "main_pc S = MAdded fd"
  shows "sv_inv ((close_fd fd S)\<lparr>main_pc := MFailed fd\<rparr>)"
  using assms by (auto simp: sv_inv_def thread_inv_def table_inv_def close_fd_def live_def)

lemma inv_drop:
  assumes inv: "sv_inv S" and e: "main_pc S = MFailed fd"
  shows "sv_inv ((remove_client fd S)\<lparr>main_pc := MSelect\<rparr>)"
proof -
  have fd: "fd > 0" and d: "distinct (fds (clients S))" using inv e by (auto simp: sv_inv_def thread_inv_def table_inv_def)
  note f = set_fds_remove [OF _ d, of fd]
  have "table_inv (remove_client fd S)" using inv fd by (intro table_inv_remove) (simp_all add: sv_inv_def)
  then have "table_inv ((remove_client fd S)\<lparr>main_pc := MSelect\<rparr>)"
    using f fd e by (auto simp: table_inv_def)
  moreover have "thread_inv ((remove_client fd S)\<lparr>main_pc := MSelect\<rparr>)"
    using inv f fd e by (auto simp: sv_inv_def thread_inv_def live_def)
  ultimately show ?thesis by (simp add: sv_inv_def)
qed

text \<open>A thread that moves from phase to phase keeps its socket.\<close>

lemma inv_phase:
  assumes inv: "sv_inv S" and i: "live S i" and ph: "ph \<noteq> TDone" "ph = TClose \<Longrightarrow> tsock (threads S ! i) \<notin> set (fds (clients S))"
  shows "sv_inv (S\<lparr>threads := (threads S)[i := (threads S ! i)\<lparr>tphase := ph\<rparr>]\<rparr>)" (is "sv_inv ?S'")
proof -
  have l: "live ?S' j \<longleftrightarrow> live S j" for j using i ph by (auto simp: live_def nth_list_update)
  have s: "tsock (threads ?S' ! j) = tsock (threads S ! j)" for j
    using i by (cases "j = i") (auto simp: live_def)
  have p: "tphase (threads ?S' ! j) = TClose \<Longrightarrow> live S j \<Longrightarrow> tphase (threads S ! j) = TClose \<or> j = i \<and> ph = TClose" for j
    using i by (cases "j = i") (auto simp: live_def)
  have "thread_inv ?S'"
    using inv ph(2) p unfolding thread_inv_def sv_inv_def l s by fastforce
  moreover have "table_inv ?S'" using inv by (simp add: sv_inv_def table_inv_def)
  ultimately show ?thesis by (simp add: sv_inv_def)
qed

lemma sv_inv_sent: "sv_inv (S\<lparr>sent := m\<rparr>) = sv_inv S"
  by (simp add: sv_inv_def table_inv_def thread_inv_def live_def)

lemma inv_remove:
  assumes inv: "sv_inv S" and i: "live S i"
  shows "sv_inv (remove_client (tsock (threads S ! i)) S)"
    and "tsock (threads S ! i) \<notin> set (fds (clients (remove_client (tsock (threads S ! i)) S)))"
proof -
  have fd: "tsock (threads S ! i) > 0" and d: "distinct (fds (clients S))"
    using inv i by (auto simp: sv_inv_def thread_inv_def table_inv_def)
  note f = set_fds_remove [OF _ d, of "tsock (threads S ! i)"]
  show "tsock (threads S ! i) \<notin> set (fds (clients (remove_client (tsock (threads S ! i)) S)))" using f fd by simp
  have "table_inv (remove_client (tsock (threads S ! i)) S)"
    using inv fd by (intro table_inv_remove) (simp_all add: sv_inv_def)
  moreover have "thread_inv (remove_client (tsock (threads S ! i)) S)"
    using inv f fd by (auto simp: sv_inv_def thread_inv_def live_def)
  ultimately show "sv_inv (remove_client (tsock (threads S ! i)) S)" by (simp add: sv_inv_def)
qed

lemma inv_close:
  assumes inv: "sv_inv S" and i: "live S i" "tphase (threads S ! i) = TClose"
  shows "sv_inv ((close_fd (tsock (threads S ! i)) S)
     \<lparr>threads := (threads S)[i := (threads S ! i)\<lparr>tphase := TDone\<rparr>]\<rparr>)" (is "sv_inv ?S'")
proof -
  have l: "live ?S' j \<longleftrightarrow> live S j \<and> j \<noteq> i" for j using i by (auto simp: live_def nth_list_update)
  have n: "j \<noteq> i \<Longrightarrow> threads ?S' ! j = threads S ! j" for j by simp
  have "thread_inv ?S'"
    using inv i n unfolding thread_inv_def sv_inv_def l by (fastforce simp: close_fd_def)
  moreover have "table_inv ?S'"
    using inv i by (auto simp: sv_inv_def table_inv_def thread_inv_def close_fd_def)
  ultimately show ?thesis by (simp add: sv_inv_def)
qed

lemma inv_run:
  assumes inv: "sv_inv S" and i: "live S i" and run: "handle_client (threads S ! i) r S = Inr (ph, S1)"
  shows "sv_inv (S1\<lparr>threads := (threads S1)[i := (threads S1 ! i)\<lparr>tphase := ph\<rparr>]\<rparr>)"
proof -
  have "tphase (threads S ! i) \<noteq> TDone" using i by (simp add: live_def)
  with run show ?thesis
  proof (cases rule: handle_client_cases)
    case (talk msgs)
    then have "sv_inv S1" "live S1 i" using inv i by (simp_all add: sv_inv_sent live_def)
    then show ?thesis using talk(2) by (intro inv_phase) auto
  next
    case remove
    have "live S1 i" using i remove(3) by (simp add: live_def)
    then show ?thesis using inv_remove [OF inv i] remove by (intro inv_phase) simp_all
  next
    case close
    then show ?thesis using inv_close [OF inv i] by (simp add: close_fd_def)
  qed
qed

lemma sv_exec_inv:
  assumes inv: "sv_inv S" and run: "sv_exec e S = Some (Inr S')"
  shows "sv_inv S'"
proof (cases e)
  case (Round sel acc)
  then show ?thesis using run inv inv_accept [OF inv] by (auto split: if_splits option.splits)
next
  case (Spawn ok)
  then show ?thesis using run inv_spawn [OF inv] inv_spawn_failed [OF inv] by (auto split: main_pc.splits if_splits)
next
  case DropClient
  then show ?thesis using run inv_drop [OF inv] by (auto split: main_pc.splits)
next
  case (Run i r)
  then show ?thesis using run inv_run [OF inv, of i r]
    by (auto simp: live_def rbind_eq_Inr simp del: handle_client.simps split: if_splits)
qed

lemma sv_reach_inv: "sv_reach S \<Longrightarrow> sv_inv S"
  by (induction rule: sv_reach.induct) (auto intro: table_inv_init sv_exec_inv)

end
