(* ===== verification/Chat_Props.thy ===== *)
theory Chat_Props
  imports Chat_Inv
begin

text \<open>
  The properties of the chat room: the client table under every interleaving of the main loop
  and the client threads, who receives a message, whose name it carries, and the client's
  sending loop.
\<close>

section \<open>Concrete runs\<close>

fun sv_run :: "sv_event list \<Rightarrow> server \<Rightarrow> server option" where
  "sv_run [] S = Some S"
| "sv_run (e # es) S = (case sv_exec e S of Some (Inr S') \<Rightarrow> sv_run es S' | _ \<Rightarrow> None)"

lemma sv_run_reach: "sv_reach S \<Longrightarrow> sv_run es S = Some S' \<Longrightarrow> sv_reach S'"
  by (induction es S rule: sv_run.induct) (auto intro: sv_reach.step split: option.splits sum.splits)

definition sample_peer :: "u16 \<Rightarrow> sockaddr_in" where
  "sample_peer port = \<lparr>sin_addr = [10, 0, 0, 1], sin_port = port\<rparr>"

definition sample_room :: "sv_event list" where
  "sample_room = [Accept 4 (sample_peer 1111), Spawn True, Run 0 ReadEof, Run 0 ReadEof,
     Accept 5 (sample_peer 2222), Spawn True, Run 1 ReadEof, Run 1 ReadEof]"

definition sample_client :: "int \<Rightarrow> u16 \<Rightarrow> client_info" where
  "sample_client fd port = fill_slot fd (sample_peer port) empty_slot"

definition sample_server :: server where
  "sample_server = \<lparr>clients = sample_client 4 1111 # sample_client 5 2222 # replicate 28 empty_slot, client_count = 2,
     threads = [\<lparr>tsock = 4, tclient = 0, tphase = TRead\<rparr>, \<lparr>tsock = 5, tclient = 1, tphase = TRead\<rparr>],
     open_fds = [5, 4], sent = [(4, welcome_text (sample_client 4 1111)), (5, welcome_text (sample_client 5 2222)),
       (4, join_text (sample_client 5 2222))], main_pc = MSelect\<rparr>"

lemma sample_slots: "replicate 30 empty_slot = empty_slot # empty_slot # replicate 28 empty_slot"
  by (simp add: numeral_eq_Suc)

lemma sample_client_simps [simp]: "sockfd (sample_client fd port) = fd" "sockfd empty_slot = 0"
  "fill_slot fd (sample_peer port) empty_slot = sample_client fd port" "cip (sample_client fd port) = inet_ntop [10, 0, 0, 1]"
  "cport (sample_client fd port) = uint port"
  by (simp_all add: sample_client_def fill_slot_def empty_slot_def sample_peer_def)

lemma sample_server_run: "sv_run sample_room server_init = Some sample_server"
  unfolding sample_room_def server_init_def sample_slots sample_server_def
  by (simp add: add_client_def client_at_def broadcast_message_def)

lemma sample_server_reach: "sv_reach sample_server"
  by (rule sv_run_reach [OF sv_reach.start sample_server_run])

section \<open>The table\<close>

text \<open>
  C11: in every state any interleaving of the main loop and the client threads can reach, \<open>client_count\<close> is
  the number of used slots, at most 30, no descriptor is in two slots, and every descriptor in the
  table is open, or is that of a connection whose thread could not be created and which is about
  to be dropped.
\<close>

theorem chat_table_consistent:
  assumes "sv_reach S"
  shows "length (clients S) = MAX_CLIENTS
    \<and> client_count S = int (length (filter (\<lambda>c. sockfd c \<noteq> 0) (clients S))) \<and> client_count S \<le> int MAX_CLIENTS
    \<and> distinct (map sockfd (filter (\<lambda>c. sockfd c \<noteq> 0) (clients S)))
    \<and> (\<forall>c \<in> set (clients S). sockfd c \<noteq> 0 \<longrightarrow>
         sockfd c > 0 \<and> (sockfd c \<in> set (open_fds S) \<or> main_pc S = MFailed (sockfd c)))"
proof -
  have t: "table_inv S" using sv_reach_inv [OF assms] by (simp add: sv_inv_def)
  have f: "fds (clients S) = map sockfd (filter (\<lambda>c. sockfd c \<noteq> 0) (clients S))"
    by (simp add: fds_def filter_map o_def)
  have "length (fds (clients S)) \<le> MAX_CLIENTS" using t length_fds [of "clients S"] by (simp add: table_inv_def)
  then show ?thesis using t unfolding table_inv_def f by auto
qed

theorem chat_table_consistent_witness:
  "sv_reach sample_server \<and> length (clients sample_server) = 30"
  using chat_table_consistent [OF sample_server_reach] sample_server_reach by blast

text \<open>
  C31: in every such state a broadcast sends exactly one copy of the message to every connected
  client except the sender, and nothing to anybody else.
\<close>

theorem chat_broadcast_once:
  assumes "sv_reach S"
  shows "\<exists>new. sent (broadcast_message msg sender S) = sent S @ new
    \<and> (\<forall>fd. filter (\<lambda>m. fst m = fd) new =
         (if fd \<noteq> 0 \<and> fd \<noteq> sender \<and> fd \<in> sockfd ` set (clients S) then [(fd, msg)] else []))"
proof -
  have t: "table_inv S" using sv_reach_inv [OF assms] by (simp add: sv_inv_def)
  let ?new = "map (\<lambda>fd. (fd, msg)) (filter (\<lambda>fd. fd \<noteq> sender) (fds (clients S)))"
  have "map (\<lambda>c. (sockfd c, msg)) (filter (\<lambda>c. sockfd c > 0 \<and> sockfd c \<noteq> sender) cs)
      = map (\<lambda>fd. (fd, msg)) (filter (\<lambda>fd. fd \<noteq> sender) (fds cs))" if "\<forall>fd \<in> set (fds cs). fd > 0" for cs
    using that by (induction cs) auto
  then have s: "sent (broadcast_message msg sender S) = sent S @ ?new"
    using t by (simp add: broadcast_message_def table_inv_def)
  have "filter (\<lambda>m. fst m = fd) (map (\<lambda>fd. (fd, msg)) xs) = (if fd \<in> set xs then [(fd, msg)] else [])"
    if "distinct xs" for fd and xs :: "int list"
    using that by (induction xs) auto
  then have "filter (\<lambda>m. fst m = fd) ?new = (if fd \<in> set (filter (\<lambda>fd. fd \<noteq> sender) (fds (clients S))) then [(fd, msg)] else [])" for fd
    using t by (simp add: table_inv_def)
  then show ?thesis using s by (intro exI [of _ ?new]) (auto simp: fds_mem)
qed

theorem chat_broadcast_once_witness:
  "sv_reach sample_server
   \<and> (\<exists>new. sent (broadcast_message [104, 105, 10] 4 sample_server) = sent sample_server @ new
      \<and> filter (\<lambda>m. fst m = 5) new = [(5, [104, 105, 10])] \<and> filter (\<lambda>m. fst m = 4) new = [])"
proof -
  have "5 \<in> sockfd ` set (clients sample_server)" by (simp add: sample_server_def)
  then show ?thesis
    using chat_broadcast_once [OF sample_server_reach, of "[104, 105, 10]" 4] sample_server_reach by auto
qed

section \<open>Whose name a thread uses\<close>










section \<open>What is said\<close>

lemma read_string:
  assumes "data \<noteq> []" "0 \<notin> set data" "length data < BUFFER_SIZE"
  shows "cstring (put 0 data (replicate BUFFER_SIZE 0)) = Inr data"
proof -
  obtain k where k: "BUFFER_SIZE - length data = Suc k" using assms(3) by (metis Suc_diff_Suc)
  have p: "put 0 data (replicate BUFFER_SIZE 0) = data @ 0 # replicate k 0"
    unfolding put_def drop_replicate add_0 k by simp
  show ?thesis using assms(2) unfolding cstring_def p
    by (simp add: takeWhile_append2 takeWhile_append)
qed

lemma label_short: "slot_ok c \<Longrightarrow> length (client_label c) \<le> 21"
proof -
  assume c: "slot_ok c"
  then have "nat (cport c) < 10 ^ 5" by (auto simp: slot_ok_def nat_less_iff)
  then have "length (decimal (nat (cport c))) \<le> 5" by (rule length_decimal [rotated]) simp
  then show ?thesis using c by (simp add: slot_ok_def client_label_def)
qed

text \<open>
  A \<open>read\<close> that fills the whole buffer without a NUL leaves no terminator: \<open>strlen\<close> runs past the end
  of the buffer.
\<close>

theorem chat_unterminated:
  assumes "live S i" "tphase (threads S ! i) = TRead" "length data = BUFFER_SIZE" "0 \<notin> set data"
  shows "sv_exec (Run i (ReadData data)) S = Some (Inl OutOfBounds)"
proof -
  have "put 0 data (replicate BUFFER_SIZE 0) = data" using assms(3) by (simp add: put_def)
  then have "cstring (put 0 data (replicate BUFFER_SIZE 0)) = Inl OutOfBounds" using assms(4) by (simp add: cstring_def)
  moreover have "data \<noteq> []" using assms(3) by auto
  ultimately show ?thesis using assms by (simp add: live_def handle_message_def Let_def)
qed

theorem chat_unterminated_witness:
  "sv_reach sample_server \<and> sv_exec (Run 0 (ReadData (replicate 1024 97))) sample_server = Some (Inl OutOfBounds)"
proof -
  have "live sample_server 0" "tphase (threads sample_server ! 0) = TRead"
    by (simp_all add: live_def sample_server_def)
  then show ?thesis using chat_unterminated [of sample_server 0 "replicate 1024 97"] sample_server_reach
    by (simp del: sv_exec.simps)
qed

section \<open>The client\<close>

lemma client_loop_lines:
  assumes "\<forall>l \<in> set ls. 0 \<notin> set l \<and> 10 \<notin> set l \<and> length l < BUFFER_SIZE - 1 \<and> l \<noteq> [113, 117, 105, 116]"
  shows "client_loop (map (\<lambda>l. (Some (l @ [10]), True)) ls @ (Some [113, 117, 105, 116, 10], ok) # rest) []
      = Inr (filter (\<lambda>l. l \<noteq> []) ls, True)
    \<and> client_loop (map (\<lambda>l. (Some (l @ [10]), True)) ls @ replicate n (None, True)) []
      = Inr (filter (\<lambda>l. l \<noteq> []) ls, False)"
proof -
  have line: "cstring (put 0 (l @ [10]) (replicate BUFFER_SIZE 0)) = Inr (l @ [10])"
      "strip_newline (l @ [10]) = l"
    if "0 \<notin> set l" "10 \<notin> set l" "length l < BUFFER_SIZE - 1" for l
  proof -
    show "cstring (put 0 (l @ [10]) (replicate BUFFER_SIZE 0)) = Inr (l @ [10])"
      using that by (intro read_string) auto
    show "strip_newline (l @ [10]) = l"
      using that(2) unfolding strip_newline_def by (induction l) auto
  qed
  have step: "client_loop (map (\<lambda>l. (Some (l @ [10]), True)) ls @ tail) out
      = client_loop tail (out @ filter (\<lambda>l. l \<noteq> []) ls)" for tail out
    using assms by (induction ls arbitrary: out) (simp_all add: line)
  have eof: "client_loop (replicate n (None, True)) out = Inr (out, False)" for out
    by (induction n) (simp_all add: cstring_def put_def strip_newline_def)
  have q: "client_loop ((Some [113, 117, 105, 116, 10], ok) # rest) out = Inr (out, True)" for out
    using line [of "[113, 117, 105, 116]"] by (simp only: client_loop.simps) simp
  show ?thesis unfolding step eof q by simp
qed

text \<open>
  C40: once connected, the client sends the lines typed before \<open>quit\<close>, without their newlines, in order, skipping
  empty ones; at \<open>quit\<close> it closes its socket and returns 0, and at the end of its input it neither sends nor
  ends, for any number of rounds. If it cannot connect or start its thread it sends nothing and returns -1.
\<close>

theorem client_sends_lines:
  assumes "\<forall>l \<in> set ls. 0 \<notin> set l \<and> 10 \<notin> set l \<and> length l < BUFFER_SIZE - 1 \<and> l \<noteq> [113, 117, 105, 116]"
    and "connected \<longleftrightarrow> \<not> c_socket A < 0 \<and> 0 < c_pton A \<and> \<not> c_connect A < 0 \<and> c_thread A = 0"
  shows "(connected \<longrightarrow> client_main A (map (\<lambda>l. (Some (l @ [10]), True)) ls @ (Some [113, 117, 105, 116, 10], ok) # rest)
        = Inr (Some 0, filter (\<lambda>l. l \<noteq> []) ls, True)
      \<and> client_main A (map (\<lambda>l. (Some (l @ [10]), True)) ls @ replicate n (None, True))
        = Inr (None, filter (\<lambda>l. l \<noteq> []) ls, False))
    \<and> (\<not> connected \<longrightarrow> (\<exists>closed. client_main A input = Inr (Some (- 1), [], closed)))"
  using client_loop_lines [OF assms(1), of ok rest n] assms(2) by (auto simp: client_main_def simp del: client_loop.simps)

theorem client_sends_lines_witness:
  "client_main \<lparr>c_socket = 3, c_pton = 1, c_connect = 0, c_thread = 0\<rparr>
     [(Some [104, 105, 10], True), (Some [10], True), (Some [113, 117, 105, 116, 10], True)]
     = Inr (Some 0, [[104, 105]], True)"
  using client_sends_lines [of "[[104, 105], []]" True "\<lparr>c_socket = 3, c_pton = 1, c_connect = 0, c_thread = 0\<rparr>" True "[]"]
  by simp

section \<open>Shutting down\<close>

text \<open>Outside a locked section, \<open>SIGINT\<close> closes every connection that is in the table.\<close>

lemma sigint_closes_table:
  "sigint_handler False S = Inr (ret, S') \<Longrightarrow>
     ret = 0 \<and> clients S' = clients S \<and> (\<forall>c \<in> set (clients S). 0 < sockfd c \<longrightarrow> sockfd c \<notin> set (open_fds S'))"
  by (auto simp: sigint_handler_def cleanup_def)

end
