(* ===== verification/Chat_Flow.thy ===== *)
theory Chat_Flow
  imports Chat_Props
begin

text \<open>
  From one client's keyboard to another client's screen: the sending loop of \<open>client.c\<close>, the connection to the server,
  the thread of \<open>server.c\<close> that reads it and broadcasts, the connection to the other client and its receiving thread.
  A connection is a byte stream: it may cut what was sent into reads in any way. The theorem covers the reads that are
  shorter than the 1024-byte buffers they go to; one that fills a buffer leaves its string without a terminator.
\<close>

section \<open>Streams\<close>

text \<open>The reads \<open>ds\<close> can bring the bytes \<open>bs\<close>: none is empty or fills a whole buffer.\<close>

definition reads_of :: "bytes \<Rightarrow> bytes list \<Rightarrow> bool" where
  "reads_of bs ds \<longleftrightarrow> concat ds = bs \<and> (\<forall>d \<in> set ds. d \<noteq> [] \<and> length d < BUFFER_SIZE)"

lemma receive_all:
  assumes "reads_of bs rs" "0 \<notin> set bs"
  shows "receive_messages (map (\<lambda>r. (ReadData r, e)) rs) out = Inr (out @ rs, False)"
  using assms
proof (induction rs arbitrary: bs out)
  case (Cons r rs)
  have r: "r \<noteq> []" "0 \<notin> set r" "length r < BUFFER_SIZE" using Cons.prems by (auto simp: reads_of_def)
  have "receive_messages (map (\<lambda>r. (ReadData r, e)) rs) (out @ [r]) = Inr ((out @ [r]) @ rs, False)"
    using Cons.prems by (intro Cons.IH [of "concat rs"]) (auto simp: reads_of_def)
  then show ?case using r(1) read_string [OF r] by simp
qed (simp add: reads_of_def)

section \<open>One sender\<close>

text \<open>The line that announces \<open>text\<close> under the name of the client in slot \<open>c\<close>.\<close>

definition said :: "client_info \<Rightarrow> bytes \<Rightarrow> bytes" where
  "said c text = [91] @ client_label c @ [93, 58, 32] @ text @ [10]"

text \<open>The descriptors that hear what is said on \<open>sock\<close>.\<close>

definition hearers :: "server \<Rightarrow> int \<Rightarrow> int list" where
  "hearers S sock = filter (\<lambda>fd. fd > 0 \<and> fd \<noteq> sock) (map sockfd (clients S))"

text \<open>
  What a client says in one \<open>read\<close>, up to its first newline, reaches every other client as one line, complete: the
  fixed buffers never cut it.
\<close>

lemma chat_says:
  assumes "sv_reach S" "live S i" "tphase (threads S ! i) = TRead" "client_at S (tclient (threads S ! i)) = Inr c"
    and "data \<noteq> []" "0 \<notin> set data" "length data < BUFFER_SIZE"
  shows "sv_exec (Run i (ReadData data)) S
    = Some (Inr (S\<lparr>sent := sent S @ map (\<lambda>fd. (fd, said c (strip_newline data))) (hearers S (tsock (threads S ! i)))\<rparr>))"
proof -
  let ?t = "threads S ! i" and ?s = "strip_newline data"
  have "c \<in> set (clients S)" using assms(4) by (auto simp: client_at_def split: if_splits)
  then have "slot_ok c" using sv_reach_inv [OF assms(1)] by (auto simp: sv_inv_def table_inv_def)
  then have "length (client_label c) \<le> 21" by (rule label_short)
  moreover have "length ?s \<le> length data" unfolding strip_newline_def by (rule length_takeWhile_le)
  ultimately have m: "chat_text c ?s = said c ?s" using assms(7) by (simp add: chat_text_def snprintf_def said_def)
  have "handle_message ?t data S = Inr (broadcast_message (said c ?s) (tsock ?t) S)"
    using assms(4,5) by (simp add: handle_message_def Let_def read_string [OF assms(5-7)] m)
  moreover have "(threads S)[i := ?t\<lparr>tphase := TRead\<rparr>] = threads S"
  proof -
    have "?t\<lparr>tphase := TRead\<rparr> = ?t" using assms(3) by (cases "?t") simp
    then show ?thesis by simp
  qed
  ultimately show ?thesis using assms(2,3,5,7)
    by (simp add: live_def broadcast_message_def hearers_def filter_map o_def)
qed

lemma chat_says_all:
  assumes "sv_reach S" "live S i" "tphase (threads S ! i) = TRead" "client_at S (tclient (threads S ! i)) = Inr c"
    and "\<forall>d \<in> set ds. d \<noteq> [] \<and> 0 \<notin> set d \<and> 10 \<notin> set d \<and> length d < BUFFER_SIZE"
  shows "sv_run (map (\<lambda>d. Run i (ReadData d)) ds) S = Some (S\<lparr>sent := sent S
    @ concat (map (\<lambda>d. map (\<lambda>fd. (fd, said c d)) (hearers S (tsock (threads S ! i)))) ds)\<rparr>)"
  using assms
proof (induction ds arbitrary: S)
  case (Cons d ds)
  let ?S1 = "S\<lparr>sent := sent S @ map (\<lambda>fd. (fd, said c d)) (hearers S (tsock (threads S ! i)))\<rparr>"
  have "strip_newline d = d" using Cons.prems(5) unfolding strip_newline_def by (subst takeWhile_eq_all_conv) auto
  then have e: "sv_exec (Run i (ReadData d)) S = Some (Inr ?S1)" using chat_says [OF Cons.prems(1-4), of d] Cons.prems(5) by simp
  have "sv_reach ?S1" using sv_reach.step [OF Cons.prems(1) e] .
  moreover have "live ?S1 i" "client_at ?S1 (tclient (threads ?S1 ! i)) = Inr c"
    using Cons.prems(2,4) by (auto simp: live_def client_at_def split: if_splits)
  ultimately have "sv_run (map (\<lambda>d. Run i (ReadData d)) ds) ?S1 = Some (?S1\<lparr>sent := sent ?S1
      @ concat (map (\<lambda>d. map (\<lambda>fd. (fd, said c d)) (hearers ?S1 (tsock (threads ?S1 ! i)))) ds)\<rparr>)"
    using Cons.prems(3,5) by (intro Cons.IH) auto
  moreover have "hearers ?S1 = hearers S" by (simp add: hearers_def fun_eq_iff)
  ultimately show ?case using e by (simp del: sv_exec.simps)
qed simp

text \<open>What a descriptor is sent, as one stream.\<close>

definition stream_to :: "int \<Rightarrow> (int \<times> bytes) list \<Rightarrow> bytes" where
  "stream_to fd ms = concat (map snd (filter (\<lambda>m. fst m = fd) ms))"

lemma stream_to_hearers:
  assumes "sv_reach S" "fd \<in> sockfd ` set (clients S)" "fd > 0" "fd \<noteq> sock"
  shows "stream_to fd (concat (map (\<lambda>d. map (\<lambda>fd. (fd, said c d)) (hearers S sock)) ds)) = concat (map (said c) ds)"
proof -
  have "distinct (fds (clients S))" using sv_reach_inv [OF assms(1)] by (simp add: sv_inv_def table_inv_def)
  moreover have h: "hearers S sock = filter (\<lambda>fd. fd > 0 \<and> fd \<noteq> sock) (fds (clients S))"
    by (auto simp: hearers_def fds_def intro: filter_cong)
  ultimately have d: "distinct (hearers S sock)" by simp
  have m: "fd \<in> set (hearers S sock)" using assms(2-4) by (auto simp: hearers_def)
  have "filter (\<lambda>m. fst m = fd) (map (\<lambda>fd. (fd, x)) xs) = [(fd, x)]" if "distinct xs" "fd \<in> set xs" for x :: bytes and xs
    using that by (induction xs) (auto simp: filter_empty_conv)
  then have "filter (\<lambda>m. fst m = fd) (map (\<lambda>fd. (fd, x)) (hearers S sock)) = [(fd, x)]" for x :: bytes
    using d m by blast
  then show ?thesis by (induction ds) (simp_all add: stream_to_def)
qed

text \<open>
  C12: a client that could connect types lines (of fewer than 1023 bytes, without NUL) and \<open>quit\<close>; its program sends the
  non-empty ones and ends. However the connection cuts those bytes into reads \<open>ds\<close> of fewer than \<open>BUFFER_SIZE\<close> = 1024 bytes,
  the server's thread handles every one of them, and another
  connected client is sent, for each read and in order, one line \<open>[ip:port]: text\<close>; however that stream is cut
  again into reads of fewer than 1024 bytes, the other program prints all of it and nothing else. The texts of the lines
  together are what was typed.
  The lines typed need not be the lines shown: the newlines are not sent, so that one read of two messages is shown as one.
  The bound on the reads is needed: a read that fills the server's buffer with no NUL in it faults.
\<close>

theorem chat_end_to_end:
  assumes S: "sv_reach S" "live S i" "tphase (threads S ! i) = TRead" "client_at S (tclient (threads S ! i)) = Inr c"
    and other: "fd \<in> sockfd ` set (clients S)" "fd > 0" "fd \<noteq> tsock (threads S ! i)"
    and typed: "\<forall>l \<in> set ls. 0 \<notin> set l \<and> 10 \<notin> set l \<and> length l < BUFFER_SIZE - 1 \<and> l \<noteq> [113, 117, 105, 116]"
    and A: "\<not> c_socket A < 0" "0 < c_pton A" "\<not> c_connect A < 0" "c_thread A = 0"
    and sent: "msgs = filter (\<lambda>l. l \<noteq> []) ls" and ds: "reads_of (concat msgs) ds"
  shows "\<exists>new. client_main A (map (\<lambda>l. (Some (l @ [10]), True)) ls @ [(Some [113, 117, 105, 116, 10], True)])
        = Inr (Some 0, msgs, True) \<and> concat ds = concat ls
    \<and> sv_run (map (\<lambda>d. Run i (ReadData d)) ds) S = Some (S\<lparr>sent := sent S @ new\<rparr>)
    \<and> stream_to fd new = concat (map (\<lambda>d. [91] @ cip c @ [58] @ decimal (nat (cport c)) @ [93, 58, 32] @ d @ [10]) ds)
    \<and> (\<forall>rs e. reads_of (stream_to fd new) rs \<longrightarrow> receive_messages (map (\<lambda>r. (ReadData r, e)) rs) [] = Inr (rs, False))
    \<and> (\<forall>data. length data = BUFFER_SIZE \<and> 0 \<notin> set data \<longrightarrow> sv_exec (Run i (ReadData data)) S = Some (Inl OutOfBounds))"
proof -
  let ?new = "concat (map (\<lambda>d. map (\<lambda>fd. (fd, said c d)) (hearers S (tsock (threads S ! i)))) ds)"
  have m: "concat msgs = concat ls" unfolding sent by (induction ls) auto
  have sub: "set d \<subseteq> set (concat ls)" if "d \<in> set ds" for d using ds that unfolding reads_of_def m by (metis UN_upper set_concat)
  have d: "\<forall>d \<in> set ds. d \<noteq> [] \<and> 0 \<notin> set d \<and> 10 \<notin> set d \<and> length d < BUFFER_SIZE"
    using ds sub typed by (fastforce simp: reads_of_def)
  have run: "sv_run (map (\<lambda>d. Run i (ReadData d)) ds) S = Some (S\<lparr>sent := sent S @ ?new\<rparr>)"
    by (rule chat_says_all [OF S d])
  have st: "stream_to fd ?new = concat (map (said c) ds)" by (rule stream_to_hearers [OF S(1) other])
  have "c \<in> set (clients S)" using S(4) by (auto simp: client_at_def split: if_splits)
  then have "slot_ok c" using sv_reach_inv [OF S(1)] by (auto simp: sv_inv_def table_inv_def)
  then have "0 \<notin> set (stream_to fd ?new)"
    using d no_zero_decimal unfolding st by (auto simp: said_def client_label_def slot_ok_def)
  then have "\<forall>rs e. reads_of (stream_to fd ?new) rs \<longrightarrow> receive_messages (map (\<lambda>r. (ReadData r, e)) rs) [] = Inr (rs, False)"
    using receive_all [of "stream_to fd ?new"] by simp
  moreover have "client_main A (map (\<lambda>l. (Some (l @ [10]), True)) ls @ [(Some [113, 117, 105, 116, 10], True)])
      = Inr (Some 0, msgs, True)"
    unfolding sent using conjunct1 [OF client_loop_lines [OF typed, of True "[]"]] A by (simp add: client_main_def del: client_loop.simps)
  moreover have "concat ds = concat ls" using ds m by (simp add: reads_of_def)
  moreover have "stream_to fd ?new = concat (map (\<lambda>d. [91] @ cip c @ [58] @ decimal (nat (cport c)) @ [93, 58, 32] @ d @ [10]) ds)"
    unfolding st by (simp add: said_def [abs_def] client_label_def)
  moreover have "\<forall>data. length data = BUFFER_SIZE \<and> 0 \<notin> set data \<longrightarrow> sv_exec (Run i (ReadData data)) S = Some (Inl OutOfBounds)"
    using chat_unterminated [OF S(2,3)] by blast
  ultimately show ?thesis using run by blast
qed

text \<open>Two lines in one read, shown as one line, and that cut in two.\<close>

theorem chat_end_to_end_witness:
  "\<exists>new. sv_reach sample_server
    \<and> client_main \<lparr>c_socket = 3, c_pton = 1, c_connect = 0, c_thread = 0\<rparr>
        [(Some [104, 105, 10], True), (Some [121, 111, 10], True), (Some [113, 117, 105, 116, 10], True)] = Inr (Some 0, [[104, 105], [121, 111]], True)
    \<and> sv_run [Run 0 (ReadData [104, 105, 121, 111])] sample_server = Some (sample_server\<lparr>sent := sent sample_server @ new\<rparr>)
    \<and> stream_to 5 new = [91] @ inet_ntop [10, 0, 0, 1] @ [58] @ decimal 1111 @ [93, 58, 32, 104, 105, 121, 111, 10]
    \<and> receive_messages [(ReadData [91], False), (ReadData (tl (stream_to 5 new)), False)] [] = Inr ([[91], tl (stream_to 5 new)], False)"
proof -
  let ?ls = "[[104, 105], [121, 111 :: u8]]" and ?ds = "[[104, 105, 121, 111 :: u8]]"
    and ?A = "\<lparr>c_socket = 3, c_pton = 1, c_connect = 0, c_thread = 0\<rparr>" and ?c = "clients sample_server ! 0"
  have l: "live sample_server 0" "tphase (threads sample_server ! 0) = TRead"
      "client_at sample_server (tclient (threads sample_server ! 0)) = Inr ?c"
    by (simp_all add: live_def sample_server_def client_at_def)
  have o: "5 \<in> sockfd ` set (clients sample_server)" "5 \<noteq> tsock (threads sample_server ! 0)"
    by (simp_all add: sample_server_def)
  have c: "cip ?c = inet_ntop [10, 0, 0, 1]" "nat (cport ?c) = 1111" by (simp_all add: sample_server_def)
  have r: "reads_of (concat ?ls) ?ds" by (simp add: reads_of_def)
  obtain new where e: "client_main ?A (map (\<lambda>l. (Some (l @ [10]), True)) ?ls @ [(Some [113, 117, 105, 116, 10], True)]) = Inr (Some 0, ?ls, True)"
      "sv_run (map (\<lambda>d. Run 0 (ReadData d)) ?ds) sample_server = Some (sample_server\<lparr>sent := sent sample_server @ new\<rparr>)"
      "stream_to 5 new = concat (map (\<lambda>d. [91] @ cip ?c @ [58] @ decimal (nat (cport ?c)) @ [93, 58, 32] @ d @ [10]) ?ds)"
      "\<And>rs e. reads_of (stream_to 5 new) rs \<Longrightarrow> receive_messages (map (\<lambda>r. (ReadData r, e)) rs) [] = Inr (rs, False)"
    using chat_end_to_end [OF sample_server_reach l o(1) _ o(2) _ _ _ _ _ _ r, of ?ls ?A] by fastforce
  have st: "stream_to 5 new = [91] @ inet_ntop [10, 0, 0, 1] @ [58] @ decimal 1111 @ [93, 58, 32, 104, 105, 121, 111, 10]"
    using e(3) c by simp
  have "length (decimal 1111) \<le> 4" by (rule length_decimal) simp_all
  then have "reads_of (stream_to 5 new) [[91], tl (stream_to 5 new)]"
    using length_inet_ntop [of "[10, 0, 0, 1]"] unfolding st by (simp add: reads_of_def)
  from e(4) [OF this, of False] show ?thesis using e(1,2) st sample_server_reach
    by (intro exI [of _ new]) (simp del: sv_run.simps)
qed

end
