(* ===== verification/Netlink.thy ===== *)
theory Netlink
  imports Cstrings
begin

unbundle bit_operations_syntax

text \<open>
  Netlink messages and the programs that walk them: \<open>netlink/route_show.c\<close>, \<open>netlink/route_monitor.c\<close>,
  \<open>netlink/netlinkKernel.c\<close> and \<open>netlink/netlinkUser.c\<close>.

  \<^item> A buffer is a byte list; a pointer into it is an offset. Every read is checked against the
    buffer, so a read past its end is a fault. Host integers are little-endian.
  \<^item> \<open>nlmsg_for\<close> and \<open>rta_for\<close> are the loops with \<open>NLMSG_OK\<close>/\<open>NLMSG_NEXT\<close> and \<open>RTA_OK\<close>/\<open>RTA_NEXT\<close>: the remaining
    length is a signed integer, which the last, unaligned step may make negative.
  \<^item> What the programs print is a list of \<open>nl_out\<close> values.
\<close>

section \<open>Reading host integers\<close>

definition get16 :: "bytes \<Rightarrow> nat \<Rightarrow> nat res" where
  "get16 buf i = (if i + 2 \<le> length buf then Inr (unat (buf ! i) + 256 * unat (buf ! (i + 1))) else Inl OutOfBounds)"

definition get32 :: "bytes \<Rightarrow> nat \<Rightarrow> nat res" where
  "get32 buf i =
     (if i + 4 \<le> length buf
      then Inr (unat (buf ! i) + 256 * unat (buf ! (i + 1)) + 65536 * unat (buf ! (i + 2)) + 16777216 * unat (buf ! (i + 3)))
      else Inl OutOfBounds)"

text \<open>A 32-bit value read as a C \<open>int\<close>.\<close>

definition as_int :: "nat \<Rightarrow> int" where
  "as_int n = (if n < 2147483648 then int n else int n - 4294967296)"

definition align4 :: "nat \<Rightarrow> nat" where
  "align4 n = 4 * ((n + 3) div 4)"

section \<open>The two loops\<close>

lemma align4_ge: "n \<le> align4 n"
  unfolding align4_def by presburger

function nlmsg_for :: "bytes \<Rightarrow> (nat \<Rightarrow> 's \<Rightarrow> 's res) \<Rightarrow> nat \<Rightarrow> int \<Rightarrow> 's \<Rightarrow> 's res" where
  "nlmsg_for buf f off len s =
     (if len < 16 then Inr s
      else rbind (get32 buf off) (\<lambda>l.
        if l < 16 \<or> len < int l then Inr s
        else rbind (f off s) (nlmsg_for buf f (off + align4 l) (len - int (align4 l)))))"
  by pat_completeness auto
termination
proof (relation "measure (\<lambda>(buf, f, off, len, s). nat len)", simp)
  fix buf :: bytes and f :: "nat \<Rightarrow> 's \<Rightarrow> 's res" and off :: nat and len :: int and s t :: 's and l :: nat
  assume "\<not> len < 16" "\<not> (l < 16 \<or> len < int l)"
  then show "((buf, f, off + align4 l, len - int (align4 l), t), buf, f, off, len, s) \<in> measure (\<lambda>(buf, f, off, len, s). nat len)"
    using align4_ge [of l] by simp
qed

function rta_for :: "bytes \<Rightarrow> (nat \<Rightarrow> 's \<Rightarrow> 's res) \<Rightarrow> nat \<Rightarrow> int \<Rightarrow> 's \<Rightarrow> 's res" where
  "rta_for buf f off len s =
     (if len < 4 then Inr s
      else rbind (get16 buf off) (\<lambda>l.
        if l < 4 \<or> len < int l then Inr s
        else rbind (f off s) (rta_for buf f (off + align4 l) (len - int (align4 l)))))"
  by pat_completeness auto
termination
proof (relation "measure (\<lambda>(buf, f, off, len, s). nat len)", simp)
  fix buf :: bytes and f :: "nat \<Rightarrow> 's \<Rightarrow> 's res" and off :: nat and len :: int and s t :: 's and l :: nat
  assume "\<not> len < 4" "\<not> (l < 4 \<or> len < int l)"
  then show "((buf, f, off + align4 l, len - int (align4 l), t), buf, f, off, len, s) \<in> measure (\<lambda>(buf, f, off, len, s). nat len)"
    using align4_ge [of l] by simp
qed

declare nlmsg_for.simps [simp del] rta_for.simps [simp del]

section \<open>Output\<close>

datatype nl_out =
    OIface int bytes
  | OMac bytes
  | OMtu nat
  | OQdisc bytes
  | ORoute bytes nat nat bytes
  | OChange bytes bytes nat nat "bytes option" "bytes option" "nat option"
  | OError int
  | OUnexpected nat nat
  | OHeading string
  | OUsage
  | OUnknownOption string
  | OFailed string

abbreviation NLMSG_ERROR :: nat where "NLMSG_ERROR \<equiv> 2"
abbreviation NLMSG_DONE :: nat where "NLMSG_DONE \<equiv> 3"
abbreviation RTM_NEWLINK :: nat where "RTM_NEWLINK \<equiv> 16"
abbreviation RTM_DELLINK :: nat where "RTM_DELLINK \<equiv> 17"
abbreviation RTM_GETLINK :: nat where "RTM_GETLINK \<equiv> 18"
abbreviation RTM_NEWROUTE :: nat where "RTM_NEWROUTE \<equiv> 24"
abbreviation RTM_DELROUTE :: nat where "RTM_DELROUTE \<equiv> 25"
abbreviation RTM_GETROUTE :: nat where "RTM_GETROUTE \<equiv> 26"
abbreviation RT_TABLE_MAIN :: nat where "RT_TABLE_MAIN \<equiv> 254"
abbreviation IFLA_ADDRESS :: nat where "IFLA_ADDRESS \<equiv> 1"
abbreviation IFLA_IFNAME :: nat where "IFLA_IFNAME \<equiv> 3"
abbreviation IFLA_MTU :: nat where "IFLA_MTU \<equiv> 4"
abbreviation IFLA_QDISC :: nat where "IFLA_QDISC \<equiv> 6"
abbreviation RTA_DST :: nat where "RTA_DST \<equiv> 1"
abbreviation RTA_GATEWAY :: nat where "RTA_GATEWAY \<equiv> 5"
abbreviation RTA_PREFSRC :: nat where "RTA_PREFSRC \<equiv> 7"

text \<open>The string ``N/A''.\<close>

definition NA :: bytes where
  "NA = [78, 47, 65]"

section \<open>route\_show.c\<close>

text \<open>The body of the attribute loop; \<open>index\<close> is \<open>ifi_index\<close>.\<close>

definition link_attr :: "bytes \<Rightarrow> int \<Rightarrow> nat \<Rightarrow> nl_out list \<Rightarrow> nl_out list res" where
  "link_attr buf index a out =
     rbind (get16 buf a) (\<lambda>rta_len. rbind (get16 buf (a + 2)) (\<lambda>rta_type.
       if rta_type = IFLA_IFNAME then rbind (cstring (drop (a + 4) buf)) (\<lambda>s. Inr (out @ [OIface index s]))
       else if rta_type = IFLA_ADDRESS then rbind (get_bytes buf (a + 4) (rta_len - 4)) (\<lambda>m. Inr (out @ [OMac m]))
       else if rta_type = IFLA_MTU then rbind (get32 buf (a + 4)) (\<lambda>m. Inr (out @ [OMtu m]))
       else if rta_type = IFLA_QDISC then rbind (cstring (drop (a + 4) buf)) (\<lambda>s. Inr (out @ [OQdisc s]))
       else Inr out))"

text \<open>
  \<open>NLMSG_LENGTH(sizeof(struct ifinfomsg))\<close> is 32; \<open>ifi_index\<close> is at offset 4 of the \<open>ifinfomsg\<close>.
\<close>

definition rtnl_print_link :: "bytes \<Rightarrow> nat \<Rightarrow> nl_out list \<Rightarrow> nl_out list res" where
  "rtnl_print_link buf h out =
     rbind (get32 buf h) (\<lambda>nlmsg_len. rbind (get32 buf (h + 20)) (\<lambda>index.
       rta_for buf (link_attr buf (as_int index)) (h + 32) (as_int nlmsg_len - 32) out))"

definition route_attr :: "bytes \<Rightarrow> nat \<Rightarrow> bytes \<times> bytes \<Rightarrow> (bytes \<times> bytes) res" where
  "route_attr buf a s =
     (case s of (dst, gw) \<Rightarrow>
        rbind (get16 buf (a + 2)) (\<lambda>rta_type.
        rbind (if rta_type = RTA_DST then rbind (get_bytes buf (a + 4) 4) (\<lambda>b. Inr (inet_ntop b)) else Inr dst) (\<lambda>dst.
        rbind (if rta_type = RTA_GATEWAY then rbind (get_bytes buf (a + 4) 4) (\<lambda>b. Inr (inet_ntop b)) else Inr gw) (\<lambda>gw.
          Inr (dst, gw)))))"

text \<open>In \<open>struct rtmsg\<close>, \<open>rtm_dst_len\<close> is at offset 1, \<open>rtm_table\<close> at 4, \<open>rtm_protocol\<close> at 5; its size is 12.\<close>

definition rtnl_print_route :: "bytes \<Rightarrow> nat \<Rightarrow> nl_out list \<Rightarrow> nl_out list res" where
  "rtnl_print_route buf h out =
     rbind (get8 buf (h + 20)) (\<lambda>table.
       if table \<noteq> RT_TABLE_MAIN then Inr out
       else rbind (get8 buf (h + 17)) (\<lambda>netmask. rbind (get8 buf (h + 21)) (\<lambda>protocol.
         rbind (get32 buf h) (\<lambda>nlmsg_len.
         rbind (rta_for buf (route_attr buf) (h + 28) (as_int nlmsg_len - 28) (NA, NA)) (\<lambda>(dst, gw).
           Inr (out @ [ORoute dst netmask protocol gw]))))))"

text \<open>
  One message of a reply: the new output and whether the dump ended. \<open>NLMSG_ERROR\<close> carries
  the negative error code first.
\<close>

definition response_msg :: "bytes \<Rightarrow> bool \<Rightarrow> bool \<Rightarrow> nat \<Rightarrow> nl_out list \<times> bool \<Rightarrow> (nl_out list \<times> bool) res" where
  "response_msg buf show_routes show_interfaces h s =
     (case s of (out, fin) \<Rightarrow>
        rbind (get16 buf (h + 4)) (\<lambda>type.
          if type = NLMSG_DONE then Inr (out, True)
          else if type = RTM_NEWROUTE then
            (if show_routes then rbind (rtnl_print_route buf h out) (\<lambda>out. Inr (out, fin)) else Inr (out, fin))
          else if type = RTM_NEWLINK then
            (if show_interfaces then rbind (rtnl_print_link buf h out) (\<lambda>out. Inr (out, fin)) else Inr (out, fin))
          else if type = NLMSG_ERROR then
            rbind (get32 buf (h + 16)) (\<lambda>e. Inr (out @ [OError (- as_int e)], True))
          else if show_interfaces \<or> show_routes then
            rbind (get32 buf h) (\<lambda>l. Inr (out @ [OUnexpected type l], fin))
          else Inr (out, fin)))"

text \<open>
  \<open>recvmsg\<close> fills the front of the 8192-byte buffer and leaves the rest as the last round left it;
  \<open>None\<close> is a failed call. The input is what the socket delivers; the second result is what is left of
  it when the function returns, or \<open>None\<close> when it still waits for more.
\<close>

fun process_netlink_responses ::
  "bool \<Rightarrow> bool \<Rightarrow> bytes \<Rightarrow> bytes option list \<Rightarrow> nl_out list \<Rightarrow> (nl_out list \<times> bytes option list option) res" where
  "process_netlink_responses r i reply [] out = Inr (out, None)"
| "process_netlink_responses r i reply (None # rest) out = Inr (out @ [OFailed ''recvmsg failed''], Some rest)"
| "process_netlink_responses r i reply (Some data # rest) out =
     (if data = [] then Inr (out, Some rest)
      else
        let reply = put 0 data reply in
        rbind (nlmsg_for reply (response_msg reply r i) 0 (int (length data)) (out, False)) (\<lambda>(out, fin).
          if fin then Inr (out, Some rest) else process_netlink_responses r i reply rest out))"

section \<open>Requests\<close>

definition le16 :: "nat \<Rightarrow> bytes" where
  "le16 n = [of_nat n, of_nat (n div 256)]"

definition le32 :: "nat \<Rightarrow> bytes" where
  "le32 n = [of_nat n, of_nat (n div 256), of_nat (n div 65536), of_nat (n div 16777216)]"

definition nlmsghdr :: "nat \<Rightarrow> nat \<Rightarrow> nat \<Rightarrow> nat \<Rightarrow> nat \<Rightarrow> bytes" where
  "nlmsghdr len type flags seq pid = le32 len @ le16 type @ le16 flags @ le32 seq @ le32 pid"

text \<open>\<open>nl_req_t\<close> up to \<open>nlmsg_len\<close>, which is \<open>NLMSG_LENGTH(sizeof(struct rtgenmsg))\<close> = 17.\<close>

definition send_netlink_request :: "nat \<Rightarrow> nat \<Rightarrow> nat \<Rightarrow> bytes" where
  "send_netlink_request pid msg_type family = nlmsghdr 17 msg_type 0x301 1 pid @ [of_nat family]"

section \<open>route\_monitor.c\<close>

definition monitor_attr :: "bytes \<Rightarrow> nat \<Rightarrow> bytes \<times> bytes \<times> bytes \<Rightarrow> (bytes \<times> bytes \<times> bytes) res" where
  "monitor_attr buf a s =
     (case s of (dst, gw, src) \<Rightarrow>
        rbind (get16 buf (a + 2)) (\<lambda>rta_type.
          if rta_type = RTA_DST then rbind (get_bytes buf (a + 4) 4) (\<lambda>b. Inr (inet_ntop b, gw, src))
          else if rta_type = RTA_GATEWAY then rbind (get_bytes buf (a + 4) 4) (\<lambda>b. Inr (dst, inet_ntop b, src))
          else if rta_type = RTA_PREFSRC then rbind (get_bytes buf (a + 4) 4) (\<lambda>b. Inr (dst, gw, inet_ntop b))
          else Inr s))"

definition print_route_info :: "bytes \<Rightarrow> bytes \<Rightarrow> nat \<Rightarrow> nl_out list \<Rightarrow> nl_out list res" where
  "print_route_info buf action h out =
     rbind (get8 buf (h + 17)) (\<lambda>netmask. rbind (get8 buf (h + 21)) (\<lambda>protocol. rbind (get8 buf (h + 20)) (\<lambda>table.
     rbind (get32 buf h) (\<lambda>nlmsg_len.
     rbind (rta_for buf (monitor_attr buf) (h + 28) (as_int nlmsg_len - 28) (NA, NA, NA)) (\<lambda>(dst, gw, src).
       Inr (out @ [OChange action dst netmask protocol
         (if gw \<noteq> NA then Some gw else None)
         (if src \<noteq> NA then Some src else None)
         (if table \<noteq> RT_TABLE_MAIN then Some table else None)]))))))"

definition ADDED :: bytes where "ADDED = [65, 68, 68, 69, 68]"
definition DELETED :: bytes where "DELETED = [68, 69, 76, 69, 84, 69, 68]"

definition monitor_msg :: "bytes \<Rightarrow> nat \<Rightarrow> nl_out list \<Rightarrow> nl_out list res" where
  "monitor_msg buf h out =
     rbind (get16 buf (h + 4)) (\<lambda>type.
       if type = RTM_NEWROUTE then print_route_info buf ADDED h out
       else if type = RTM_DELROUTE then print_route_info buf DELETED h out
       else Inr out)"

text \<open>
  \<open>loop\<close> on one \<open>recv\<close> into the zeroed 8192-byte buffer: \<open>Inl eintr\<close> is a failed call. The result is
  the return value and what was printed.
\<close>

definition monitor_loop :: "bool + bytes \<Rightarrow> (int \<times> nl_out list) res" where
  "monitor_loop received =
     (case received of
        Inl eintr \<Rightarrow> Inr (if eintr then 0 else - 1, [])
      | Inr data \<Rightarrow>
          if data = [] then Inr (0, [])
          else
            let buffer = put 0 data (replicate 8192 0) in
            rbind (get16 buffer 4) (\<lambda>type.
              if type = NLMSG_DONE then Inr (0, [])
              else if type = NLMSG_ERROR then
                rbind (get32 buffer 16) (\<lambda>e. Inr (- 1, [OError (- as_int e)]))
              else rbind (nlmsg_for buffer (monitor_msg buffer) 0 (int (length data)) []) (\<lambda>out. Inr (0, out))))"

end
