(* ===== verification/Netlink_Walk.thy ===== *)
theory Netlink_Walk
  imports Netlink
begin

text \<open>
  The two message loops as one interface. A \<open>tlv_loop\<close> steps through records that start with their own
  length and are padded to four bytes; inside the locale it is shown that such a loop visits only
  records that lie within the given length, and that on a sequence of well-formed records it
  visits exactly those, in order. \<open>nlmsg_for\<close> and \<open>rta_for\<close> are its two interpretations.
\<close>

section \<open>Records\<close>

fun foldm :: "('a \<Rightarrow> 's \<Rightarrow> 's res) \<Rightarrow> 'a list \<Rightarrow> 's \<Rightarrow> 's res" where
  "foldm f [] s = Inr s"
| "foldm f (a # as) s = rbind (f a s) (foldm f as)"

definition pad4 :: "bytes \<Rightarrow> bytes" where
  "pad4 m = m @ replicate (align4 (length m) - length m) 0"

definition records :: "bytes list \<Rightarrow> bytes" where
  "records ms = concat (map pad4 ms)"

fun offsets :: "nat \<Rightarrow> bytes list \<Rightarrow> nat list" where
  "offsets off [] = []"
| "offsets off (m # ms) = off # offsets (off + align4 (length m)) ms"

lemma length_pad4 [simp]: "length (pad4 m) = align4 (length m)"
  using align4_ge [of "length m"] by (simp add: pad4_def)

lemma records_simps [simp]: "records [] = []" "records (m # ms) = pad4 m @ records ms"
  by (simp_all add: records_def)

lemma align4_mod [simp]: "align4 n mod 4 = 0"
  by (simp add: align4_def)

locale tlv_loop =
  fixes hdr :: nat
    and len_at :: "bytes \<Rightarrow> nat \<Rightarrow> nat res"
    and loop :: "bytes \<Rightarrow> (nat \<Rightarrow> 's \<Rightarrow> 's res) \<Rightarrow> nat \<Rightarrow> int \<Rightarrow> 's \<Rightarrow> 's res"
  assumes hdr: "4 \<le> hdr"
    and loop_eq: "loop buf f off len s =
       (if len < int hdr then Inr s
        else rbind (len_at buf off) (\<lambda>l.
          if l < hdr \<or> len < int l then Inr s
          else rbind (f off s) (loop buf f (off + align4 l) (len - int (align4 l)))))"
    and len_at_reads: "off + hdr \<le> length buf \<Longrightarrow> \<exists>l. len_at buf off = Inr l"
    and len_at_local: "hdr \<le> length m \<Longrightarrow> len_at (pre @ m @ post) (length pre) = len_at m 0"
begin

text \<open>Every record handed to the body starts where the loop was started or later and ends within the length.\<close>

lemma loop_safe:
  assumes "int off + len \<le> int (length buf)" "P s"
    and "\<And>a l s. P s \<Longrightarrow> off \<le> a \<Longrightarrow> len_at buf a = Inr l \<Longrightarrow> hdr \<le> l \<Longrightarrow> int a + int l \<le> int off + len \<Longrightarrow>
          \<exists>s'. f a s = Inr s' \<and> P s'"
  shows "\<exists>s'. loop buf f off len s = Inr s' \<and> P s'"
  using assms
proof (induction "nat len" arbitrary: off len s rule: less_induct)
  case less
  show ?case
  proof (cases "len < int hdr")
    case True
    then show ?thesis using less.prems(2) by (simp add: loop_eq [of buf f off len s])
  next
    case False
    then have "off + hdr \<le> length buf" using less.prems(1) by linarith
    then obtain l where l: "len_at buf off = Inr l" using len_at_reads by blast
    show ?thesis
    proof (cases "l < hdr \<or> len < int l")
      case True
      then show ?thesis using less.prems(2) False l by (simp add: loop_eq [of buf f off len s])
    next
      case ok: False
      obtain t where t: "f off s = Inr t" "P t" using less.prems(3) [OF less.prems(2) _ l] ok by auto
      let ?off = "off + align4 l" and ?len = "len - int (align4 l)"
      have a: "l \<le> align4 l" by (rule align4_ge)
      have "nat ?len < nat len" using False ok a hdr by simp
      moreover have "int ?off + ?len = int off + len" by simp
      ultimately have "\<exists>s'. loop buf f ?off ?len t = Inr s' \<and> P s'"
        using less.prems(1,3) t(2) by (intro less.hyps) auto
      then show ?thesis using False ok l t(1) by (simp add: loop_eq [of buf f off len s])
    qed
  qed
qed

text \<open>What the body keeps, a loop that returns keeps.\<close>

lemma loop_inv:
  assumes "loop buf f off len s = Inr s'" "P s" "\<And>a t t'. P t \<Longrightarrow> f a t = Inr t' \<Longrightarrow> P t'"
  shows "P s'"
  using assms(1,2)
proof (induction "nat len" arbitrary: off len s rule: less_induct)
  case less
  show ?case
  proof (cases "len < int hdr")
    case True
    then show ?thesis using less.prems by (simp add: loop_eq [of buf f off len s])
  next
    case False
    then obtain l where l: "len_at buf off = Inr l"
      using less.prems(1) by (subst (asm) loop_eq) (auto simp: rbind_eq_Inr)
    show ?thesis
    proof (cases "l < hdr \<or> len < int l")
      case True
      then show ?thesis using less.prems False l by (simp add: loop_eq [of buf f off len s])
    next
      case ok: False
      then obtain t where t: "f off s = Inr t" "loop buf f (off + align4 l) (len - int (align4 l)) t = Inr s'"
        using less.prems(1) False l by (subst (asm) loop_eq) (auto simp: rbind_eq_Inr)
      have "nat (len - int (align4 l)) < nat len" using False ok align4_ge [of l] hdr by simp
      then show ?thesis using less.hyps t(2) assms(3) [OF less.prems(2) t(1)] by blast
    qed
  qed
qed

definition wf_record :: "bytes \<Rightarrow> bool" where
  "wf_record m \<longleftrightarrow> hdr \<le> length m \<and> len_at m 0 = Inr (length m)"

text \<open>On well-formed records the loop visits exactly them, in order.\<close>

lemma loop_records:
  assumes "\<forall>m \<in> set ms. wf_record m" "len = int (length (records ms))"
  shows "loop (pre @ records ms @ post) f (length pre) len s = foldm f (offsets (length pre) ms) s"
  using assms
proof (induction ms arbitrary: pre len s)
  case Nil
  then show ?case using hdr by (subst loop_eq) simp
next
  case (Cons m ms)
  have wf: "hdr \<le> length m" "len_at m 0 = Inr (length m)" using Cons.prems(1) by (auto simp: wf_record_def)
  let ?buf = "pre @ records (m # ms) @ post"
  have "?buf = pre @ m @ (replicate (align4 (length m) - length m) 0 @ records ms @ post)" by (simp add: pad4_def)
  then have l: "len_at ?buf (length pre) = Inr (length m)" using len_at_local [OF wf(1)] wf(2) by metis
  have a: "length m \<le> align4 (length m)" by (rule align4_ge)
  then have le: "int (length m) \<le> len" using Cons.prems(2) by simp
  have IH: "loop ((pre @ pad4 m) @ records ms @ post) f (length (pre @ pad4 m)) (len - int (align4 (length m))) t
      = foldm f (offsets (length (pre @ pad4 m)) ms) t" for t
    using Cons.prems by (intro Cons.IH) auto
  have "loop ?buf f (length pre) len s = rbind (f (length pre) s)
      (loop ?buf f (length pre + align4 (length m)) (len - int (align4 (length m))))"
    using le wf(1) l by (subst loop_eq) simp
  moreover have "loop ?buf f (length pre + align4 (length m)) (len - int (align4 (length m)))
      = foldm f (offsets (length pre + align4 (length m)) ms)"
    using IH by (intro ext) simp
  ultimately show ?case by simp
qed

end

section \<open>The loops of the programs\<close>

lemma get_ok:
  "i < length buf \<Longrightarrow> \<exists>v. get8 buf i = Inr v" "i + 2 \<le> length buf \<Longrightarrow> \<exists>v. get16 buf i = Inr v"
  "i + 4 \<le> length buf \<Longrightarrow> \<exists>v. get32 buf i = Inr v" "i + n \<le> length buf \<Longrightarrow> \<exists>v. get_bytes buf i n = Inr v"
  by (simp_all add: get8_def get16_def get32_def get_bytes_def)

lemma nth_middle: "i < length m \<Longrightarrow> (pre @ m @ post) ! (length pre + i) = m ! i"
  by (simp add: nth_append)

lemma get16_middle: "i + 2 \<le> length m \<Longrightarrow> get16 (pre @ m @ post) (length pre + i) = get16 m i"
  using nth_middle [of i m pre post] nth_middle [of "i + 1" m pre post] by (simp add: get16_def add.assoc)

lemma get32_middle: "i + 4 \<le> length m \<Longrightarrow> get32 (pre @ m @ post) (length pre + i) = get32 m i"
  using nth_middle [of i m pre post] nth_middle [of "i + 1" m pre post] nth_middle [of "i + 2" m pre post]
    nth_middle [of "i + 3" m pre post] by (simp add: get32_def add.assoc)

lemma get8_middle: "i < length m \<Longrightarrow> get8 (pre @ m @ post) (length pre + i) = get8 m i"
  using nth_middle [of i m pre post] by (simp add: get8_def)

lemma get_bytes_middle: "i + n \<le> length m \<Longrightarrow> get_bytes (pre @ m @ post) (length pre + i) n = get_bytes m i n"
  by (simp add: get_bytes_def slice_def)

interpretation nlmsg: tlv_loop 16 get32 nlmsg_for
proof (unfold_locales, goal_cases)
  case (2 buf f off len s)
  show ?case by (subst nlmsg_for.simps) simp
next
  case (4 m pre post)
  then show ?case using get32_middle [of 0 m pre post] by simp
qed (simp_all add: get32_def)

interpretation rta: tlv_loop 4 get16 rta_for
proof (unfold_locales, goal_cases)
  case (2 buf f off len s)
  show ?case by (subst rta_for.simps) simp
next
  case (4 m pre post)
  then show ?case using get16_middle [of 0 m pre post] by simp
qed (simp_all add: get16_def)

end
