(* ===== verification/Netlink_Encode.thy ===== *)
theory Netlink_Encode
  imports Netlink_Walk
begin

text \<open>
  The kernel's side of rtnetlink: encoders of attributes, route messages and link messages, and what a program that
  walks a buffer with such messages in it reads at which offset. \<open>attrs_fold\<close> and \<open>messages_fold\<close> turn the two
  loops over encoded records into a fold over what was encoded.
\<close>

section \<open>Encoders\<close>

definition rta_bytes :: "nat \<times> bytes \<Rightarrow> bytes" where
  "rta_bytes a = (case a of (t, p) \<Rightarrow> le16 (4 + length p) @ le16 t @ p)"

definition rta_records :: "(nat \<times> bytes) list \<Rightarrow> bytes" where
  "rta_records as = records (map rta_bytes as)"

record route_spec =
  rs_dst_len :: u8
  rs_table :: u8
  rs_proto :: u8
  rs_attrs :: "(nat \<times> bytes) list"

definition rtmsg_bytes :: "route_spec \<Rightarrow> bytes" where
  "rtmsg_bytes r = [2, rs_dst_len r, 0, 0, rs_table r, rs_proto r, 0, 1, 0, 0, 0, 0]"

definition route_msg_of :: "nat \<Rightarrow> route_spec \<Rightarrow> bytes" where
  "route_msg_of t r = nlmsghdr (28 + length (rta_records (rs_attrs r))) t 2 1 0 @ rtmsg_bytes r @ rta_records (rs_attrs r)"

record link_spec =
  ls_index :: nat
  ls_flags :: nat
  ls_iftype :: nat
  ls_attrs :: "(nat \<times> bytes) list"

definition ifinfomsg_bytes :: "link_spec \<Rightarrow> bytes" where
  "ifinfomsg_bytes l = [0, 0] @ le16 (ls_iftype l) @ le32 (ls_index l) @ le32 (ls_flags l) @ [0, 0, 0, 0]"

definition link_msg_of :: "nat \<Rightarrow> link_spec \<Rightarrow> bytes" where
  "link_msg_of t l = nlmsghdr (32 + length (rta_records (ls_attrs l))) t 2 1 0 @ ifinfomsg_bytes l @ rta_records (ls_attrs l)"

text \<open>A message of some other type, with any payload.\<close>

definition other_msg :: "nat \<Rightarrow> bytes \<Rightarrow> bytes" where
  "other_msg t p = nlmsghdr (16 + length p) t 0 0 0 @ p"

definition done_msg :: bytes where
  "done_msg = nlmsghdr 20 NLMSG_DONE 2 1 0 @ [0, 0, 0, 0]"

text \<open>An attribute whose type and length fit their fields, and messages whose length is that of a C \<open>int\<close>.\<close>

definition wf_rta :: "nat \<times> bytes \<Rightarrow> bool" where
  "wf_rta a \<longleftrightarrow> fst a < 65536 \<and> 4 + length (snd a) < 65536"

definition sized_route :: "route_spec \<Rightarrow> bool" where
  "sized_route r \<longleftrightarrow> 28 + length (rta_records (rs_attrs r)) < 2147483648"

definition sized_link :: "link_spec \<Rightarrow> bool" where
  "sized_link l \<longleftrightarrow> ls_index l < 2147483648 \<and> ls_flags l < 4294967296 \<and> ls_iftype l < 65536
     \<and> 32 + length (rta_records (ls_attrs l)) < 2147483648"

text \<open>A zero-terminated string in an attribute.\<close>

definition text_of :: "bytes \<Rightarrow> bytes" where
  "text_of p = takeWhile (\<lambda>b. b \<noteq> 0) p"

lemma cstring_append: "0 \<in> set p \<Longrightarrow> cstring (p @ post) = Inr (text_of p)"
  by (auto simp: cstring_def text_of_def takeWhile_append1)

text \<open>The attributes of a link as the kernel sends them: strings are terminated, the MTU has four bytes.\<close>

definition wf_link_attr :: "nat \<times> bytes \<Rightarrow> bool" where
  "wf_link_attr a \<longleftrightarrow> wf_rta a \<and> (fst a = IFLA_IFNAME \<or> fst a = IFLA_QDISC \<longrightarrow> 0 \<in> set (snd a))
     \<and> (fst a = IFLA_MTU \<longrightarrow> (\<exists>v. get32 (snd a) 0 = Inr v))"

definition wf_link :: "link_spec \<Rightarrow> bool" where
  "wf_link l \<longleftrightarrow> (\<forall>a \<in> set (ls_attrs l). wf_link_attr a) \<and> sized_link l"

section \<open>Reading back\<close>

lemma unat_byte: "unat (of_nat n :: u8) = n mod 256"
  by (simp add: unat_of_nat)

lemma get16_le16: "n < 65536 \<Longrightarrow> get16 (le16 n @ rest) 0 = Inr n"
  by (simp add: get16_def le16_def unat_byte)

lemma get32_le32:
  assumes "n < 4294967296"
  shows "get32 (le32 n @ rest) 0 = Inr n"
proof -
  define p q r where "p = n div 256" and "q = p div 256" and "r = q div 256"
  have "n = 256 * p + n mod 256" "p = 256 * q + p mod 256" "q = 256 * r + q mod 256"
    by (simp_all add: p_def q_def r_def)
  moreover have "n div 65536 = q" "n div 16777216 = r"
    using div_mult2_eq [of n 256 256] div_mult2_eq [of n 256 65536] div_mult2_eq [of p 256 256]
    by (simp_all add: p_def q_def r_def)
  moreover have "r < 256" using assms calculation(5) by auto
  ultimately have "n mod 256 + 256 * (n div 256 mod 256) + 65536 * (n div 65536 mod 256) + 16777216 * (n div 16777216 mod 256) = n"
    unfolding p_def [symmetric] by (simp only: mod_less)
  moreover have "n div 16777216 mod 256 = n div 16777216" using assms by simp
  ultimately show ?thesis by (simp add: get32_def le32_def unat_byte)
qed

lemma length_le [simp]: "length (le16 n) = 2" "length (le32 n) = 4" "length (nlmsghdr l t fl q pid) = 16"
    "length (rtmsg_bytes r) = 12" "length (ifinfomsg_bytes li) = 16"
  by (simp_all add: le16_def le32_def nlmsghdr_def rtmsg_bytes_def ifinfomsg_bytes_def)

lemma nlmsghdr_fields:
  assumes "l < 4294967296" "t < 65536" "pid < 4294967296"
  shows "get32 (nlmsghdr l t fl q pid @ rest) 0 = Inr l" "get16 (nlmsghdr l t fl q pid @ rest) 4 = Inr t"
    "get32 (nlmsghdr l t fl q pid @ rest) 12 = Inr pid"
proof -
  show "get32 (nlmsghdr l t fl q pid @ rest) 0 = Inr l" using get32_le32 [OF assms(1)] by (simp add: nlmsghdr_def)
  show "get16 (nlmsghdr l t fl q pid @ rest) 4 = Inr t"
    using get16_middle [of 0 "le16 t" "le32 l" "le16 fl @ le32 q @ le32 pid @ rest"] get16_le16 [OF assms(2), of "[]"]
    by (simp add: nlmsghdr_def)
  show "get32 (nlmsghdr l t fl q pid @ rest) 12 = Inr pid"
    using get32_middle [of 0 "le32 pid" "le32 l @ le16 t @ le16 fl @ le32 q" rest] get32_le32 [OF assms(3), of "[]"]
    by (simp add: nlmsghdr_def)
qed

lemma rta_fields:
  assumes "t < 65536" "4 + length p < 65536"
  shows "get16 (rta_bytes (t, p)) 0 = Inr (4 + length p)" "get16 (rta_bytes (t, p)) 2 = Inr t"
    "4 \<le> length p \<Longrightarrow> get_bytes (rta_bytes (t, p)) 4 4 = Inr (take 4 p)" "length (rta_bytes (t, p)) = 4 + length p"
proof -
  show "get16 (rta_bytes (t, p)) 0 = Inr (4 + length p)" using get16_le16 [OF assms(2)] by (simp add: rta_bytes_def)
  show "get16 (rta_bytes (t, p)) 2 = Inr t"
    using get16_middle [of 0 "le16 t" "le16 (4 + length p)" p] get16_le16 [OF assms(1), of "[]"]
    by (simp add: rta_bytes_def)
qed (simp_all add: rta_bytes_def get_bytes_def slice_def)

text \<open>A fold over the records of a buffer is a fold over the records, when the body only looks at its record.\<close>

lemma foldm_offsets:
  assumes "buf = pre @ records (map enc as) @ post"
    and "\<And>a s pre post. a \<in> set as \<Longrightarrow> buf = pre @ enc a @ post \<Longrightarrow> F (length pre) s = g a s"
  shows "foldm F (offsets (length pre) (map enc as)) s = foldm g as s"
  using assms
proof (induction as arbitrary: pre s)
  case (Cons a as)
  let ?m = "enc a"
  have b: "buf = (pre @ pad4 ?m) @ records (map enc as) @ post" using Cons.prems(1) by simp
  have "buf = pre @ ?m @ (replicate (align4 (length ?m) - length ?m) 0 @ records (map enc as) @ post)"
    using Cons.prems(1) by (simp add: pad4_def)
  then have h: "F (length pre) s = g a s" for s using Cons.prems(2) [of a] by simp
  have "foldm F (offsets (length (pre @ pad4 ?m)) (map enc as)) t = foldm g as t" for t
    using Cons.prems(2) by (intro Cons.IH [OF b]) auto
  then have "foldm F (offsets (length pre + align4 (length ?m)) (map enc as)) = foldm g as" by (intro ext) simp
  then show ?case using h by simp
qed simp

lemma foldm_pure: "(\<And>m s. m \<in> set ms \<Longrightarrow> g m s = Inr (k m s)) \<Longrightarrow> foldm g ms s = Inr (fold k ms s)"
  by (induction ms arbitrary: s) auto

lemma fold_append: "fold (\<lambda>a out. out @ f a) as out = out @ concat (map f as)"
  by (induction as arbitrary: out) auto

lemma inet_ntop_take: "inet_ntop (take 4 p) = inet_ntop p"
  by (simp add: inet_ntop_def)

text \<open>At offset \<open>a\<close> the buffer holds the attribute of type \<open>t\<close> with payload \<open>p\<close>.\<close>

definition attr_at :: "bytes \<Rightarrow> nat \<Rightarrow> nat \<Rightarrow> bytes \<Rightarrow> bool" where
  "attr_at buf a t p \<longleftrightarrow> get16 buf a = Inr (4 + length p) \<and> get16 buf (a + 2) = Inr t \<and> a + 4 \<le> length buf
     \<and> (\<exists>post. drop (a + 4) buf = p @ post)"

lemma attr_at_rta_bytes:
  assumes "wf_rta (t, p)"
  shows "attr_at (pre @ rta_bytes (t, p) @ post) (length pre) t p"
proof -
  have w: "t < 65536" "4 + length p < 65536" using assms by (auto simp: wf_rta_def)
  note f = rta_fields [OF w]
  have "get16 (pre @ rta_bytes (t, p) @ post) (length pre) = Inr (4 + length p)"
    using f(4) get16_middle [of 0 "rta_bytes (t, p)" pre post] by (simp add: f(1))
  moreover have "get16 (pre @ rta_bytes (t, p) @ post) (length pre + 2) = Inr t"
    using f(4) by (subst get16_middle) (simp_all add: f(2))
  ultimately show ?thesis by (simp add: attr_at_def rta_bytes_def)
qed

lemma attr_reads:
  assumes "attr_at buf a t p"
  shows "get16 buf a = Inr (4 + length p)" "get16 buf (a + 2) = Inr t"
    "n \<le> length p \<Longrightarrow> get_bytes buf (a + 4) n = Inr (take n p)"
    "0 \<in> set p \<Longrightarrow> cstring (drop (a + 4) buf) = Inr (text_of p)"
    "get32 p 0 = Inr v \<Longrightarrow> get32 buf (a + 4) = Inr v"
proof -
  obtain post where d: "drop (a + 4) buf = p @ post" and l: "a + 4 \<le> length buf"
    using assms by (auto simp: attr_at_def)
  have "length buf - (a + 4) = length p + length post" using d by (metis length_append length_drop)
  then show "n \<le> length p \<Longrightarrow> get_bytes buf (a + 4) n = Inr (take n p)"
    using d l by (simp add: get_bytes_def slice_def)
  show "0 \<in> set p \<Longrightarrow> cstring (drop (a + 4) buf) = Inr (text_of p)" using cstring_append d by simp
  assume v: "get32 p 0 = Inr v"
  have "buf = take (a + 4) buf @ p @ post" using d append_take_drop_id by metis
  moreover have "length (take (a + 4) buf) = a + 4" using l by simp
  moreover have "4 \<le> length p" using v by (simp add: get32_def split: if_splits)
  ultimately show "get32 buf (a + 4) = Inr v" using get32_middle [of 0 p "take (a + 4) buf" post] v by simp
qed (use assms in \<open>simp_all add: attr_at_def\<close>)

text \<open>The attribute loop over encoded attributes is a fold, when the body computes \<open>g\<close> on each of them.\<close>

lemma attrs_fold:
  assumes buf: "buf = pre @ rta_records as @ post" and wf: "\<forall>a \<in> set as. wf_rta a"
    and body: "\<And>t p a s. (t, p) \<in> set as \<Longrightarrow> attr_at buf a t p \<Longrightarrow> F a s = Inr (g (t, p) s)"
  shows "rta_for buf F (length pre) (int (length (rta_records as))) s = Inr (fold g as s)"
proof -
  have "\<forall>m \<in> set (map rta_bytes as). rta.wf_record m"
    using wf rta_fields(1,4) by (fastforce simp: rta.wf_record_def wf_rta_def)
  then have "rta_for buf F (length pre) (int (length (rta_records as))) s
      = foldm F (offsets (length pre) (map rta_bytes as)) s"
    unfolding buf rta_records_def by (intro rta.loop_records) auto
  also have "\<dots> = foldm (\<lambda>a s. Inr (g a s)) as s"
  proof (rule foldm_offsets)
    show "buf = pre @ records (map rta_bytes as) @ post" using buf by (simp add: rta_records_def)
    fix a s pre post assume a: "a \<in> set as" "buf = pre @ rta_bytes a @ post"
    obtain t p where tp: "a = (t, p)" by force
    then have "attr_at buf (length pre) t p" using attr_at_rta_bytes a wf by blast
    then show "F (length pre) s = Inr (g a s)" using body a(1) tp by blast
  qed
  also have "\<dots> = Inr (fold g as s)" by (rule foldm_pure) simp
  finally show ?thesis .
qed

text \<open>So is the message loop over encoded messages.\<close>

lemma messages_fold:
  assumes buf: "buf = records (map enc as) @ post" and wf: "\<forall>a \<in> set as. nlmsg.wf_record (enc a)"
    and body: "\<And>a pre post s. a \<in> set as \<Longrightarrow> buf = pre @ enc a @ post \<Longrightarrow> F (length pre) s = Inr (g a s)"
  shows "nlmsg_for buf F 0 (int (length (records (map enc as)))) s = Inr (fold g as s)"
proof -
  have b: "buf = [] @ records (map enc as) @ post" using buf by simp
  have "nlmsg_for buf F (length ([] :: bytes)) (int (length (records (map enc as)))) s
      = foldm F (offsets (length ([] :: bytes)) (map enc as)) s"
    unfolding b using wf by (intro nlmsg.loop_records) auto
  also have "\<dots> = foldm (\<lambda>a s. Inr (g a s)) as s" using body by (rule foldm_offsets [OF b])
  also have "\<dots> = Inr (fold g as s)" by (rule foldm_pure) simp
  finally show ?thesis by simp
qed

section \<open>Messages in a buffer\<close>

lemma route_header:
  assumes "sized_route r" "t < 65536" and buf: "buf = pre @ route_msg_of t r @ post"
  shows "get16 buf (length pre + 4) = Inr t"
    "get32 buf (length pre) = Inr (28 + length (rta_records (rs_attrs r)))"
    "get8 buf (length pre + 20) = Inr (unat (rs_table r))" "get8 buf (length pre + 17) = Inr (unat (rs_dst_len r))"
    "get8 buf (length pre + 21) = Inr (unat (rs_proto r))"
    "as_int (28 + length (rta_records (rs_attrs r))) - 28 = int (length (rta_records (rs_attrs r)))"
proof -
  let ?as = "rta_records (rs_attrs r)" and ?m = "route_msg_of t r"
  let ?hdr = "nlmsghdr (28 + length ?as) t 2 1 0"
  have m: "?m = ?hdr @ rtmsg_bytes r @ ?as" "length ?m = 28 + length ?as" by (simp_all add: route_msg_of_def)
  have len: "28 + length ?as < 2147483648" using assms(1) by (simp add: sized_route_def)
  have h: "get32 ?m 0 = Inr (28 + length ?as)" "get16 ?m 4 = Inr t"
    unfolding m(1) using len assms(2) by (intro nlmsghdr_fields; simp)+
  have g: "get8 ?m (16 + j) = get8 (rtmsg_bytes r) j" if "j < 12" for j
    using get8_middle [of j "rtmsg_bytes r" ?hdr ?as] that unfolding m(1) by simp
  show "get16 buf (length pre + 4) = Inr t" "get32 buf (length pre) = Inr (28 + length ?as)"
    using get16_middle [of 4 ?m pre post] get32_middle [of 0 ?m pre post] h m(2) unfolding buf by simp_all
  show "get8 buf (length pre + 20) = Inr (unat (rs_table r))" "get8 buf (length pre + 17) = Inr (unat (rs_dst_len r))"
      "get8 buf (length pre + 21) = Inr (unat (rs_proto r))"
    using g [of 4] g [of 1] g [of 5] get8_middle [of 20 ?m pre post] get8_middle [of 17 ?m pre post]
      get8_middle [of 21 ?m pre post] m(2) unfolding buf
    by (simp_all add: get8_def rtmsg_bytes_def)
  show "as_int (28 + length ?as) - 28 = int (length ?as)" using len by (simp add: as_int_def)
qed

lemma route_attrs_fold:
  assumes buf: "buf = pre @ route_msg_of t r @ post" and wf: "\<forall>a \<in> set (rs_attrs r). wf_rta a"
    and body: "\<And>t p a s. (t, p) \<in> set (rs_attrs r) \<Longrightarrow> attr_at buf a t p \<Longrightarrow> F a s = Inr (g (t, p) s)"
  shows "rta_for buf F (length pre + 28) (int (length (rta_records (rs_attrs r)))) s = Inr (fold g (rs_attrs r) s)"
proof -
  let ?p = "pre @ nlmsghdr (28 + length (rta_records (rs_attrs r))) t 2 1 0 @ rtmsg_bytes r"
  have "buf = ?p @ rta_records (rs_attrs r) @ post" unfolding buf by (simp add: route_msg_of_def)
  moreover have "length ?p = length pre + 28" by simp
  ultimately show ?thesis using attrs_fold [of buf ?p "rs_attrs r" post F g s] wf body by metis
qed

lemma route_msg_record: "sized_route r \<Longrightarrow> t < 65536 \<Longrightarrow> nlmsg.wf_record (route_msg_of t r)"
  using route_header(2) [of r t "route_msg_of t r" "[]" "[]"]
  by (simp add: nlmsg.wf_record_def) (simp add: route_msg_of_def)

lemma link_header:
  assumes "sized_link l" "t < 65536" and buf: "buf = pre @ link_msg_of t l @ post"
  shows "get16 buf (length pre + 4) = Inr t"
    "get32 buf (length pre) = Inr (32 + length (rta_records (ls_attrs l)))"
    "get16 buf (length pre + 18) = Inr (ls_iftype l)" "get32 buf (length pre + 20) = Inr (ls_index l)"
    "get32 buf (length pre + 24) = Inr (ls_flags l)"
    "as_int (32 + length (rta_records (ls_attrs l))) - 32 = int (length (rta_records (ls_attrs l)))"
    "as_int (ls_index l) = int (ls_index l)"
proof -
  let ?as = "rta_records (ls_attrs l)" and ?m = "link_msg_of t l"
  let ?hdr = "nlmsghdr (32 + length ?as) t 2 1 0"
  have m: "?m = ?hdr @ ifinfomsg_bytes l @ ?as" "length ?m = 32 + length ?as" by (simp_all add: link_msg_of_def)
  have len: "32 + length ?as < 2147483648" "ls_index l < 2147483648" "ls_flags l < 4294967296" "ls_iftype l < 65536"
    using assms(1) by (simp_all add: sized_link_def)
  have h: "get32 ?m 0 = Inr (32 + length ?as)" "get16 ?m 4 = Inr t"
    unfolding m(1) using len assms(2) by (intro nlmsghdr_fields; simp)+
  have i: "get16 ?m 18 = Inr (ls_iftype l)" "get32 ?m 20 = Inr (ls_index l)" "get32 ?m 24 = Inr (ls_flags l)"
    using get16_middle [of 0 "le16 (ls_iftype l)" "?hdr @ [0, 0]" "le32 (ls_index l) @ le32 (ls_flags l) @ [0, 0, 0, 0] @ ?as"]
      get32_middle [of 0 "le32 (ls_index l)" "?hdr @ [0, 0] @ le16 (ls_iftype l)" "le32 (ls_flags l) @ [0, 0, 0, 0] @ ?as"]
      get32_middle [of 0 "le32 (ls_flags l)" "?hdr @ [0, 0] @ le16 (ls_iftype l) @ le32 (ls_index l)" "[0, 0, 0, 0] @ ?as"]
      get16_le16 [of "ls_iftype l" "[]"] get32_le32 [of "ls_index l" "[]"] get32_le32 [of "ls_flags l" "[]"] len
    unfolding m(1) by (simp_all add: ifinfomsg_bytes_def)
  show "get16 buf (length pre + 4) = Inr t" "get32 buf (length pre) = Inr (32 + length ?as)"
      "get16 buf (length pre + 18) = Inr (ls_iftype l)" "get32 buf (length pre + 20) = Inr (ls_index l)"
      "get32 buf (length pre + 24) = Inr (ls_flags l)"
    using get16_middle [of 4 ?m pre post] get32_middle [of 0 ?m pre post] get16_middle [of 18 ?m pre post]
      get32_middle [of 20 ?m pre post] get32_middle [of 24 ?m pre post] h i m(2) unfolding buf by simp_all
  show "as_int (32 + length ?as) - 32 = int (length ?as)" "as_int (ls_index l) = int (ls_index l)"
    using len by (simp_all add: as_int_def)
qed

lemma link_attrs_fold:
  assumes buf: "buf = pre @ link_msg_of t l @ post" and wf: "\<forall>a \<in> set (ls_attrs l). wf_rta a"
    and body: "\<And>t p a s. (t, p) \<in> set (ls_attrs l) \<Longrightarrow> attr_at buf a t p \<Longrightarrow> F a s = Inr (g (t, p) s)"
  shows "rta_for buf F (length pre + 32) (int (length (rta_records (ls_attrs l)))) s = Inr (fold g (ls_attrs l) s)"
proof -
  let ?p = "pre @ nlmsghdr (32 + length (rta_records (ls_attrs l))) t 2 1 0 @ ifinfomsg_bytes l"
  have "buf = ?p @ rta_records (ls_attrs l) @ post" unfolding buf by (simp add: link_msg_of_def)
  moreover have "length ?p = length pre + 32" by simp
  ultimately show ?thesis using attrs_fold [of buf ?p "ls_attrs l" post F g s] wf body by metis
qed

lemma link_msg_record: "sized_link l \<Longrightarrow> t < 65536 \<Longrightarrow> nlmsg.wf_record (link_msg_of t l)"
  using link_header(2) [of l t "link_msg_of t l" "[]" "[]"]
  by (simp add: nlmsg.wf_record_def) (simp add: link_msg_of_def)

lemma other_header:
  assumes "t < 65536" "16 + length p < 4294967296" and buf: "buf = pre @ other_msg t p @ post"
  shows "get16 buf (length pre + 4) = Inr t" "get32 buf (length pre) = Inr (16 + length p)"
proof -
  let ?m = "other_msg t p"
  have "get16 ?m 4 = Inr t" "get32 ?m 0 = Inr (16 + length p)"
    unfolding other_msg_def using assms(1,2) by (intro nlmsghdr_fields; simp)+
  then show "get16 buf (length pre + 4) = Inr t" "get32 buf (length pre) = Inr (16 + length p)"
    using get16_middle [of 4 ?m pre post] get32_middle [of 0 ?m pre post] unfolding buf by (simp_all add: other_msg_def)
qed

lemma other_msg_record: "t < 65536 \<Longrightarrow> 16 + length p < 4294967296 \<Longrightarrow> nlmsg.wf_record (other_msg t p)"
  using other_header(2) [of t p "other_msg t p" "[]" "[]"]
  by (simp add: nlmsg.wf_record_def) (simp add: other_msg_def)

lemma done_msg_record: "nlmsg.wf_record done_msg"
proof -
  have "get32 done_msg 0 = Inr 20" unfolding done_msg_def by (intro nlmsghdr_fields) simp_all
  then show ?thesis by (simp add: nlmsg.wf_record_def) (simp add: done_msg_def)
qed

lemma records_nonempty: "ms \<noteq> [] \<Longrightarrow> \<forall>m \<in> set ms. nlmsg.wf_record m \<Longrightarrow> records ms \<noteq> []"
  by (cases ms) (auto simp: pad4_def nlmsg.wf_record_def)

section \<open>A message that is shorter than its type needs\<close>

lemma align4_id: "n mod 4 = 0 \<Longrightarrow> align4 n = n"
  by (auto simp: align4_def)

lemma two_messages:
  assumes "nlmsg.wf_record m" "nlmsg.wf_record m'" "length m mod 4 = 0" "length m' mod 4 = 0"
  shows "nlmsg_for (m @ m') F 0 (int (length (m @ m'))) s = rbind (F 0 s) (\<lambda>s. rbind (F (length m) s) Inr)"
proof -
  have p: "pad4 m = m" "pad4 m' = m'" using assms(3,4) by (simp_all add: pad4_def align4_id)
  have "nlmsg_for ([] @ records [m, m'] @ []) F (length ([] :: bytes)) (int (length (records [m, m']))) s
      = foldm F (offsets (length ([] :: bytes)) [m, m']) s"
    using assms(1,2) by (intro nlmsg.loop_records) auto
  moreover have "foldm F [] = Inr" by (rule ext) simp
  moreover have "foldm F [k] = (\<lambda>s. rbind (F k s) (foldm F []))" for k by (rule ext) simp
  ultimately show ?thesis using assms(3) by (simp add: p align4_id)
qed

text \<open>
  A datagram of \<open>n + 32\<close> bytes whose last message is a bare header of type \<open>t\<close>: a body that reads behind such a header
  reads behind the datagram.
\<close>

definition bare_last :: "nat \<Rightarrow> nat \<Rightarrow> bytes" where
  "bare_last n t = other_msg 1 (replicate n 0) @ other_msg t []"

lemma length_bare_last [simp]: "length (bare_last n t) = n + 32"
  by (simp add: bare_last_def other_msg_def)

lemma bare_last_loop:
  assumes "n mod 4 = 0" "n < 65536" "t < 65536" "F 0 s = Inr s" "F (16 + n) s = Inl x"
  shows "nlmsg_for (bare_last n t) F 0 (int (n + 32)) s = Inl x"
proof -
  let ?m = "other_msg 1 (replicate n 0)"
  have "length ?m mod 4 = 0" "length (other_msg t []) = 16" "length ?m = 16 + n"
    using assms(1) by (auto simp: other_msg_def)
  with two_messages [of ?m "other_msg t []" F s] show ?thesis
    using assms other_msg_record [of 1 "replicate n 0"] other_msg_record [of t "[]"]
    by (simp add: bare_last_def add.commute)
qed

lemma bare_last_types:
  assumes "n < 65536" "t < 65536"
  shows "get16 (bare_last n t) 4 = Inr 1" "get16 (bare_last n t) (20 + n) = Inr t"
proof -
  let ?m = "other_msg 1 (replicate n 0)"
  have l: "length ?m = 16 + n" by (simp add: other_msg_def)
  show "get16 (bare_last n t) 4 = Inr 1"
    using other_header(1) [of 1 "replicate n 0" "bare_last n t" "[]" "other_msg t []"] assms by (simp add: bare_last_def)
  have "get16 (bare_last n t) (length ?m + 4) = Inr t"
    using assms by (intro other_header(1) [where p = "[]" and post = "[]"]) (simp_all add: bare_last_def)
  then show "get16 (bare_last n t) (20 + n) = Inr t" unfolding l by (simp add: add.commute)
qed

end
