(* ===== verification/Netlink_Main.thy ===== *)
theory Netlink_Main
  imports Netlink
begin

text \<open>
  The \<open>main\<close> functions of \<open>netlink/route_show.c\<close> and \<open>netlink/route_monitor.c\<close>, and the pair
  \<open>netlink/netlinkKernel.c\<close> (a kernel module that answers) and \<open>netlink/netlinkUser.c\<close> (a program that asks).
  Whether a system call succeeds is an argument; so is what a socket delivers.
\<close>

section \<open>route\_show.c: main\<close>

text \<open>
  The options: the flags \<open>show_routes\<close>, \<open>show_interfaces\<close>, \<open>show_all\<close>, or the exit code and what is printed.
\<close>

primrec parse_args :: "string list \<Rightarrow> bool \<times> bool \<times> bool \<Rightarrow> (int \<times> nl_out list) + (bool \<times> bool \<times> bool)" where
  "parse_args [] flags = Inr flags"
| "parse_args (a # as) flags =
     (case flags of (r, i, all) \<Rightarrow>
        if a = ''-r'' \<or> a = ''--routes'' then parse_args as (True, i, all)
        else if a = ''-i'' \<or> a = ''--interfaces'' then parse_args as (r, True, all)
        else if a = ''-a'' \<or> a = ''--all'' then parse_args as (r, i, True)
        else if a = ''-h'' \<or> a = ''--help'' then Inl (0, [OUsage])
        else Inl (- 1, [OUnknownOption a, OUsage]))"

text \<open>The answers of the system calls, the process id, and what the uninitialised reply buffer holds.\<close>

record show_env =
  s_socket :: bool
  s_bind :: bool
  s_send :: "nat \<Rightarrow> bool"
  s_pid :: nat
  s_stack :: bytes

record show_state =
  s_out :: "nl_out list"
  s_sent :: "bytes list"
  s_input :: "bytes option list"

text \<open>One of the two sections of the output; the flag is false while the program still waits for a reply.\<close>

definition show_section ::
  "show_env \<Rightarrow> string \<Rightarrow> nat \<Rightarrow> nat \<Rightarrow> bool \<Rightarrow> bool \<Rightarrow> show_state \<Rightarrow> (show_state \<times> bool) res" where
  "show_section E heading msg_type family r i S =
     (let S = S\<lparr>s_out := s_out S @ [OHeading heading]\<rparr> in
      if \<not> s_send E msg_type then Inr (S\<lparr>s_out := s_out S @ [OFailed ''sendmsg failed'']\<rparr>, True)
      else
        let S = S\<lparr>s_sent := s_sent S @ [send_netlink_request (s_pid E) msg_type family]\<rparr> in
        rbind (process_netlink_responses r i (s_stack E) (s_input S) (s_out S)) (\<lambda>(out, rest).
          case rest of
            None \<Rightarrow> Inr (S\<lparr>s_out := out, s_input := []\<rparr>, False)
          | Some rest \<Rightarrow> Inr (S\<lparr>s_out := out, s_input := rest\<rparr>, True)))"

abbreviation AF_UNSPEC :: nat where "AF_UNSPEC \<equiv> 0"
abbreviation AF_INET :: nat where "AF_INET \<equiv> 2"

text \<open>
  The results are the exit code (\<open>None\<close> while waiting), whether the socket has been closed, and the
  state. \<open>argv\<close> is without the program name.
\<close>

definition route_show_main ::
  "show_env \<Rightarrow> string list \<Rightarrow> bytes option list \<Rightarrow> (int option \<times> bool \<times> show_state) res" where
  "route_show_main E argv input =
     (let S = \<lparr>s_out = [], s_sent = [], s_input = input\<rparr> in
      case parse_args argv (False, False, False) of
        Inl (ret, out) \<Rightarrow> Inr (Some ret, False, S\<lparr>s_out := out\<rparr>)
      | Inr (show_routes, show_interfaces, show_all) \<Rightarrow>
          let show_all = (if \<not> show_routes \<and> \<not> show_interfaces \<and> \<not> show_all then True else show_all) in
          if \<not> s_socket E then Inr (Some (- 1), False, S\<lparr>s_out := [OFailed ''Error creating socket'']\<rparr>)
          else if \<not> s_bind E then Inr (Some (- 1), True, S\<lparr>s_out := [OFailed ''Cannot bind'']\<rparr>)
          else
            let S = S\<lparr>s_out := [OHeading ''Network Information'']\<rparr> in
            rbind (if show_all \<or> show_interfaces
                   then show_section E ''Network Interfaces'' RTM_GETLINK AF_UNSPEC False True S
                   else Inr (S, True)) (\<lambda>(S, returned).
            if \<not> returned then Inr (None, False, S)
            else
              rbind (if show_all \<or> show_routes
                     then show_section E ''Routing Table'' RTM_GETROUTE AF_INET True False S
                     else Inr (S, True)) (\<lambda>(S, returned).
              if \<not> returned then Inr (None, False, S) else Inr (Some 0, True, S))))"

section \<open>route\_monitor.c: main\<close>

text \<open>The handler on the flag \<open>running\<close>; \<open>SIGINT\<close> is 2 and \<open>SIGTERM\<close> is 15.\<close>

definition rm_signal_handler :: "nat \<Rightarrow> bool \<Rightarrow> bool" where
  "rm_signal_handler sig running = (if sig = 2 \<or> sig = 15 then False else running)"

text \<open>
  How one \<open>select\<close> can end: interrupted by a signal whose handler has run, failed otherwise, timed out, or
  with a readable socket and what \<open>recv\<close> then returns.
\<close>

datatype rm_event = RmSignal nat | RmFailed | RmTimeout | RmReadable "bool + bytes"

fun rm_main_loop :: "rm_event list \<Rightarrow> bool \<Rightarrow> nl_out list \<Rightarrow> (nl_out list \<times> bool) res" where
  "rm_main_loop [] running out = Inr (out, \<not> running)"
| "rm_main_loop (e # es) running out =
     (if \<not> running then Inr (out, True)
      else case e of
        RmSignal sig \<Rightarrow> rm_main_loop es (rm_signal_handler sig running) out
      | RmFailed \<Rightarrow> Inr (out @ [OFailed ''select''], True)
      | RmTimeout \<Rightarrow> rm_main_loop es running out
      | RmReadable received \<Rightarrow>
          rbind (monitor_loop received) (\<lambda>(ret, o1).
            if ret < 0 then Inr (out @ o1, True) else rm_main_loop es running (out @ o1)))"

text \<open>The exit code (\<open>None\<close> while it runs), whether the socket has been closed, and the output.\<close>

definition route_monitor_main :: "bool \<Rightarrow> bool \<Rightarrow> rm_event list \<Rightarrow> (int option \<times> bool \<times> nl_out list) res" where
  "route_monitor_main socket_ok bind_ok events =
     (if \<not> socket_ok then Inr (Some (- 1), False, [OFailed ''socket''])
      else if \<not> bind_ok then Inr (Some (- 1), True, [OFailed ''bind''])
      else rbind (rm_main_loop events True []) (\<lambda>(out, ended).
        if ended then Inr (Some 0, True, out) else Inr (None, False, out)))"

section \<open>netlinkKernel.c\<close>

text \<open>``Hello from kernel'' and ``Hello from user space!''.\<close>

definition hello_kernel :: bytes where
  "hello_kernel = [72, 101, 108, 108, 111, 32, 102, 114, 111, 109, 32, 107, 101, 114, 110, 101, 108]"

definition hello_user :: bytes where
  "hello_user = [72, 101, 108, 108, 111, 32, 102, 114, 111, 109, 32, 117, 115, 101, 114, 32, 115, 112, 97, 99, 101, 33]"

text \<open>The module's global \<open>nl_sk\<close>; with it, how often the kernel socket has been released.\<close>

record hello_module =
  nl_sk :: bool
  released :: nat

definition hello_init :: "bool \<Rightarrow> hello_module \<Rightarrow> int \<times> hello_module" where
  "hello_init netlink_kernel_create M =
     (let M = M\<lparr>nl_sk := netlink_kernel_create\<rparr> in
      if \<not> nl_sk M then (- ENOMEM, M) else (0, M))"

definition hello_exit :: "hello_module \<Rightarrow> hello_module" where
  "hello_exit M = (if nl_sk M then M\<lparr>released := released M + 1, nl_sk := False\<rparr> else M)"

text \<open>
  The callback on a received message: the payload it logs, and the reply with the port it is sent to,
  unless \<open>nlmsg_new\<close> or \<open>nlmsg_put\<close> fails. Sending goes through \<open>nl_sk\<close>.
\<close>

definition hello_nl_recv_msg :: "bool \<Rightarrow> bool \<Rightarrow> bytes \<Rightarrow> hello_module \<Rightarrow> (bytes \<times> (nat \<times> bytes) option) res" where
  "hello_nl_recv_msg nlmsg_new nlmsg_put skb M =
     rbind (cstring (drop 16 skb)) (\<lambda>payload. rbind (get32 skb 12) (\<lambda>pid.
       let msg_size = length hello_kernel + 1 in
       if \<not> nlmsg_new then Inr (payload, None)
       else if \<not> nlmsg_put then Inr (payload, None)
       else if \<not> nl_sk M then Inl NullDeref
       else Inr (payload, Some (pid, nlmsghdr (16 + msg_size) NLMSG_DONE 0 0 0 @ hello_kernel @ [0]))))"

section \<open>netlinkUser.c\<close>

text \<open>The user's message: \<open>NLMSG_SPACE(MAX_PAYLOAD)\<close> = 1040 zeroed bytes with header and text filled in.\<close>

definition user_request :: "nat \<Rightarrow> bytes" where
  "user_request pid = put 16 (hello_user @ [0]) (put 0 (nlmsghdr 1040 0 0 0 pid) (replicate 1040 0))"

text \<open>\<open>recvmsg\<close> puts the reply, cut to the buffer, over the request; the program prints the payload.\<close>

definition user_receive :: "bytes \<Rightarrow> bytes \<Rightarrow> bytes res" where
  "user_receive nlh reply = cstring (drop 16 (put 0 (take (length nlh) reply) nlh))"

record user_env =
  u_socket :: bool
  u_bind :: bool
  u_malloc :: bool
  u_send :: bool
  u_pid :: nat

text \<open>
  \<open>network\<close> gives, for the message sent, what \<open>recvmsg\<close> delivers (\<open>None\<close>: it fails). The results are the exit
  code, the payload printed, and how often the buffer is freed and the socket closed.
\<close>

definition user_main :: "user_env \<Rightarrow> (bytes \<Rightarrow> bytes option) \<Rightarrow> (int \<times> bytes option \<times> nat \<times> nat) res" where
  "user_main E network =
     (if \<not> u_socket E then Inr (- 1, None, 0, 0)
      else if \<not> u_bind E then Inr (- 1, None, 0, 1)
      else if \<not> u_malloc E then Inr (- 1, None, 0, 1)
      else
        let nlh = user_request (u_pid E) in
        if \<not> u_send E then Inr (- 1, None, 1, 1)
        else case network nlh of
          None \<Rightarrow> Inr (- 1, None, 1, 1)
        | Some reply \<Rightarrow> rbind (user_receive nlh reply) (\<lambda>text. Inr (0, Some text, 1, 1)))"

end
