(* ===== verification/Netlink_Props.thy ===== *)
theory Netlink_Props
  imports Netlink_Encode Netlink_Main
begin

text \<open>
  What \<open>route_show\<close> prints of the dumps of interfaces and routes, and the request it sends. The locale \<open>dump_item\<close> is
  what a message of a dump owes to the program; it is interpreted for routes and links.
\<close>

section \<open>A dump of routes\<close>

abbreviation route_msg :: "route_spec \<Rightarrow> bytes" where
  "route_msg \<equiv> route_msg_of RTM_NEWROUTE"

definition wf_attr :: "nat \<times> bytes \<Rightarrow> bool" where
  "wf_attr a \<longleftrightarrow> wf_rta a \<and> (fst a = RTA_DST \<or> fst a = RTA_GATEWAY \<longrightarrow> 4 \<le> length (snd a))"

definition wf_route :: "route_spec \<Rightarrow> bool" where
  "wf_route r \<longleftrightarrow> (\<forall>a \<in> set (rs_attrs r). wf_attr a) \<and> sized_route r"

text \<open>What an attribute adds to the line: the last attribute of each kind counts, as a dotted address.\<close>

definition show_attr :: "nat \<times> bytes \<Rightarrow> bytes \<times> bytes \<Rightarrow> bytes \<times> bytes" where
  "show_attr a s = (case a of (t, p) \<Rightarrow> case s of (d, g) \<Rightarrow>
     (if t = RTA_DST then inet_ntop p else d, if t = RTA_GATEWAY then inet_ntop p else g))"

definition route_line :: "route_spec \<Rightarrow> nl_out" where
  "route_line r = (case fold show_attr (rs_attrs r) (NA, NA) of (dst, gw) \<Rightarrow>
     ORoute dst (unat (rs_dst_len r)) (unat (rs_proto r)) gw)"

definition route_lines :: "route_spec \<Rightarrow> nl_out list" where
  "route_lines r = (if unat (rs_table r) = RT_TABLE_MAIN then [route_line r] else [])"

lemma route_attr_step:
  assumes "attr_at buf a t p" "wf_attr (t, p)"
  shows "route_attr buf a s = Inr (show_attr (t, p) s)"
  unfolding route_attr_def attr_reads(2) [OF assms(1)] rbind_Inr
  using attr_reads(3) [OF assms(1), of 4] assms(2)
  by (auto simp: show_attr_def wf_attr_def inet_ntop_take split: prod.splits)

lemma print_route_ok:
  assumes wf: "wf_route r" and buf: "buf = pre @ route_msg r @ post"
  shows "response_msg buf True i (length pre) (out, fin) = Inr (out @ route_lines r, fin)"
proof -
  have "rta_for buf (route_attr buf) (length pre + 28) (int (length (rta_records (rs_attrs r)))) (NA, NA)
      = Inr (fold show_attr (rs_attrs r) (NA, NA))"
    using wf by (intro route_attrs_fold [OF buf] route_attr_step) (auto simp: wf_route_def wf_attr_def)
  moreover have "sized_route r" using wf by (simp add: wf_route_def)
  note route_header [OF this _ buf]
  ultimately show ?thesis
    by (simp add: response_msg_def rtnl_print_route_def route_lines_def route_line_def split: prod.split)
qed

lemma done_ok: "buf = pre @ done_msg @ post \<Longrightarrow> response_msg buf r i (length pre) (out, fin) = Inr (out, True)"
proof -
  assume buf: "buf = pre @ done_msg @ post"
  have "get16 done_msg 4 = Inr NLMSG_DONE" unfolding done_msg_def by (rule nlmsghdr_fields) simp_all
  then have "get16 buf (length pre + 4) = Inr NLMSG_DONE"
    using get16_middle [of 4 done_msg pre post] unfolding buf by (simp add: done_msg_def)
  then show ?thesis by (simp add: response_msg_def)
qed

section \<open>A dump of interfaces\<close>

abbreviation link_msg :: "link_spec \<Rightarrow> bytes" where
  "link_msg \<equiv> link_msg_of RTM_NEWLINK"

text \<open>What one attribute adds to the output.\<close>

definition link_line :: "nat \<Rightarrow> nat \<times> bytes \<Rightarrow> nl_out list" where
  "link_line index a = (case a of (t, p) \<Rightarrow>
     if t = IFLA_IFNAME then [OIface (int index) (text_of p)]
     else if t = IFLA_ADDRESS then [OMac p]
     else if t = IFLA_MTU then (case get32 p 0 of Inr v \<Rightarrow> [OMtu v] | Inl e \<Rightarrow> [])
     else if t = IFLA_QDISC then [OQdisc (text_of p)]
     else [])"

definition link_lines :: "link_spec \<Rightarrow> nl_out list" where
  "link_lines l = concat (map (link_line (ls_index l)) (ls_attrs l))"

lemma link_attr_step:
  assumes "attr_at buf a t p" "wf_link_attr (t, p)"
  shows "link_attr buf (int i) a out = Inr (out @ link_line i (t, p))"
  unfolding link_attr_def attr_reads(1,2) [OF assms(1)] rbind_Inr
  using assms(2) attr_reads(3) [OF assms(1), of "length p"] attr_reads(4,5) [OF assms(1)]
  by (auto simp: wf_link_attr_def link_line_def)

lemma print_link_ok:
  assumes wf: "wf_link l" and buf: "buf = pre @ link_msg l @ post"
  shows "response_msg buf False True (length pre) (out, fin) = Inr (out @ link_lines l, fin)"
proof -
  have "rta_for buf (link_attr buf (int (ls_index l))) (length pre + 32) (int (length (rta_records (ls_attrs l)))) out
      = Inr (fold (\<lambda>a out. out @ link_line (ls_index l) a) (ls_attrs l) out)"
    using wf by (intro link_attrs_fold [OF buf] link_attr_step) (auto simp: wf_link_def wf_link_attr_def)
  moreover have "sized_link l" using wf by (simp add: wf_link_def)
  note link_header [OF this _ buf]
  ultimately show ?thesis by (simp add: response_msg_def rtnl_print_link_def fold_append link_lines_def)
qed

section \<open>Dumps\<close>

text \<open>A dump arrives as datagrams of messages; the last ends with \<open>NLMSG_DONE\<close>.\<close>

definition dump :: "('a \<Rightarrow> bytes) \<Rightarrow> 'a list list \<Rightarrow> 'a list \<Rightarrow> bytes list" where
  "dump enc chunks final = map (\<lambda>c. records (map enc c)) chunks @ [records (map enc final @ [done_msg])]"

locale dump_item =
  fixes r i :: bool
    and enc :: "'a \<Rightarrow> bytes"
    and wf :: "'a \<Rightarrow> bool"
    and line :: "'a \<Rightarrow> nl_out list"
  assumes enc_record: "wf a \<Longrightarrow> nlmsg.wf_record (enc a)"
    and enc_shown: "wf a \<Longrightarrow> response_msg (pre @ enc a @ post) r i (length pre) (out, fin) = Inr (out @ line a, fin)"
begin

lemma messages_shown:
  assumes wfs: "\<forall>a \<in> set as. wf a" and len: "length (records (map enc as @ tail)) \<le> length reply"
    and tail: "tail = (if d then [done_msg] else [])"
  shows "nlmsg_for (put 0 (records (map enc as @ tail)) reply) (response_msg (put 0 (records (map enc as @ tail)) reply) r i)
      0 (int (length (records (map enc as @ tail)))) (out, False) = Inr (out @ concat (map line as), d)"
proof -
  define enc' where "enc' = (\<lambda>x. case x of None \<Rightarrow> done_msg | Some a \<Rightarrow> enc a)"
  define xs where "xs = map Some as @ (if d then [None] else [])"
  define data where "data = records (map enc as @ tail)"
  define buf where "buf = put 0 data reply"
  define g where "g = (\<lambda>x (out, fin). case x of None \<Rightarrow> (out, True) | Some a \<Rightarrow> (out @ line a, fin :: bool))"
  have ms: "map enc as @ tail = map enc' xs" by (simp add: enc'_def xs_def tail)
  have b: "buf = records (map enc' xs) @ drop (length data) reply"
    unfolding buf_def put_def data_def ms by simp
  have "nlmsg_for buf (response_msg buf r i) 0 (int (length (records (map enc' xs)))) (out, False) = Inr (fold g xs (out, False))"
  proof (rule messages_fold [OF b])
    show "\<forall>x \<in> set xs. nlmsg.wf_record (enc' x)" using wfs enc_record done_msg_record by (auto simp: enc'_def xs_def)
    fix x s pre post assume x: "x \<in> set xs" "buf = pre @ enc' x @ post"
    then show "response_msg buf r i (length pre) s = Inr (g x s)"
      using done_ok [of buf pre post] enc_shown [of _ pre post] wfs
      by (cases s; cases x) (auto simp: enc'_def xs_def g_def split: if_splits)
  qed
  also have "fold g xs (out, False) = (out @ concat (map line as), d)"
  proof -
    have "fold g (map Some as) (out, False) = (out @ concat (map line as), False)" for out
      by (induction as arbitrary: out) (simp_all add: g_def)
    then show ?thesis by (simp add: xs_def g_def)
  qed
  finally show ?thesis by (simp add: buf_def data_def ms)
qed

theorem dump_shown:
  assumes "\<forall>c \<in> set chunks. c \<noteq> [] \<and> (\<forall>a \<in> set c. wf a)" "\<forall>a \<in> set final. wf a"
    and "\<forall>m \<in> set (dump enc chunks final). length m \<le> length reply"
  shows "process_netlink_responses r i reply (map Some (dump enc chunks final) @ rest) out
    = Inr (out @ concat (map line (concat chunks @ final)), Some rest)"
  using assms
proof (induction chunks arbitrary: reply out)
  case Nil
  have "records (map enc final @ [done_msg]) \<noteq> []"
    using Nil.prems(2) enc_record done_msg_record by (intro records_nonempty) auto
  then show ?case using Nil.prems messages_shown [of final "[done_msg]" reply True out]
    by (simp add: dump_def Let_def del: records_simps)
next
  case (Cons c chunks)
  let ?d = "records (map enc c)"
  have c: "c \<noteq> []" "\<forall>a \<in> set c. wf a" "length ?d \<le> length reply" using Cons.prems by (auto simp: dump_def)
  have "?d \<noteq> []" using c(1,2) enc_record by (intro records_nonempty) auto
  moreover have "dump enc (c # chunks) final = ?d # dump enc chunks final" by (simp add: dump_def)
  moreover have "length (put 0 ?d reply) = length reply" using c(3) by simp
  ultimately show ?case
    using messages_shown [of c "[]" reply False out] c Cons.prems
      Cons.IH [of "put 0 ?d reply" "out @ concat (map line c)"] by (simp add: Let_def)
qed

end

interpretation routes: dump_item True False route_msg wf_route route_lines
  by unfold_locales (auto simp: wf_route_def route_msg_record print_route_ok [OF _ refl])

interpretation links: dump_item False True link_msg wf_link link_lines
  by unfold_locales (auto simp: wf_link_def link_msg_record print_link_ok [OF _ refl])

text \<open>The dump of well-formed messages in datagrams of at most \<open>n\<close> bytes, none empty.\<close>

definition wf_dump :: "nat \<Rightarrow> ('a \<Rightarrow> bytes) \<Rightarrow> ('a \<Rightarrow> bool) \<Rightarrow> 'a list list \<times> 'a list \<Rightarrow> bool" where
  "wf_dump n enc ok d \<longleftrightarrow> (\<forall>c \<in> set (fst d). c \<noteq> [] \<and> (\<forall>a \<in> set c. ok a)) \<and> (\<forall>a \<in> set (snd d). ok a)
     \<and> (\<forall>m \<in> set (dump enc (fst d) (snd d)). length m \<le> n)"

text \<open>
  C13: when the kernel answers \<open>RTM_GETLINK\<close> and \<open>RTM_GETROUTE\<close> with dumps, in any number of datagrams
  that fit the reply buffer, \<open>route_show\<close> sends exactly the requests its options ask for, prints for
  the interfaces what their attributes encode and for the routes of the main table their destination,
  prefix length, protocol and gateway, in the order of the dumps, closes its socket and returns 0. With
  no option it shows both.
\<close>

theorem route_show_roundtrip:
  assumes "s_socket E" "s_bind E" "s_send E = (\<lambda>t. True)"
    and "parse_args argv (False, False, False) = Inr (r, i, all)"
    and "L \<longleftrightarrow> i \<or> all \<or> \<not> r" "R \<longleftrightarrow> r \<or> all \<or> \<not> i"
    and "wf_dump (length (s_stack E)) link_msg wf_link ld" "wf_dump (length (s_stack E)) route_msg wf_route rd"
  shows "route_show_main E argv ((if L then map Some (dump link_msg (fst ld) (snd ld)) else [])
      @ (if R then map Some (dump route_msg (fst rd) (snd rd)) else []) @ rest)
    = Inr (Some 0, True,
       \<lparr>s_out = OHeading ''Network Information''
          # (if L then OHeading ''Network Interfaces'' # concat (map link_lines (concat (fst ld) @ snd ld)) else [])
          @ (if R then OHeading ''Routing Table'' # concat (map route_lines (concat (fst rd) @ snd rd)) else []),
        s_sent = (if L then [send_netlink_request (s_pid E) RTM_GETLINK AF_UNSPEC] else [])
          @ (if R then [send_netlink_request (s_pid E) RTM_GETROUTE AF_INET] else []),
        s_input = rest\<rparr>)"
proof -
  note ls = links.dump_shown [of "fst ld" "snd ld" "s_stack E"] and rs = routes.dump_shown [of "fst rd" "snd rd" "s_stack E"]
  have l: "process_netlink_responses False True (s_stack E) (map Some (dump link_msg (fst ld) (snd ld)) @ rest) out
      = Inr (out @ concat (map link_lines (concat (fst ld) @ snd ld)), Some rest)" for rest out
    using assms(7) ls by (simp add: wf_dump_def)
  have t: "process_netlink_responses True False (s_stack E) (map Some (dump route_msg (fst rd) (snd rd)) @ rest) out
      = Inr (out @ concat (map route_lines (concat (fst rd) @ snd rd)), Some rest)" for rest out
    using assms(8) rs by (simp add: wf_dump_def)
  show ?thesis unfolding route_show_main_def Let_def assms(4)
    using assms(1-3,5,6) by (cases L; cases R) (auto simp: show_section_def Let_def l t)
qed

definition sample_route :: "u8 \<Rightarrow> route_spec" where
  "sample_route table = \<lparr>rs_dst_len = 24, rs_table = table, rs_proto = 2,
     rs_attrs = [(1, [10, 0, 0, 0]), (5, [10, 0, 0, 1])]\<rparr>"

definition sample_link :: link_spec where
  "sample_link = \<lparr>ls_index = 2, ls_flags = 0x11043, ls_iftype = 1, ls_attrs = [(3, [101, 116, 104, 48, 0]), (4, [220, 5, 0, 0])]\<rparr>"

definition sample_show :: show_env where
  "sample_show = \<lparr>s_socket = True, s_bind = True, s_send = (\<lambda>t. True), s_pid = 7, s_stack = replicate 8192 0\<rparr>"

theorem route_show_roundtrip_witness:
  "\<exists>sent. route_show_main sample_show []
     (map Some (dump link_msg [[sample_link]] []) @ map Some (dump route_msg [[sample_route 254, sample_route 255]] [sample_route 254]))
   = Inr (Some 0, True, \<lparr>s_out = [OHeading ''Network Information'', OHeading ''Network Interfaces'', OIface 2 [101, 116, 104, 48],
       OMtu 1500, OHeading ''Routing Table'', ORoute (inet_ntop [10, 0, 0, 0]) 24 2 (inet_ntop [10, 0, 0, 1]),
       ORoute (inet_ntop [10, 0, 0, 0]) 24 2 (inet_ntop [10, 0, 0, 1])], s_sent = sent, s_input = []\<rparr>)"
proof -
  have al: "align4 8 = 8" "align4 20 = 20" "align4 44 = 44" "align4 9 = 12" "align4 52 = 52" by (simp_all add: align4_def)
  have m: "get32 [220, 5, 0, 0] 0 = Inr 1500" by (simp add: get32_def)
  have r: "wf_route (sample_route t)" for t
    by (simp add: wf_route_def sample_route_def wf_attr_def wf_rta_def sized_route_def rta_records_def rta_bytes_def al)
  have l: "wf_link sample_link"
    by (simp add: wf_link_def sample_link_def wf_link_attr_def wf_rta_def sized_link_def rta_records_def rta_bytes_def al m)
  have "wf_dump 8192 link_msg wf_link ([[sample_link]], [])"
    using l by (simp add: wf_dump_def dump_def) (simp add: link_msg_of_def sample_link_def done_msg_def rta_records_def rta_bytes_def al)
  moreover have "wf_dump 8192 route_msg wf_route ([[sample_route 254, sample_route 255]], [sample_route 254])"
    using r by (simp add: wf_dump_def dump_def) (simp add: route_msg_of_def sample_route_def done_msg_def rta_records_def rta_bytes_def al)
  ultimately show ?thesis
    using route_show_roundtrip [of sample_show "[]" False False False True True "([[sample_link]], [])"
        "([[sample_route 254, sample_route 255]], [sample_route 254])" "[]"]
    by (simp add: sample_show_def route_lines_def route_line_def sample_route_def show_attr_def link_lines_def link_line_def
        sample_link_def text_of_def m)
qed

end
