(* ===== verification/Netlink_Monitor.thy ===== *)
theory Netlink_Monitor
  imports Netlink_Encode Netlink_Main
begin

text \<open>
  Properties of \<open>route_monitor\<close>: on datagrams of any content that leave 16 bytes of the buffer free it stays inside its
  buffer, and on the notifications of the
  kernel it prints exactly the changes they encode.
\<close>

section \<open>The route monitor stays in its buffer\<close>

lemma monitor_attr_ok: "a + 8 \<le> length buf \<Longrightarrow> \<exists>s'. monitor_attr buf a s = Inr s'"
  using get_ok(2) [of "a + 2" buf] get_ok(4) [of "a + 4" 4 buf]
  by (auto simp: monitor_attr_def split: prod.splits)

lemma print_route_info_ok:
  assumes "get32 buf h = Inr l" "16 \<le> l" "h + l + 16 \<le> length buf" "length buf < 2147483648"
  shows "\<exists>out'. print_route_info buf action h out = Inr out'"
proof -
  obtain a b c where f: "get8 buf (h + 17) = Inr a" "get8 buf (h + 21) = Inr b" "get8 buf (h + 20) = Inr c"
    using get_ok(1) [of "h + 17" buf] get_ok(1) [of "h + 21" buf] get_ok(1) [of "h + 20" buf] assms(2,3) by auto
  have l: "as_int l = int l" using assms(3,4) by (simp add: as_int_def)
  have "\<exists>s'. rta_for buf (monitor_attr buf) (h + 28) (as_int l - 28) (NA, NA, NA) = Inr s' \<and> True"
  proof (rule rta.loop_safe)
    show "int (h + 28) + (as_int l - 28) \<le> int (length buf)" using l assms(3) by simp
  next
    fix x n s assume "get16 buf x = Inr n" "4 \<le> n" "int x + int n \<le> int (h + 28) + (as_int l - 28)"
    then have "x + 8 \<le> length buf" using l assms(3) by simp
    then show "\<exists>s'. monitor_attr buf x s = Inr s' \<and> True" using monitor_attr_ok by simp
  qed simp
  then show ?thesis using f assms(1) by (auto simp: print_route_info_def)
qed

lemma monitor_loop_ok:
  assumes "length data + 16 \<le> 8192"
  shows "\<exists>r out. monitor_loop (Inr data) = Inr (r, out) \<and> r \<in> {0, - 1}"
proof (cases "data = []")
  case False
  define buf where "buf = put 0 data (replicate 8192 0)"
  have len: "length buf = 8192" using assms by (simp add: buf_def)
  obtain t where t: "get16 buf 4 = Inr t" using get_ok(2) [of 4 buf] len by auto
  obtain e where e: "get32 buf 16 = Inr e" using get_ok(3) [of 16 buf] len by auto
  have "\<exists>out. nlmsg_for buf (monitor_msg buf) 0 (int (length data)) [] = Inr out \<and> True"
  proof (rule nlmsg.loop_safe)
    show "int 0 + int (length data) \<le> int (length buf)" using assms len by simp
  next
    fix h l out assume h: "get32 buf h = Inr l" "16 \<le> l" "int h + int l \<le> int 0 + int (length data)"
    then have "h + l + 16 \<le> length buf" using assms len by linarith
    then have p: "\<exists>out'. print_route_info buf action h out = Inr out'" for action
      using print_route_info_ok [OF h(1,2), of action out] len by simp
    obtain t where "get16 buf (h + 4) = Inr t" using get_ok(2) [of "h + 4" buf] h(2) \<open>h + l + 16 \<le> length buf\<close> by auto
    then show "\<exists>s'. monitor_msg buf h out = Inr s' \<and> True" using p by (simp add: monitor_msg_def)
  qed simp
  then obtain out where out: "nlmsg_for buf (monitor_msg buf) 0 (int (length data)) [] = Inr out" by blast
  show ?thesis using False t e out by (auto simp: monitor_loop_def Let_def buf_def [symmetric])
qed (simp add: monitor_loop_def)

fun rm_fits :: "rm_event \<Rightarrow> bool" where
  "rm_fits (RmReadable (Inr data)) = (length data + 16 \<le> 8192)"
| "rm_fits e = True"

lemma rm_readable_ok: "rm_fits (RmReadable received) \<Longrightarrow> \<exists>r out. monitor_loop received = Inr (r, out)"
proof (cases received)
  case (Inr data)
  moreover assume "rm_fits (RmReadable received)"
  ultimately show ?thesis using monitor_loop_ok [of data] by auto
qed (simp add: monitor_loop_def)

lemma rm_loop_stopped: "rm_main_loop es False out = Inr (out, True)"
  by (cases es) simp_all

lemma rm_loop_ok:
  assumes "\<forall>e \<in> set es. rm_fits e"
  shows "\<exists>out' ended. rm_main_loop es running out = Inr (out', ended)
    \<and> (RmSignal 2 \<in> set es \<or> RmSignal 15 \<in> set es \<longrightarrow> ended)"
  using assms
proof (induction es arbitrary: running out)
  case (Cons e es)
  then have IH: "\<exists>out' ended. rm_main_loop es running out = Inr (out', ended)
    \<and> (RmSignal 2 \<in> set es \<or> RmSignal 15 \<in> set es \<longrightarrow> ended)" for running out by simp
  show ?case
  proof (cases "running")
    case True
    show ?thesis
    proof (cases e)
      case (RmSignal sig)
      then show ?thesis using IH [of "rm_signal_handler sig True"] rm_loop_stopped True
        by (auto simp: rm_signal_handler_def)
    next
      case (RmReadable received)
      then obtain r o1 where "monitor_loop received = Inr (r, o1)" using Cons.prems rm_readable_ok [of received] by auto
      then show ?thesis using IH [of True "out @ o1"] True RmReadable by (cases "r < 0") auto
    qed (use True IH in auto)
  qed auto
qed simp

lemma bare_route_faults: "monitor_loop (Inr (bare_last 8160 RTM_NEWROUTE)) = Inl OutOfBounds"
proof -
  let ?d = "bare_last 8160 RTM_NEWROUTE"
  have l: "length ?d = 8192" by simp
  have p: "put 0 ?d (replicate 8192 0) = ?d" unfolding put_def l by simp
  have t: "get16 ?d 4 = Inr 1" "get16 ?d 8180 = Inr RTM_NEWROUTE"
    using bare_last_types [of 8160 RTM_NEWROUTE] by simp_all
  have "monitor_msg ?d 0 [] = Inr []" using t(1) by (simp add: monitor_msg_def)
  moreover have "monitor_msg ?d 8176 [] = Inl OutOfBounds"
    using t(2) by (simp add: monitor_msg_def print_route_info_def get8_def)
  ultimately have "nlmsg_for ?d (monitor_msg ?d) 0 (int (8160 + 32)) [] = Inl OutOfBounds"
    by (intro bare_last_loop) simp_all
  moreover have "?d \<noteq> []" using l by (metis list.size(3) zero_neq_numeral)
  ultimately show ?thesis using t(1) by (simp add: monitor_loop_def Let_def p l)
qed

text \<open>
  C15: whatever bytes arrive, \<open>route_monitor\<close> reads only inside its 8192-byte buffer and ends its parsing
  loops, as long as each datagram leaves 16 bytes of the buffer free; and when \<open>SIGINT\<close> or \<open>SIGTERM\<close> arrives it
  closes its socket and returns 0, whatever came before. Some room is needed: the program does not check that a
  message that claims to be a route is long enough for one, and a datagram that fills the buffer and ends in such
  a bare header is read past the end.
\<close>

theorem route_monitor_in_bounds:
  assumes "\<forall>e \<in> set events. rm_fits e"
  shows "\<exists>ret closed out. route_monitor_main True True events = Inr (ret, closed, out) \<and> (closed \<longleftrightarrow> ret = Some 0)
    \<and> (RmSignal 2 \<in> set events \<or> RmSignal 15 \<in> set events \<longrightarrow> ret = Some 0)
    \<and> (\<exists>data. length data = 8192 \<and> route_monitor_main True True [RmReadable (Inr data)] = Inl OutOfBounds)"
proof -
  have "route_monitor_main True True [RmReadable (Inr (bare_last 8160 RTM_NEWROUTE))] = Inl OutOfBounds"
    by (simp add: route_monitor_main_def bare_route_faults)
  moreover have "length (bare_last 8160 RTM_NEWROUTE) = 8192" by simp
  moreover have "\<exists>ret closed out. route_monitor_main True True events = Inr (ret, closed, out) \<and> (closed \<longleftrightarrow> ret = Some 0)
    \<and> (RmSignal 2 \<in> set events \<or> RmSignal 15 \<in> set events \<longrightarrow> ret = Some 0)"
    using rm_loop_ok [OF assms, of True "[]"] by (auto simp: route_monitor_main_def)
  ultimately show ?thesis by blast
qed

theorem route_monitor_in_bounds_witness:
  "\<exists>closed out. route_monitor_main True True [RmReadable (Inr (replicate 8000 255)), RmTimeout, RmSignal 15]
     = Inr (Some 0, closed, out) \<and> closed"
  using route_monitor_in_bounds [of "[RmReadable (Inr (replicate 8000 255)), RmTimeout, RmSignal 15]"]
  by auto

section \<open>The route monitor prints the changes\<close>

text \<open>What the kernel can send to the group: a route added or deleted, or a message of another type.\<close>

datatype rm_note = RouteAdded route_spec | RouteDeleted route_spec | OtherNote nat bytes

fun note_msg :: "rm_note \<Rightarrow> bytes" where
  "note_msg (RouteAdded r) = route_msg_of RTM_NEWROUTE r"
| "note_msg (RouteDeleted r) = route_msg_of RTM_DELROUTE r"
| "note_msg (OtherNote t p) = other_msg t p"

definition wf_change :: "route_spec \<Rightarrow> bool" where
  "wf_change r \<longleftrightarrow> sized_route r \<and> (\<forall>a \<in> set (rs_attrs r). wf_rta a
     \<and> (fst a \<in> {RTA_DST, RTA_GATEWAY, RTA_PREFSRC} \<longrightarrow> 4 \<le> length (snd a)))"

fun wf_note :: "rm_note \<Rightarrow> bool" where
  "wf_note (RouteAdded r) = wf_change r"
| "wf_note (RouteDeleted r) = wf_change r"
| "wf_note (OtherNote t p) = (t < 65536 \<and> 16 + length p < 4294967296
     \<and> t \<notin> {RTM_NEWROUTE, RTM_DELROUTE, NLMSG_DONE, NLMSG_ERROR})"

text \<open>The value of the last attribute of a type, as a dotted address.\<close>

definition last_addr :: "nat \<Rightarrow> (nat \<times> bytes) list \<Rightarrow> bytes option" where
  "last_addr t as = map_option (inet_ntop \<circ> snd) (find (\<lambda>a. fst a = t) (rev as))"

definition change_line :: "bytes \<Rightarrow> route_spec \<Rightarrow> nl_out" where
  "change_line action r = OChange action (case last_addr RTA_DST (rs_attrs r) of Some d \<Rightarrow> d | None \<Rightarrow> NA)
     (unat (rs_dst_len r)) (unat (rs_proto r)) (last_addr RTA_GATEWAY (rs_attrs r)) (last_addr RTA_PREFSRC (rs_attrs r))
     (if unat (rs_table r) = RT_TABLE_MAIN then None else Some (unat (rs_table r)))"

fun note_lines :: "rm_note \<Rightarrow> nl_out list" where
  "note_lines (RouteAdded r) = [change_line ADDED r]"
| "note_lines (RouteDeleted r) = [change_line DELETED r]"
| "note_lines (OtherNote t p) = []"

fun note_type :: "rm_note \<Rightarrow> nat" where
  "note_type (RouteAdded r) = RTM_NEWROUTE"
| "note_type (RouteDeleted r) = RTM_DELROUTE"
| "note_type (OtherNote t p) = t"

definition addr_or_NA :: "nat \<Rightarrow> (nat \<times> bytes) list \<Rightarrow> bytes" where
  "addr_or_NA t as = (case last_addr t as of Some a \<Rightarrow> a | None \<Rightarrow> NA)"

definition shown_addrs :: "nat \<times> bytes \<Rightarrow> bytes \<times> bytes \<times> bytes \<Rightarrow> bytes \<times> bytes \<times> bytes" where
  "shown_addrs a s = (case a of (t, p) \<Rightarrow> case s of (d, g, c) \<Rightarrow>
     (if t = RTA_DST then inet_ntop p else d, if t = RTA_GATEWAY then inet_ntop p else g,
      if t = RTA_PREFSRC then inet_ntop p else c))"

lemma fold_shown_addrs:
  "fold shown_addrs as (NA, NA, NA) = (addr_or_NA RTA_DST as, addr_or_NA RTA_GATEWAY as, addr_or_NA RTA_PREFSRC as)"
proof (induction as rule: rev_induct)
  case (snoc a as)
  then show ?case by (cases a) (auto simp: shown_addrs_def addr_or_NA_def last_addr_def)
qed (simp add: addr_or_NA_def last_addr_def)

text \<open>A printed address has dots, so it is never the placeholder.\<close>

lemma inet_ntop_not_NA: "inet_ntop p \<noteq> NA"
proof -
  have "46 \<in> set (inet_ntop p)" "46 \<notin> set NA" by (simp_all add: inet_ntop_def NA_def)
  then show ?thesis by metis
qed

lemma addr_shown: "(if addr_or_NA t as \<noteq> NA then Some (addr_or_NA t as) else None) = last_addr t as"
  using inet_ntop_not_NA by (auto simp: addr_or_NA_def last_addr_def split: option.splits)

lemma monitor_attr_step:
  assumes "attr_at buf a t p" "t \<in> {RTA_DST, RTA_GATEWAY, RTA_PREFSRC} \<Longrightarrow> 4 \<le> length p"
  shows "monitor_attr buf a s = Inr (shown_addrs (t, p) s)"
  using attr_reads(2) [OF assms(1)] attr_reads(3) [OF assms(1), of 4] assms(2)
  by (auto simp: monitor_attr_def shown_addrs_def inet_ntop_take split: prod.splits)

lemma print_route_info_shows:
  assumes wf: "wf_change r" and "t < 65536" and buf: "buf = pre @ route_msg_of t r @ post"
  shows "print_route_info buf action (length pre) out = Inr (out @ [change_line action r])"
proof -
  have "rta_for buf (monitor_attr buf) (length pre + 28) (int (length (rta_records (rs_attrs r)))) (NA, NA, NA)
      = Inr (fold shown_addrs (rs_attrs r) (NA, NA, NA))"
    using wf by (intro route_attrs_fold [OF buf] monitor_attr_step) (auto simp: wf_change_def)
  moreover have "sized_route r" using wf by (simp add: wf_change_def)
  note route_header [OF this assms(2) buf]
  ultimately show ?thesis
    by (simp add: print_route_info_def fold_shown_addrs addr_shown change_line_def) (simp add: addr_or_NA_def)
qed

lemma note_header:
  assumes "wf_note n" "buf = pre @ note_msg n @ post"
  shows "get16 buf (length pre + 4) = Inr (note_type n)"
  using assms route_header(1) [of _ _ buf pre post] other_header(1) [of _ _ buf pre post]
  by (cases n) (auto simp: wf_change_def)

lemma note_record: "wf_note n \<Longrightarrow> nlmsg.wf_record (note_msg n)"
  by (cases n) (auto simp: wf_change_def route_msg_record other_msg_record)

lemma monitor_msg_shows:
  assumes "wf_note n" "buf = pre @ note_msg n @ post"
  shows "monitor_msg buf (length pre) out = Inr (out @ note_lines n)"
proof (cases n)
  case (RouteAdded r)
  then show ?thesis using note_header [OF assms] print_route_info_shows [of r _ buf pre post] assms
    by (simp add: monitor_msg_def)
next
  case (RouteDeleted r)
  then show ?thesis using note_header [OF assms] print_route_info_shows [of r _ buf pre post] assms
    by (simp add: monitor_msg_def)
next
  case (OtherNote t p)
  then show ?thesis using note_header [OF assms] assms(1) by (simp add: monitor_msg_def)
qed

lemma monitor_loop_shows:
  assumes "\<forall>n \<in> set ns. wf_note n" "length (records (map note_msg ns)) \<le> 8192"
  shows "monitor_loop (Inr (records (map note_msg ns))) = Inr (0, concat (map note_lines ns))"
proof (cases ns)
  case (Cons n ns')
  define data where "data = records (map note_msg ns)"
  define buf where "buf = put 0 data (replicate 8192 0)"
  define tail :: bytes where "tail = replicate (8192 - length data) 0"
  have b: "buf = records (map note_msg ns) @ tail" using assms(2) by (simp add: buf_def put_def data_def tail_def)
  have "buf = [] @ note_msg n @ (replicate (align4 (length (note_msg n)) - length (note_msg n)) 0
      @ records (map note_msg ns') @ tail)" unfolding b by (simp add: Cons pad4_def)
  from note_header [OF _ this] have "get16 buf 4 = Inr (note_type n)" using assms(1) Cons by simp
  moreover have "note_type n \<noteq> NLMSG_DONE" "note_type n \<noteq> NLMSG_ERROR" using assms(1) Cons by (cases n; simp)+
  moreover have "nlmsg_for buf (monitor_msg buf) 0 (int (length data)) [] = Inr (concat (map note_lines ns))"
    unfolding data_def using assms(1) monitor_msg_shows
    by (subst messages_fold [OF b, where g = "\<lambda>n out. out @ note_lines n"]) (auto simp: note_record fold_append)
  moreover have "data \<noteq> []" using records_nonempty [of "map note_msg ns"] assms(1) note_record Cons
    unfolding data_def by auto
  ultimately show ?thesis by (simp add: monitor_loop_def data_def [symmetric] buf_def [symmetric])
qed (simp add: monitor_loop_def)

text \<open>What can happen between two signals that stop the program, and the event it is for the program.\<close>

datatype rm_happening = Notified "rm_note list" | Quiet | OtherSignal nat | RecvInterrupted

fun happening_event :: "rm_happening \<Rightarrow> rm_event" where
  "happening_event (Notified ns) = RmReadable (Inr (records (map note_msg ns)))"
| "happening_event Quiet = RmTimeout"
| "happening_event (OtherSignal sig) = RmSignal sig"
| "happening_event RecvInterrupted = RmReadable (Inl True)"

fun wf_happening :: "rm_happening \<Rightarrow> bool" where
  "wf_happening (Notified ns) = ((\<forall>n \<in> set ns. wf_note n) \<and> length (records (map note_msg ns)) \<le> 8192)"
| "wf_happening (OtherSignal sig) = (sig \<noteq> 2 \<and> sig \<noteq> 15)"
| "wf_happening _ = True"

fun happening_lines :: "rm_happening \<Rightarrow> nl_out list" where
  "happening_lines (Notified ns) = concat (map note_lines ns)"
| "happening_lines _ = []"

lemma rm_loop_happenings:
  "\<forall>h \<in> set hs. wf_happening h \<Longrightarrow>
   rm_main_loop (map happening_event hs @ es) True out = rm_main_loop es True (out @ concat (map happening_lines hs))"
proof (induction hs arbitrary: out)
  case (Cons h hs)
  then show ?case using monitor_loop_shows
    by (cases h) (auto simp: rm_signal_handler_def monitor_loop_def [of "Inl True"])
qed simp

text \<open>
  C14: for any interleaving of kernel notifications, timeouts, interrupted calls and other signals, \<open>route_monitor\<close> prints
  exactly the route changes the notifications encode, one line each and in order: added or deleted, the last destination,
  gateway and preferred source among the attributes (the latter two only when present), the prefix length, the
  protocol, and the table when it is not the main one. Messages of other types are skipped. It runs on until
  \<open>SIGINT\<close> or \<open>SIGTERM\<close>; then it prints nothing more, closes its socket and returns 0.
\<close>

theorem route_monitor_roundtrip:
  assumes "\<forall>h \<in> set hs. wf_happening h" "sig = 2 \<or> sig = 15"
  shows "route_monitor_main True True (map happening_event hs) = Inr (None, False, concat (map happening_lines hs))
    \<and> route_monitor_main True True (map happening_event hs @ RmSignal sig # rest)
        = Inr (Some 0, True, concat (map happening_lines hs))"
proof -
  note l = rm_loop_happenings [OF assms(1), where out = "[]"]
  have "rm_main_loop (RmSignal sig # rest) True out = Inr (out, True)" for out
    using assms(2) rm_loop_stopped by (auto simp: rm_signal_handler_def)
  then show ?thesis using l [of "[]"] l [of "RmSignal sig # rest"] by (simp add: route_monitor_main_def)
qed

definition sample_change :: route_spec where
  "sample_change = \<lparr>rs_dst_len = 24, rs_table = 254, rs_proto = 3, rs_attrs = [(1, [10, 0, 0, 0]), (4, [2, 0, 0, 0]), (5, [10, 0, 0, 1])]\<rparr>"

theorem route_monitor_roundtrip_witness:
  "route_monitor_main True True [RmTimeout, RmReadable (Inr (records [route_msg_of RTM_NEWROUTE sample_change,
      route_msg_of RTM_DELROUTE sample_change])), RmSignal 15]
   = Inr (Some 0, True, [OChange ADDED (inet_ntop [10, 0, 0, 0]) 24 3 (Some (inet_ntop [10, 0, 0, 1])) None None,
       OChange DELETED (inet_ntop [10, 0, 0, 0]) 24 3 (Some (inet_ntop [10, 0, 0, 1])) None None])"
proof -
  have al: "align4 8 = 8" "align4 52 = 52" by (simp_all add: align4_def)
  have wf: "wf_change sample_change"
    by (simp add: wf_change_def sample_change_def wf_rta_def sized_route_def rta_records_def rta_bytes_def al)
  have "length (records (map note_msg [RouteAdded sample_change, RouteDeleted sample_change])) \<le> 8192"
    by (simp add: route_msg_of_def sample_change_def rta_records_def rta_bytes_def al)
  then show ?thesis
    using wf route_monitor_roundtrip [of "[Quiet, Notified [RouteAdded sample_change, RouteDeleted sample_change]]" 15 "[]"]
    by (simp add: change_line_def last_addr_def sample_change_def)
qed

end
