(* ===== verification/Netlink_Hello.thy ===== *)
theory Netlink_Hello
  imports Netlink_Encode Netlink_Main
begin

text \<open>The exchange between \<open>netlinkUser.c\<close> and the module \<open>netlinkKernel.c\<close>.\<close>

section \<open>User and kernel\<close>

lemma cstring_of: "0 \<notin> set s \<Longrightarrow> cstring (s @ 0 # rest) = Inr s"
  by (simp add: cstring_def takeWhile_append2 takeWhile_append)

lemma kernel_answers:
  assumes "pid < 4294967296" "nl_sk M"
  shows "hello_nl_recv_msg True True (user_request pid) M
    = Inr (hello_user, Some (pid, nlmsghdr 34 NLMSG_DONE 0 0 0 @ hello_kernel @ [0]))"
proof -
  have r: "user_request pid = nlmsghdr 1040 0 0 0 pid @ hello_user @ 0 # replicate 1001 0"
    by (simp add: user_request_def put_def hello_user_def)
  have "cstring (drop 16 (user_request pid)) = Inr hello_user" unfolding r
    using cstring_of [of hello_user "replicate 1001 0"] by (simp add: hello_user_def)
  moreover have "get32 (user_request pid) 12 = Inr pid" unfolding r by (intro nlmsghdr_fields assms) simp_all
  ultimately show ?thesis using assms(2) by (simp add: hello_nl_recv_msg_def Let_def hello_kernel_def)
qed

lemma user_reads:
  "user_receive (user_request pid) (nlmsghdr 34 NLMSG_DONE 0 0 0 @ hello_kernel @ [0]) = Inr hello_kernel"
proof -
  let ?reply = "nlmsghdr 34 NLMSG_DONE 0 0 0 @ hello_kernel @ [0]"
  have r: "user_request pid = nlmsghdr 1040 0 0 0 pid @ hello_user @ 0 # replicate 1001 0"
    by (simp add: user_request_def put_def hello_user_def)
  have "drop 16 (put 0 (take (length (user_request pid)) ?reply) (user_request pid)) = hello_kernel @ 0 # drop 34 (user_request pid)"
    unfolding r put_def by (simp add: hello_kernel_def hello_user_def)
  then show ?thesis
    using cstring_of [of hello_kernel "drop 34 (user_request pid)"] by (simp add: user_receive_def hello_kernel_def)
qed

text \<open>What the kernel delivers to the sender's port when the module's callback runs.\<close>

definition kernel_side :: "hello_module \<Rightarrow> nat \<Rightarrow> bytes \<Rightarrow> bytes option" where
  "kernel_side M port request = (case hello_nl_recv_msg True True request M of
     Inr (payload, Some (pid, reply)) \<Rightarrow> if pid = port then Some reply else None
   | _ \<Rightarrow> None)"

text \<open>
  C33: with the module loaded, the exchange works: the module logs the text the user sent and answers to the
  port in the request, and the program prints exactly ``Hello from kernel'', although the reply lands in
  the buffer that still holds the request, frees its buffer and closes its socket once, and returns 0;
  unloading then releases the kernel's socket.
\<close>

theorem hello_exchange:
  assumes "hello_init True M0 = (ret, M)" "u_socket E" "u_bind E" "u_malloc E" "u_send E" "u_pid E < 4294967296"
  shows "ret = 0
    \<and> (\<exists>reply. hello_nl_recv_msg True True (user_request (u_pid E)) M = Inr (hello_user, reply))
    \<and> user_main E (kernel_side M (u_pid E)) = Inr (0, Some hello_kernel, 1, 1)
    \<and> hello_exit M = M0\<lparr>nl_sk := False, released := released M0 + 1\<rparr>"
proof -
  have M: "M = M0\<lparr>nl_sk := True\<rparr>" and r: "ret = 0" using assms(1) by (auto simp: hello_init_def)
  note k = kernel_answers [OF assms(6), of M]
  have "\<exists>reply. hello_nl_recv_msg True True (user_request (u_pid E)) M = Inr (hello_user, reply)" using k M by simp
  moreover have "user_main E (kernel_side M (u_pid E)) = Inr (0, Some hello_kernel, 1, 1)"
    using assms k M by (simp add: user_main_def Let_def kernel_side_def user_reads)
  moreover have "hello_exit M = M0\<lparr>nl_sk := False, released := released M0 + 1\<rparr>" using M by (simp add: hello_exit_def)
  ultimately show ?thesis using r by blast
qed

definition sample_user :: user_env where
  "sample_user = \<lparr>u_socket = True, u_bind = True, u_malloc = True, u_send = True, u_pid = 4242\<rparr>"

theorem hello_exchange_witness:
  "user_main sample_user (kernel_side \<lparr>nl_sk = True, released = 0\<rparr> 4242) = Inr (0, Some hello_kernel, 1, 1)"
proof -
  have "hello_init True \<lparr>nl_sk = False, released = 0\<rparr> = (0, \<lparr>nl_sk = True, released = 0\<rparr>)" by (simp add: hello_init_def)
  from hello_exchange [OF this, of sample_user] show ?thesis by (simp add: sample_user_def)
qed

end
