(* ===== verification/Link_Monitor.thy ===== *)
theory Link_Monitor
  imports Netlink
begin

unbundle bit_operations_syntax

text \<open>
  \<open>select/link_monitor/link_monitor.c\<close>: three descriptors (netlink, timer, signals) under one \<open>select\<close> loop,
  with statistics. The system calls' results are arguments; the global variables are the record
  \<open>monitor\<close>, to which two logs are added: of the output, and of the descriptors the program obtains and closes,
  those of the sockets \<open>get_interface_name\<close> uses included.
\<close>

datatype link_state = LinkUp | LinkUpNotRunning | LinkDown

datatype lm_out =
    LLink nat bool bytes int link_state nat
  | LMac bytes
  | LMtu nat
  | LQdisc bytes
  | LIfname bytes
  | LTimer nat nat nat nat
  | LSignal nat nat
  | LStats nat nat nat

datatype fd_event = FdOpen int | FdClose int

record monitor =
  netlink_fd :: int
  timer_fd :: int
  signal_fd :: int
  running :: bool
  link_events :: u64
  timer_ticks :: u64
  signal_count :: u64
  start_time :: int
  fd_log :: "fd_event list"
  shown :: "lm_out list"

definition monitor_init :: monitor where
  "monitor_init = \<lparr>netlink_fd = - 1, timer_fd = - 1, signal_fd = - 1, running = True, link_events = 0,
     timer_ticks = 0, signal_count = 0, start_time = 0, fd_log = [], shown = []\<rparr>"

text \<open>A call that obtains a descriptor, or fails with a negative number, and \<open>close\<close>.\<close>

definition lm_open :: "int \<Rightarrow> monitor \<Rightarrow> monitor" where
  "lm_open fd M = (if fd < 0 then M else M\<lparr>fd_log := fd_log M @ [FdOpen fd]\<rparr>)"

definition lm_close :: "int \<Rightarrow> monitor \<Rightarrow> monitor" where
  "lm_close fd M = M\<lparr>fd_log := fd_log M @ [FdClose fd]\<rparr>"

section \<open>Initialisation\<close>

text \<open>\<open>fd\<close> is what \<open>socket\<close> returns, the flags whether \<open>setsockopt\<close> and \<open>bind\<close> succeed.\<close>

definition create_netlink_socket :: "int \<Rightarrow> bool \<Rightarrow> bool \<Rightarrow> monitor \<Rightarrow> int \<times> monitor" where
  "create_netlink_socket fd setsockopt_ok bind_ok M =
     (let M = lm_open fd M in
      if fd < 0 then (- 1, M)
      else if \<not> setsockopt_ok then (- 1, lm_close fd M)
      else if \<not> bind_ok then (- 1, lm_close fd M)
      else (fd, M))"

definition init_netlink_socket :: "int \<Rightarrow> bool \<Rightarrow> bool \<Rightarrow> monitor \<Rightarrow> bool \<times> monitor" where
  "init_netlink_socket fd setsockopt_ok bind_ok M =
     (case create_netlink_socket fd setsockopt_ok bind_ok M of (r, M) \<Rightarrow>
        let M = M\<lparr>netlink_fd := r\<rparr> in (\<not> r < 0, M))"

definition init_timerfd :: "int \<Rightarrow> bool \<Rightarrow> monitor \<Rightarrow> bool \<times> monitor" where
  "init_timerfd fd settime_ok M =
     (let M = (lm_open fd M)\<lparr>timer_fd := fd\<rparr> in
      if fd < 0 then (False, M)
      else if \<not> settime_ok then (False, lm_close fd M)
      else (True, M))"

definition init_signalfd :: "bool \<Rightarrow> int \<Rightarrow> monitor \<Rightarrow> bool \<times> monitor" where
  "init_signalfd sigprocmask_ok fd M =
     (if \<not> sigprocmask_ok then (False, M)
      else let M = (lm_open fd M)\<lparr>signal_fd := fd\<rparr> in (\<not> fd < 0, M))"

section \<open>Events\<close>

definition get_link_state :: "nat \<Rightarrow> link_state" where
  "get_link_state flags =
     (if (of_nat flags :: u32) AND 0x40 \<noteq> 0 then LinkUp
      else if (of_nat flags :: u32) AND 1 \<noteq> 0 then LinkUpNotRunning
      else LinkDown)"

text \<open>
  The name of an interface: ``unknown'' without a socket, the first \<open>size - 1\<close> bytes of the kernel's
  answer, or ``ifindex-'' and the number. \<open>sock\<close> is what \<open>socket\<close> returns; the socket is closed before the function
  returns.
\<close>

definition get_interface_name ::
  "int \<Rightarrow> bytes option \<Rightarrow> int \<Rightarrow> nat \<Rightarrow> fd_event list \<Rightarrow> bytes \<times> fd_event list" where
  "get_interface_name sock ioctl_name ifindex n fds =
     (if sock < 0 then (snprintf n [117, 110, 107, 110, 111, 119, 110], fds)
      else
        let fds = fds @ [FdOpen sock];
            name = (case ioctl_name of
               Some name \<Rightarrow> take (n - 1) name
             | None \<Rightarrow> snprintf n ([105, 102, 105, 110, 100, 101, 120, 45]
                 @ (if ifindex < 0 then 45 # decimal (nat (- ifindex)) else decimal (nat ifindex))))
        in (name, fds @ [FdClose sock]))"

definition lm_attr :: "bytes \<Rightarrow> nat \<Rightarrow> lm_out list \<Rightarrow> lm_out list res" where
  "lm_attr buf a out =
     rbind (get16 buf a) (\<lambda>rta_len. rbind (get16 buf (a + 2)) (\<lambda>rta_type.
       if rta_type = IFLA_ADDRESS then
         rbind (get_bytes buf (a + 4) (min (rta_len - 4) 6)) (\<lambda>m. Inr (out @ [LMac m]))
       else if rta_type = IFLA_MTU then rbind (get32 buf (a + 4)) (\<lambda>m. Inr (out @ [LMtu m]))
       else if rta_type = IFLA_QDISC then rbind (cstring (drop (a + 4) buf)) (\<lambda>s. Inr (out @ [LQdisc s]))
       else if rta_type = IFLA_IFNAME then rbind (cstring (drop (a + 4) buf)) (\<lambda>s. Inr (out @ [LIfname s]))
       else Inr out))"

text \<open>
  \<open>names\<close> answers \<open>get_interface_name\<close>'s system calls \<open>socket\<close> and \<open>ioctl\<close> for an interface index. The state of the
  message loop is the output and the log of descriptors.
\<close>

definition lm_msg :: "(int \<Rightarrow> int \<times> bytes option) \<Rightarrow> nat \<Rightarrow> bytes \<Rightarrow> nat
    \<Rightarrow> lm_out list \<times> fd_event list \<Rightarrow> (lm_out list \<times> fd_event list) res" where
  "lm_msg names events buf h s = (case s of (out, fds) \<Rightarrow>
     rbind (get16 buf (h + 4)) (\<lambda>type.
       if type = RTM_NEWLINK \<or> type = RTM_DELLINK then
         rbind (get32 buf (h + 20)) (\<lambda>index. rbind (get32 buf (h + 24)) (\<lambda>flags. rbind (get16 buf (h + 18)) (\<lambda>iftype.
         rbind (get32 buf h) (\<lambda>nlmsg_len.
           let i = as_int index;
               (name, fds) = get_interface_name (fst (names i)) (snd (names i)) i 16 fds;
               out = out @ [LLink events (type = RTM_NEWLINK) name i (get_link_state flags) iftype]
           in rbind (rta_for buf (lm_attr buf) (h + 32) (as_int nlmsg_len - 32) out) (\<lambda>out. Inr (out, fds))))))
       else Inr (out, fds)))"

text \<open>
  What \<open>recvfrom\<close> leaves: the whole buffer, of which the message is the first \<open>recv_len\<close> bytes and the rest is whatever
  was on the stack; \<open>None\<close> is a failed call.
\<close>

definition handle_netlink_link_message ::
  "(int \<Rightarrow> int \<times> bytes option) \<Rightarrow> (bytes \<times> nat) option \<Rightarrow> monitor \<Rightarrow> monitor res" where
  "handle_netlink_link_message names received M =
     (case received of
        None \<Rightarrow> Inr M
      | Some (buf, recv_len) \<Rightarrow>
          let M = M\<lparr>link_events := link_events M + 1\<rparr> in
          rbind (nlmsg_for buf (lm_msg names (unat (link_events M)) buf) 0 (int recv_len) (shown M, fd_log M))
            (\<lambda>(out, fds). Inr (M\<lparr>shown := out, fd_log := fds\<rparr>)))"

text \<open>\<open>None\<close>: the read did not return a whole counter.\<close>

definition handle_timer_event :: "u64 option \<Rightarrow> monitor \<Rightarrow> monitor" where
  "handle_timer_event expirations M =
     (case expirations of
        None \<Rightarrow> M
      | Some n \<Rightarrow>
          let M = M\<lparr>timer_ticks := timer_ticks M + n\<rparr> in
          M\<lparr>shown := shown M @ [LTimer (unat (timer_ticks M)) (unat (link_events M)) (unat (timer_ticks M))
              (unat (signal_count M))]\<rparr>)"

abbreviation SIGINT :: nat where "SIGINT \<equiv> 2"
abbreviation SIGUSR1 :: nat where "SIGUSR1 \<equiv> 10"
abbreviation SIGUSR2 :: nat where "SIGUSR2 \<equiv> 12"
abbreviation SIGTERM :: nat where "SIGTERM \<equiv> 15"

definition handle_signal_event :: "int \<Rightarrow> nat option \<Rightarrow> monitor \<Rightarrow> monitor" where
  "handle_signal_event now siginfo M =
     (case siginfo of
        None \<Rightarrow> M
      | Some signo \<Rightarrow>
          let M = M\<lparr>signal_count := signal_count M + 1\<rparr>;
              M = M\<lparr>shown := shown M @ [LSignal (unat (signal_count M)) signo]\<rparr> in
          if signo = SIGINT \<or> signo = SIGTERM then M\<lparr>running := False\<rparr>
          else if signo = SIGUSR1 then
            M\<lparr>shown := shown M @ [LStats (unat (link_events M)) (unat (timer_ticks M)) (unat (signal_count M))]\<rparr>
          else if signo = SIGUSR2 then
            M\<lparr>link_events := 0, timer_ticks := 0, signal_count := 0, start_time := now\<rparr>
          else M)"

definition close_netlink :: "monitor \<Rightarrow> monitor" where
  "close_netlink M = (if netlink_fd M \<ge> 0 then (lm_close (netlink_fd M) M)\<lparr>netlink_fd := - 1\<rparr> else M)"

definition close_timer :: "monitor \<Rightarrow> monitor" where
  "close_timer M = (if timer_fd M \<ge> 0 then (lm_close (timer_fd M) M)\<lparr>timer_fd := - 1\<rparr> else M)"

definition close_signal :: "monitor \<Rightarrow> monitor" where
  "close_signal M = (if signal_fd M \<ge> 0 then (lm_close (signal_fd M) M)\<lparr>signal_fd := - 1\<rparr> else M)"

definition cleanup_resources :: "monitor \<Rightarrow> monitor" where
  "cleanup_resources M = close_signal (close_timer (close_netlink M))"

section \<open>The main loop\<close>

definition select_set :: "monitor \<Rightarrow> int list" where
  "select_set M = filter (\<lambda>fd. fd \<ge> 0) [netlink_fd M, timer_fd M, signal_fd M]"

text \<open>
  One round of \<open>select\<close>: it fails, interrupted or not, or reports for each descriptor whether it is
  readable and what reading it will give.
\<close>

datatype lm_round =
    SelectFailed bool
  | Ready "(bytes \<times> nat) option option" "u64 option option" "nat option option"

fun run_main_loop ::
  "(int \<Rightarrow> int \<times> bytes option) \<Rightarrow> int \<Rightarrow> lm_round list \<Rightarrow> monitor \<Rightarrow> (monitor \<times> bool) res" where
  "run_main_loop names now [] M = Inr (M, \<not> running M)"
| "run_main_loop names now (r # rs) M =
     (if \<not> running M then Inr (M, True)
      else case r of
        SelectFailed eintr \<Rightarrow> if eintr then run_main_loop names now rs M else Inr (M, True)
      | Ready nl ti si \<Rightarrow>
          rbind (case nl of
                   Some received \<Rightarrow> if netlink_fd M \<ge> 0 then handle_netlink_link_message names received M else Inr M
                 | None \<Rightarrow> Inr M) (\<lambda>M.
            let M = (case ti of Some e \<Rightarrow> if timer_fd M \<ge> 0 then handle_timer_event e M else M | None \<Rightarrow> M);
                M = (case si of Some s \<Rightarrow> if signal_fd M \<ge> 0 then handle_signal_event now s M else M | None \<Rightarrow> M)
            in run_main_loop names now rs M))"

text \<open>The answers of the system calls made during initialisation.\<close>

record lm_answers =
  a_socket :: int
  a_setsockopt :: bool
  a_bind :: bool
  a_timerfd :: int
  a_settime :: bool
  a_sigprocmask :: bool
  a_signalfd :: int

definition lm_init :: "lm_answers \<Rightarrow> monitor \<Rightarrow> bool \<times> monitor" where
  "lm_init A M =
     (case init_netlink_socket (a_socket A) (a_setsockopt A) (a_bind A) M of (ok, M) \<Rightarrow>
      if \<not> ok then (False, M)
      else case init_timerfd (a_timerfd A) (a_settime A) M of (ok, M) \<Rightarrow>
      if \<not> ok then (False, M)
      else init_signalfd (a_sigprocmask A) (a_signalfd A) M)"

definition lm_main ::
  "(int \<Rightarrow> int \<times> bytes option) \<Rightarrow> int \<Rightarrow> lm_answers \<Rightarrow> lm_round list \<Rightarrow> (monitor \<times> bool) res" where
  "lm_main names now A rounds =
     (case lm_init A (monitor_init\<lparr>start_time := now\<rparr>) of (ok, M) \<Rightarrow>
        if \<not> ok then Inr (cleanup_resources M, True)
        else rbind (run_main_loop names now rounds M) (\<lambda>(M, ended).
               Inr (if ended then cleanup_resources M else M, ended)))"

section \<open>What the counters count\<close>

text \<open>
  The events of the loop in the order they are handled, and the counters they should leave:
  \<open>SIGUSR2\<close> resets them, itself included.
\<close>

datatype lm_event = EvLink | EvTick u64 | EvSignal nat

fun lm_count :: "lm_event \<Rightarrow> u64 \<times> u64 \<times> u64 \<Rightarrow> u64 \<times> u64 \<times> u64" where
  "lm_count EvLink (l, t, s) = (l + 1, t, s)"
| "lm_count (EvTick n) (l, t, s) = (l, t + n, s)"
| "lm_count (EvSignal sig) (l, t, s) = (if sig = SIGUSR2 then (0, 0, 0) else (l, t, s + 1))"

fun round_events :: "lm_round \<Rightarrow> lm_event list" where
  "round_events (SelectFailed e) = []"
| "round_events (Ready nl ti si) =
     (case nl of Some (Some d) \<Rightarrow> [EvLink] | _ \<Rightarrow> [])
     @ (case ti of Some (Some n) \<Rightarrow> [EvTick n] | _ \<Rightarrow> [])
     @ (case si of Some (Some s) \<Rightarrow> [EvSignal s] | _ \<Rightarrow> [])"

text \<open>The rounds the loop takes: up to and including one with \<open>SIGINT\<close> or \<open>SIGTERM\<close>, short of a failing \<open>select\<close>.\<close>

fun rounds_taken :: "lm_round list \<Rightarrow> lm_round list" where
  "rounds_taken [] = []"
| "rounds_taken (r # rs) =
     (if r = SelectFailed False then []
      else if EvSignal SIGINT \<in> set (round_events r) \<or> EvSignal SIGTERM \<in> set (round_events r) then [r]
      else r # rounds_taken rs)"

end
