(* ===== verification/Link_Props.thy ===== *)
theory Link_Props
  imports Link_Monitor Netlink_Encode
begin

text \<open>Properties of the link monitor: what its counters count, when it stops, and which descriptors it closes.\<close>

section \<open>Counters\<close>

definition counters :: "monitor \<Rightarrow> u64 \<times> u64 \<times> u64" where
  "counters M = (link_events M, timer_ticks M, signal_count M)"

definition fds_open :: "monitor \<Rightarrow> bool" where
  "fds_open M \<longleftrightarrow> netlink_fd M \<ge> 0 \<and> timer_fd M \<ge> 0 \<and> signal_fd M \<ge> 0"

text \<open>The messages of a datagram can be walked and shown without leaving the buffer.\<close>

definition parse_ok :: "(int \<Rightarrow> int \<times> bytes option) \<Rightarrow> bytes \<times> nat \<Rightarrow> bool" where
  "parse_ok names d \<longleftrightarrow>
     (\<forall>n s. \<exists>s'. nlmsg_for (fst d) (lm_msg names n (fst d)) 0 (int (snd d)) s = Inr s')"

text \<open>
  A datagram that leaves 16 bytes of the buffer free, and a zero byte somewhere behind it for a string
  attribute that is not terminated.
\<close>

definition fits :: "bytes \<times> nat \<Rightarrow> bool" where
  "fits d \<longleftrightarrow> snd d + 16 \<le> length (fst d) \<and> length (fst d) < 2147483648 \<and> 0 \<in> set (drop (snd d) (fst d))"

lemma cstring_ok: "0 \<in> set buf \<Longrightarrow> \<exists>s. cstring buf = Inr s"
  by (simp add: cstring_def)

lemma lm_attr_ok:
  assumes "get16 buf a = Inr l" "4 \<le> l" "a + l + 4 \<le> length buf" "0 \<in> set (drop (a + 4) buf)"
  shows "\<exists>out'. lm_attr buf a out = Inr out'"
proof -
  have "a + 4 + min (l - 4) 6 \<le> length buf" using assms(2,3) by linarith
  then obtain m where "get_bytes buf (a + 4) (min (l - 4) 6) = Inr m" using get_ok(4) by blast
  moreover obtain t v s where "get16 buf (a + 2) = Inr t" "get32 buf (a + 4) = Inr v" "cstring (drop (a + 4) buf) = Inr s"
    using get_ok(2) [of "a + 2" buf] get_ok(3) [of "a + 4" buf] cstring_ok [OF assms(4)] assms(2,3) by auto
  ultimately show ?thesis using assms(1) by (simp add: lm_attr_def)
qed

lemma zero_ahead: "0 \<in> set (drop n buf) \<Longrightarrow> k \<le> n \<Longrightarrow> 0 \<in> set (drop k buf)"
  using set_drop_subset_set_drop by fastforce

lemma lm_msg_ok:
  assumes "get32 buf h = Inr l" "16 \<le> l" "h + l \<le> n" "n + 16 \<le> length buf" "length buf < 2147483648"
    and "0 \<in> set (drop n buf)"
  shows "\<exists>s'. lm_msg names e buf h s = Inr s'"
proof -
  obtain t i fl ty where f: "get16 buf (h + 4) = Inr t" "get32 buf (h + 20) = Inr i" "get32 buf (h + 24) = Inr fl"
      "get16 buf (h + 18) = Inr ty"
    using get_ok(2) [of "h + 4" buf] get_ok(3) [of "h + 20" buf] get_ok(3) [of "h + 24" buf]
      get_ok(2) [of "h + 18" buf] assms(2-4) by auto
  have l: "as_int l = int l" using assms(3,4,5) by (simp add: as_int_def)
  have "\<exists>s'. rta_for buf (lm_attr buf) (h + 32) (as_int l - 32) out = Inr s' \<and> True" for out
  proof (rule rta.loop_safe)
    show "int (h + 32) + (as_int l - 32) \<le> int (length buf)" using l assms(3,4) by simp
  next
    fix a k out assume "get16 buf a = Inr k" "4 \<le> k" "int a + int k \<le> int (h + 32) + (as_int l - 32)"
    then show "\<exists>s'. lm_attr buf a out = Inr s' \<and> True"
      using lm_attr_ok [of buf a k] zero_ahead [OF assms(6), of "a + 4"] l assms(3,4) by simp
  qed simp
  then obtain r where "rta_for buf (lm_attr buf) (h + 32) (as_int l - 32) out = Inr (r out)" for out by metis
  then show ?thesis using f assms(1) by (simp add: lm_msg_def Let_def split: prod.split)
qed

lemma fits_parse_ok:
  assumes "fits d"
  shows "parse_ok names d"
  unfolding parse_ok_def
proof (intro allI)
  fix e out
  have "\<exists>s'. nlmsg_for (fst d) (lm_msg names e (fst d)) 0 (int (snd d)) out = Inr s' \<and> True"
  proof (rule nlmsg.loop_safe)
    show "int 0 + int (snd d) \<le> int (length (fst d))" using assms by (simp add: fits_def)
  next
    fix h l out assume "get32 (fst d) h = Inr l" "16 \<le> l" "int h + int l \<le> int 0 + int (snd d)"
    then show "\<exists>s'. lm_msg names e (fst d) h out = Inr s' \<and> True"
      using lm_msg_ok [of "fst d" h l "snd d"] assms by (simp add: fits_def)
  qed simp
  then show "\<exists>s'. nlmsg_for (fst d) (lm_msg names e (fst d)) 0 (int (snd d)) out = Inr s'" by simp
qed

fun round_ok :: "(int \<Rightarrow> int \<times> bytes option) \<Rightarrow> lm_round \<Rightarrow> bool" where
  "round_ok names (Ready nl ti si) = (case nl of Some (Some d) \<Rightarrow> parse_ok names d | _ \<Rightarrow> True)"
| "round_ok names (SelectFailed e) = True"

definition stops :: "lm_round \<Rightarrow> bool" where
  "stops r \<longleftrightarrow> r = SelectFailed False \<or> EvSignal SIGINT \<in> set (round_events r) \<or> EvSignal SIGTERM \<in> set (round_events r)"

lemmas lm_init_defs = lm_init_def init_netlink_socket_def create_netlink_socket_def init_timerfd_def init_signalfd_def
  lm_open_def lm_close_def Let_def

lemma netlink_step:
  assumes "fds_open M" "case nl of Some (Some d) \<Rightarrow> parse_ok names d | _ \<Rightarrow> True"
  shows "\<exists>M'. (case nl of Some received \<Rightarrow> if netlink_fd M \<ge> 0 then handle_netlink_link_message names received M else Inr M
       | None \<Rightarrow> Inr M) = Inr M' \<and> fds_open M' \<and> running M' = running M
     \<and> counters M' = fold lm_count (case nl of Some (Some d) \<Rightarrow> [EvLink] | _ \<Rightarrow> []) (counters M)"
proof (cases "\<exists>data. nl = Some (Some data)")
  case True
  then obtain buf n where nl: "nl = Some (Some (buf, n))" by auto
  let ?e = "unat (link_events M + 1)"
  obtain out fds where "nlmsg_for buf (lm_msg names ?e buf) 0 (int n) (shown M, fd_log M) = Inr (out, fds)"
    using assms(2) nl unfolding parse_ok_def by fastforce
  then show ?thesis using assms(1) nl
    by (simp add: handle_netlink_link_message_def Let_def fds_open_def counters_def)
next
  case False
  then show ?thesis using assms(1)
    by (auto simp: handle_netlink_link_message_def split: option.splits)
qed

lemma timer_step:
  assumes "fds_open M" "M' = (case ti of Some e \<Rightarrow> if timer_fd M \<ge> 0 then handle_timer_event e M else M | None \<Rightarrow> M)"
  shows "fds_open M' \<and> running M' = running M
     \<and> counters M' = fold lm_count (case ti of Some (Some n) \<Rightarrow> [EvTick n] | _ \<Rightarrow> []) (counters M)"
  using assms by (auto simp: handle_timer_event_def Let_def fds_open_def counters_def split: option.splits)

lemma signal_step:
  assumes "fds_open M" "M' = (case si of Some s \<Rightarrow> if signal_fd M \<ge> 0 then handle_signal_event now s M else M | None \<Rightarrow> M)"
  shows "fds_open M' \<and> (running M' \<longleftrightarrow> running M \<and> si \<noteq> Some (Some SIGINT) \<and> si \<noteq> Some (Some SIGTERM))
     \<and> counters M' = fold lm_count (case si of Some (Some s) \<Rightarrow> [EvSignal s] | _ \<Rightarrow> []) (counters M)"
  using assms by (auto simp: handle_signal_event_def Let_def fds_open_def counters_def split: option.splits)

lemma stops_Ready: "stops (Ready nl ti si) \<longleftrightarrow> si = Some (Some SIGINT) \<or> si = Some (Some SIGTERM)"
  by (auto simp: stops_def split: option.splits)

lemma round_step:
  assumes "fds_open M" "running M" "round_ok names (Ready nl ti si)"
  shows "\<exists>M'. run_main_loop names now (Ready nl ti si # rs) M = run_main_loop names now rs M'
    \<and> fds_open M' \<and> (running M' \<longleftrightarrow> \<not> stops (Ready nl ti si))
    \<and> counters M' = fold lm_count (round_events (Ready nl ti si)) (counters M)"
proof -
  obtain M1 where M1: "(case nl of Some received \<Rightarrow> if netlink_fd M \<ge> 0 then handle_netlink_link_message names received M else Inr M
       | None \<Rightarrow> Inr M) = Inr M1" "fds_open M1" "running M1 = running M"
     "counters M1 = fold lm_count (case nl of Some (Some d) \<Rightarrow> [EvLink] | _ \<Rightarrow> []) (counters M)"
    using netlink_step [OF assms(1), where nl = nl and names = names] assms(3) by auto
  define M2 where "M2 = (case ti of Some e \<Rightarrow> if timer_fd M1 \<ge> 0 then handle_timer_event e M1 else M1 | None \<Rightarrow> M1)"
  define M3 where "M3 = (case si of Some s \<Rightarrow> if signal_fd M2 \<ge> 0 then handle_signal_event now s M2 else M2 | None \<Rightarrow> M2)"
  note t = timer_step [OF M1(2) M2_def]
  note s = signal_step [OF conjunct1 [OF t] M3_def]
  have "run_main_loop names now (Ready nl ti si # rs) M = run_main_loop names now rs M3"
    unfolding M3_def M2_def using assms(2) M1(1) by (simp add: Let_def)
  then show ?thesis using t s M1 assms(2) by (intro exI [of _ M3]) (auto simp: stops_Ready)
qed

lemma run_ends: "\<not> running M \<Longrightarrow> run_main_loop names now rs M = Inr (M, True)"
  by (cases rs) simp_all

lemma run_counts:
  assumes "fds_open M" "running M" "\<forall>r \<in> set rs. round_ok names r"
  shows "\<exists>M' ended. run_main_loop names now rs M = Inr (M', ended) \<and> fds_open M'
    \<and> counters M' = fold lm_count (concat (map round_events (rounds_taken rs))) (counters M)
    \<and> (ended \<longleftrightarrow> (\<exists>r \<in> set rs. stops r))"
  using assms
proof (induction rs arbitrary: M)
  case (Cons r rs)
  show ?case
  proof (cases r)
    case (SelectFailed e)
    then show ?thesis using Cons by (cases e) (auto simp: stops_def)
  next
    case (Ready nl ti si)
    then obtain M1 where M1: "run_main_loop names now (r # rs) M = run_main_loop names now rs M1"
        "fds_open M1" "running M1 \<longleftrightarrow> \<not> stops r" "counters M1 = fold lm_count (round_events r) (counters M)"
      using round_step [OF Cons.prems(1,2)] Cons.prems(3) by (metis list.set_intros(1))
    show ?thesis
    proof (cases "stops r")
      case True
      then show ?thesis using M1 Ready run_ends [of M1] by (auto simp: stops_def)
    next
      case False
      then obtain M' ended where "run_main_loop names now rs M1 = Inr (M', ended)" "fds_open M'"
          "counters M' = fold lm_count (concat (map round_events (rounds_taken rs))) (counters M1)"
          "ended \<longleftrightarrow> (\<exists>r \<in> set rs. stops r)"
        using Cons.IH [of M1] M1 Cons.prems(3) by auto
      then show ?thesis using M1 False Ready
        by (intro exI [of _ M'] exI [of _ ended]) (simp del: run_main_loop.simps add: stops_def)
    qed
  qed
qed auto

text \<open>Every datagram of the run fits.\<close>

fun datagram_fits :: "lm_round \<Rightarrow> bool" where
  "datagram_fits (Ready (Some (Some d)) ti si) = fits d"
| "datagram_fits r = True"

lemma datagram_fits_round_ok: "datagram_fits r \<Longrightarrow> round_ok names r"
  by (cases r rule: datagram_fits.cases) (auto simp: fits_parse_ok)

text \<open>
  The two ways a datagram that fills the 4096-byte buffer makes the program read past it: a bare header of type
  \<open>RTM_NEWLINK\<close> at the end, and a string attribute without terminator at the end.
\<close>

definition unterminated :: bytes where
  "unterminated = link_msg_of RTM_NEWLINK \<lparr>ls_index = 2, ls_flags = 0, ls_iftype = 1,
     ls_attrs = [(IFLA_QDISC, replicate 4060 255)]\<rparr>"

lemma bare_link_faults:
  "nlmsg_for (bare_last 4064 RTM_NEWLINK) (lm_msg names e (bare_last 4064 RTM_NEWLINK)) 0 4096 s = Inl OutOfBounds"
proof -
  let ?d = "bare_last 4064 RTM_NEWLINK"
  have t: "get16 ?d 4 = Inr 1" "get16 ?d 4084 = Inr RTM_NEWLINK"
    using bare_last_types [of 4064 RTM_NEWLINK] by simp_all
  have "lm_msg names e ?d 0 s = Inr s" using t(1) by (simp add: lm_msg_def split: prod.split)
  moreover have "lm_msg names e ?d 4080 s = Inl OutOfBounds"
    using t(2) by (simp add: lm_msg_def get32_def split: prod.split)
  ultimately have "nlmsg_for ?d (lm_msg names e ?d) 0 (int (4064 + 32)) s = Inl OutOfBounds"
    by (intro bare_last_loop) simp_all
  then show ?thesis by simp
qed

lemma unterminated_faults:
  "length unterminated = 4096" "nlmsg_for unterminated (lm_msg names e unterminated) 0 4096 s = Inl OutOfBounds"
proof -
  let ?p = "replicate 4060 (255 :: u8)"
  let ?l = "\<lparr>ls_index = 2, ls_flags = 0, ls_iftype = 1, ls_attrs = [(IFLA_QDISC, ?p)]\<rparr> :: link_spec"
  let ?h = "nlmsghdr 4096 RTM_NEWLINK 2 1 0 @ ifinfomsg_bytes ?l"
  have w: "wf_rta (IFLA_QDISC, ?p)" by (simp add: wf_rta_def)
  have a: "rta_records [(IFLA_QDISC, ?p)] = rta_bytes (IFLA_QDISC, ?p)"
    by (simp add: rta_records_def pad4_def rta_bytes_def align4_id)
  have la: "length (rta_bytes (IFLA_QDISC, ?p)) = 4064" by (simp add: rta_bytes_def)
  have u: "unterminated = ?h @ rta_bytes (IFLA_QDISC, ?p)"
    by (simp add: unterminated_def link_msg_of_def a la)
  show len: "length unterminated = 4096" unfolding u by (simp add: la)
  have s: "sized_link ?l" by (simp add: sized_link_def a la)
  have "unterminated = [] @ link_msg_of RTM_NEWLINK ?l @ []" by (simp add: unterminated_def)
  note hd = link_header [OF s _ this]
  have at: "attr_at unterminated 32 IFLA_QDISC ?p"
    using attr_at_rta_bytes [OF w, of ?h "[]"] unfolding u by simp
  have "drop 36 unterminated = ?p" unfolding u by (simp add: rta_bytes_def)
  then have "lm_attr unterminated 32 out = Inl OutOfBounds" for out
    using attr_reads(1,2) [OF at] by (simp add: lm_attr_def cstring_def)
  then have "rta_for unterminated (lm_attr unterminated) 32 4064 out = Inl OutOfBounds" for out
    using attr_reads(1) [OF at] by (simp add: rta_for.simps [of _ _ 32])
  then have "lm_msg names e unterminated 0 s = Inl OutOfBounds"
    using hd by (simp add: lm_msg_def Let_def a la split: prod.split)
  then show "nlmsg_for unterminated (lm_msg names e unterminated) 0 4096 s = Inl OutOfBounds"
    using hd(2) by (simp add: nlmsg_for.simps [of _ _ 0] a la)
qed

text \<open>
  C17: from the state the initialisation leaves, for datagrams of any content that leave 16 bytes of the buffer free
  and have a zero byte somewhere in the rest of it (which \<open>recvfrom\<close> does not write), the main loop
  does not fault; its counters are those of the events it handled, in order (\<open>SIGUSR2\<close> resets all three,
  itself included); it handles every round up to and including the first that brings \<open>SIGINT\<close> or \<open>SIGTERM\<close>, or
  before which \<open>select\<close> fails otherwise than by a signal, and it ends exactly when there is such a round. Conditions
  on the datagrams are needed: one that fills the 4096-byte buffer and ends in a bare link header, or in a
  string attribute without terminator, is read past the end of the buffer.
\<close>

theorem link_monitor_counters:
  assumes "lm_init A monitor_init = (True, M)" "\<forall>r \<in> set rs. datagram_fits r"
  shows "\<exists>M' ended. run_main_loop names now rs M = Inr (M', ended)
    \<and> counters M' = fold lm_count (concat (map round_events (rounds_taken rs))) (0, 0, 0)
    \<and> (ended \<longleftrightarrow> (\<exists>r \<in> set rs. stops r))
    \<and> (\<forall>d \<in> {bare_last 4064 RTM_NEWLINK, unterminated}. length d = 4096
         \<and> run_main_loop names now [Ready (Some (Some (d, 4096))) None None] M = Inl OutOfBounds)"
proof -
  have i: "fds_open M" "running M" "counters M = (0, 0, 0)"
    using assms(1) by (auto simp: lm_init_defs monitor_init_def counters_def fds_open_def split: prod.splits if_splits)
  have "run_main_loop names now [Ready (Some (Some (d, 4096))) None None] M = Inl OutOfBounds" "length d = 4096"
    if "d \<in> {bare_last 4064 RTM_NEWLINK, unterminated}" for d
    using that i bare_link_faults unterminated_faults
    by (auto simp: handle_netlink_link_message_def Let_def fds_open_def)
  then show ?thesis using i run_counts [of M rs names now] assms(2) datagram_fits_round_ok by (auto simp del: run_main_loop.simps)
qed

definition sample_answers :: "bool \<Rightarrow> lm_answers" where
  "sample_answers settime = \<lparr>a_socket = 3, a_setsockopt = True, a_bind = True, a_timerfd = 4, a_settime = settime,
     a_sigprocmask = True, a_signalfd = 5\<rparr>"

definition sample_monitor :: monitor where
  "sample_monitor = monitor_init\<lparr>netlink_fd := 3, timer_fd := 4, signal_fd := 5, fd_log := [FdOpen 3, FdOpen 4, FdOpen 5]\<rparr>"

theorem link_monitor_counters_witness:
  "\<exists>M' ended. run_main_loop (\<lambda>i. (6, None)) 0
      [Ready (Some (Some (replicate 4096 0, 40))) (Some (Some 3)) None, SelectFailed True,
       Ready None (Some (Some 1)) (Some (Some SIGTERM)), Ready None (Some (Some 1)) None] sample_monitor = Inr (M', ended)
    \<and> counters M' = (1, 4, 1) \<and> ended"
proof -
  have "lm_init (sample_answers True) monitor_init = (True, sample_monitor)"
    by (simp add: lm_init_defs sample_answers_def sample_monitor_def monitor_init_def)
  moreover have "fits (replicate 4096 0, 40)" by (simp add: fits_def)
  ultimately show ?thesis
    using link_monitor_counters [of "sample_answers True" sample_monitor
      "[Ready (Some (Some (replicate 4096 0, 40))) (Some (Some 3)) None, SelectFailed True,
        Ready None (Some (Some 1)) (Some (Some SIGTERM)), Ready None (Some (Some 1)) None]" "\<lambda>i. (6, None)" 0]
    by (auto simp: stops_def simp del: run_main_loop.simps)
qed

section \<open>Descriptors\<close>

text \<open>The descriptors \<open>main\<close> obtains, in order, on its way to the first failure.\<close>

definition opened :: "lm_answers \<Rightarrow> int list" where
  "opened A =
     (if a_socket A < 0 then []
      else a_socket A #
       (if \<not> a_setsockopt A \<or> \<not> a_bind A \<or> a_timerfd A < 0 then []
        else a_timerfd A #
         (if \<not> a_settime A \<or> \<not> a_sigprocmask A \<or> a_signalfd A < 0 then [] else [a_signalfd A])))"

text \<open>The timer was created but could not be set.\<close>

definition timer_unset :: "lm_answers \<Rightarrow> bool" where
  "timer_unset A \<longleftrightarrow> a_socket A \<ge> 0 \<and> a_setsockopt A \<and> a_bind A \<and> a_timerfd A \<ge> 0 \<and> \<not> a_settime A"

text \<open>What a log says of a descriptor: how often it was closed less how often it was obtained.\<close>

definition surplus :: "int \<Rightarrow> fd_event list \<Rightarrow> int" where
  "surplus fd fds = int (count_list fds (FdClose fd)) - int (count_list fds (FdOpen fd))"

text \<open>A log continued by as many \<open>close\<close> calls of each descriptor as calls that obtained it.\<close>

definition balanced_ext :: "fd_event list \<Rightarrow> fd_event list \<Rightarrow> bool" where
  "balanced_ext fds fds' \<longleftrightarrow> (\<exists>ext. fds' = fds @ ext) \<and> (\<forall>fd. surplus fd fds' = surplus fd fds)"

lemma balanced_ext_refl [simp]: "balanced_ext fds fds"
  by (simp add: balanced_ext_def)

lemma balanced_ext_trans: "balanced_ext a b \<Longrightarrow> balanced_ext b c \<Longrightarrow> balanced_ext a c"
  by (auto simp: balanced_ext_def)

lemma interface_name_balanced:
  "balanced_ext fds (snd (get_interface_name sock ioctl i n fds))"
  by (auto simp: get_interface_name_def Let_def balanced_ext_def surplus_def split: if_splits)

lemma lm_msg_balanced:
  assumes "lm_msg names e buf h s = Inr s'"
  shows "balanced_ext (snd s) (snd s')"
  using assms by (auto simp: lm_msg_def Let_def case_prod_beta rbind_eq_Inr interface_name_balanced split: if_splits)

lemma nlmsg_for_balanced:
  "nlmsg_for buf (lm_msg names e buf) off len s = Inr s' \<Longrightarrow> balanced_ext (snd s) (snd s')"
  by (rule nlmsg.loop_inv [where P = "\<lambda>t. balanced_ext (snd s) (snd t)"])
     (auto intro: balanced_ext_trans lm_msg_balanced)

definition lm_fds :: "monitor \<Rightarrow> int \<times> int \<times> int" where
  "lm_fds M = (netlink_fd M, timer_fd M, signal_fd M)"

lemma fds_handlers:
  "handle_netlink_link_message names received M = Inr M' \<Longrightarrow> lm_fds M' = lm_fds M \<and> balanced_ext (fd_log M) (fd_log M')"
  "lm_fds (handle_timer_event e M) = lm_fds M \<and> fd_log (handle_timer_event e M) = fd_log M"
  "lm_fds (handle_signal_event now sig M) = lm_fds M \<and> fd_log (handle_signal_event now sig M) = fd_log M"
  by (auto simp: handle_netlink_link_message_def handle_timer_event_def handle_signal_event_def lm_fds_def Let_def rbind_eq_Inr
      dest!: nlmsg_for_balanced split: option.splits)

lemma run_fds:
  "run_main_loop names now rs M = Inr (M', ended) \<Longrightarrow> lm_fds M' = lm_fds M \<and> balanced_ext (fd_log M) (fd_log M')"
proof (induction rs arbitrary: M)
  case (Cons r rs)
  show ?case
  proof (cases r)
    case (SelectFailed e)
    then show ?thesis using Cons by (auto split: if_splits)
  next
    case (Ready nl ti si)
    show ?thesis
    proof (cases "running M")
      case True
      obtain M1 where M1: "(case nl of Some received \<Rightarrow> if netlink_fd M \<ge> 0 then handle_netlink_link_message names received M else Inr M
           | None \<Rightarrow> Inr M) = Inr M1"
        using Cons.prems Ready True by (simp add: Let_def rbind_eq_Inr) blast
      define M2 where "M2 = (case ti of Some e \<Rightarrow> if timer_fd M1 \<ge> 0 then handle_timer_event e M1 else M1 | None \<Rightarrow> M1)"
      define M3 where "M3 = (case si of Some sig \<Rightarrow> if signal_fd M2 \<ge> 0 then handle_signal_event now sig M2 else M2 | None \<Rightarrow> M2)"
      have "lm_fds M1 = lm_fds M \<and> balanced_ext (fd_log M) (fd_log M1)"
        using M1 fds_handlers(1) by (auto split: option.splits if_splits)
      moreover have "lm_fds M2 = lm_fds M1 \<and> fd_log M2 = fd_log M1" "lm_fds M3 = lm_fds M2 \<and> fd_log M3 = fd_log M2"
        by (simp_all add: M2_def M3_def fds_handlers split: option.split)
      moreover have "run_main_loop names now rs M3 = Inr (M', ended)"
        unfolding M3_def M2_def using Cons.prems Ready True M1 by (simp add: Let_def)
      ultimately show ?thesis using Cons.IH [of M3] balanced_ext_trans by simp metis
    qed (use Cons.prems run_ends in simp)
  qed
qed simp

lemma cleanup_log:
  assumes "lm_fds M = lm_fds N" "balanced_ext (fd_log M) (fd_log N)"
  shows "surplus fd (fd_log (cleanup_resources N)) = surplus fd (fd_log (cleanup_resources M))"
    and "count_list (fd_log (cleanup_resources M)) (FdOpen fd) \<le> count_list (fd_log (cleanup_resources N)) (FdOpen fd)"
proof -
  have f: "netlink_fd N = netlink_fd M" "timer_fd N = timer_fd M" "signal_fd N = signal_fd M"
    using assms(1) by (simp_all add: lm_fds_def)
  define c where "c = (\<lambda>M :: monitor. (if netlink_fd M \<ge> 0 then [FdClose (netlink_fd M)] else [])
     @ (if timer_fd M \<ge> 0 then [FdClose (timer_fd M)] else []) @ (if signal_fd M \<ge> 0 then [FdClose (signal_fd M)] else []))"
  have l: "fd_log (cleanup_resources M) = fd_log M @ c M" for M
    by (simp add: cleanup_resources_def close_netlink_def close_timer_def close_signal_def lm_close_def c_def)
  have s: "surplus fd (xs @ ys) = surplus fd xs + surplus fd ys" for xs ys by (simp add: surplus_def)
  have "c N = c M" by (simp add: c_def f)
  then show "surplus fd (fd_log (cleanup_resources N)) = surplus fd (fd_log (cleanup_resources M))"
      "count_list (fd_log (cleanup_resources M)) (FdOpen fd) \<le> count_list (fd_log (cleanup_resources N)) (FdOpen fd)"
    using assms(2) by (auto simp: l s balanced_ext_def)
qed

lemma init_log:
  assumes "lm_init A (monitor_init\<lparr>start_time := now\<rparr>) = (ok, M)"
  shows "count_list (fd_log (cleanup_resources M)) (FdOpen fd) = count_list (opened A) fd"
    and "count_list (fd_log (cleanup_resources M)) (FdClose fd)
      = count_list (opened A) fd + (if timer_unset A \<and> fd = a_timerfd A then 1 else 0)"
proof -
  note defs = lm_init_defs opened_def timer_unset_def monitor_init_def cleanup_resources_def close_netlink_def
      close_timer_def close_signal_def
  have M: "M = snd (lm_init A (monitor_init\<lparr>start_time := now\<rparr>))" using assms by simp
  consider "a_socket A < 0"
    | "\<not> a_socket A < 0" "\<not> a_setsockopt A"
    | "\<not> a_socket A < 0" "a_setsockopt A" "\<not> a_bind A"
    | "\<not> a_socket A < 0" "a_setsockopt A" "a_bind A" "a_timerfd A < 0"
    | "\<not> a_socket A < 0" "a_setsockopt A" "a_bind A" "\<not> a_timerfd A < 0" "\<not> a_settime A"
    | "\<not> a_socket A < 0" "a_setsockopt A" "a_bind A" "\<not> a_timerfd A < 0" "a_settime A"
        "\<not> a_sigprocmask A \<or> a_signalfd A < 0"
    | "\<not> a_socket A < 0" "a_setsockopt A" "a_bind A" "\<not> a_timerfd A < 0" "a_settime A"
        "a_sigprocmask A" "\<not> a_signalfd A < 0"
    by blast
  then have "count_list (fd_log (cleanup_resources M)) (FdOpen fd) = count_list (opened A) fd
    \<and> count_list (fd_log (cleanup_resources M)) (FdClose fd)
      = count_list (opened A) fd + (if timer_unset A \<and> fd = a_timerfd A then 1 else 0)"
    unfolding M by cases (auto simp: defs)
  then show "count_list (fd_log (cleanup_resources M)) (FdOpen fd) = count_list (opened A) fd"
      "count_list (fd_log (cleanup_resources M)) (FdClose fd)
        = count_list (opened A) fd + (if timer_unset A \<and> fd = a_timerfd A then 1 else 0)" by blast+
qed

text \<open>
  C34: however initialisation and the run go, when \<open>main\<close> ends, every descriptor has been closed as often as the
  program obtained it, the sockets \<open>get_interface_name\<close> opens for the link messages included, with one exception: a timer
  that cannot be set is closed by \<open>init_timerfd\<close> and again by \<open>cleanup_resources\<close>. Among the descriptors obtained are those of the
  initialisation up to its first failure, \<open>opened A\<close>.
\<close>

theorem link_monitor_closes:
  assumes "lm_main names now A rounds = Inr (M, True)"
  shows "count_list (fd_log M) (FdClose fd)
      = count_list (fd_log M) (FdOpen fd) + (if timer_unset A \<and> fd = a_timerfd A then 1 else 0)
    \<and> count_list (opened A) fd \<le> count_list (fd_log M) (FdOpen fd)"
proof -
  obtain ok M0 where init: "lm_init A (monitor_init\<lparr>start_time := now\<rparr>) = (ok, M0)" by force
  obtain N where N: "lm_fds M0 = lm_fds N" "balanced_ext (fd_log M0) (fd_log N)" "M = cleanup_resources N"
  proof (cases ok)
    case True
    then obtain N where "run_main_loop names now rounds M0 = Inr (N, True)" "M = cleanup_resources N"
      using assms init by (auto simp: lm_main_def rbind_eq_Inr split: if_splits)
    then show ?thesis using that run_fds by metis
  next
    case False
    then show ?thesis using that [of M0] assms init by (simp add: lm_main_def)
  qed
  show ?thesis
    using init_log [OF init, of fd] cleanup_log [OF N(1,2), of fd] unfolding N(3) surplus_def by auto
qed

text \<open>
  A timer that could not be set, and a run with one link message, for which a socket is opened and closed, stopped
  by \<open>SIGTERM\<close>.
\<close>

theorem link_monitor_closes_witness:
  "(\<exists>M :: monitor. lm_main (\<lambda>i. (6, None)) 0 (sample_answers False) [] = Inr (M, True)
      \<and> count_list (fd_log M) (FdClose 4) = 2 \<and> count_list (fd_log M) (FdOpen 4) = 1)
   \<and> (\<exists>M :: monitor. lm_main (\<lambda>i. (6, None)) 0 (sample_answers True) [Ready (Some (Some
          (link_msg_of RTM_NEWLINK \<lparr>ls_index = 2, ls_flags = 0, ls_iftype = 1, ls_attrs = []\<rparr> @ replicate 4064 0, 32))) None (Some (Some SIGTERM))]
        = Inr (M, True)
      \<and> FdOpen 6 \<in> set (fd_log M) \<and> count_list (fd_log M) (FdClose 6) = count_list (fd_log M) (FdOpen 6))"
proof -
  obtain M where M: "lm_main (\<lambda>i. (6, None)) 0 (sample_answers False) [] = Inr (M, True)"
      "count_list (fd_log M) (FdOpen 4) = 1"
    by (simp add: lm_main_def lm_init_defs sample_answers_def monitor_init_def cleanup_resources_def close_netlink_def
        close_timer_def close_signal_def)
  have "timer_unset (sample_answers False)" "a_timerfd (sample_answers False) = 4" "\<not> timer_unset (sample_answers True)"
    by (simp_all add: timer_unset_def sample_answers_def)
  note u = this
  let ?l = "\<lparr>ls_index = 2, ls_flags = 0, ls_iftype = 1, ls_attrs = []\<rparr> :: link_spec"
  let ?m = "link_msg_of RTM_NEWLINK ?l" and ?z = "replicate 4064 (0 :: u8)" and ?n = "\<lambda>i :: int. (6 :: int, None :: bytes option)"
  have s: "sized_link ?l" by (simp add: sized_link_def rta_records_def)
  have m: "lm_msg ?n e (?m @ ?z) 0 ([], fds) = Inr ([LLink e True (fst (get_interface_name 6 None 2 16 [])) 2 LinkDown 1], fds @ [FdOpen 6, FdClose 6])"
    for e fds
    using link_header [OF s, of RTM_NEWLINK "?m @ ?z" "[]" ?z]
    by (simp add: lm_msg_def get_interface_name_def Let_def rta_records_def get_link_state_def rta_for.simps)
  have "nlmsg_for ([] @ records [?m] @ ?z) (lm_msg ?n e (?m @ ?z)) (length ([] :: bytes)) (int (length (records [?m]))) t
      = foldm (lm_msg ?n e (?m @ ?z)) (offsets (length ([] :: bytes)) [?m]) t" for e t
    using link_msg_record [OF s, of RTM_NEWLINK] by (intro nlmsg.loop_records) simp_all
  moreover have "length ?m = 32" by (simp add: link_msg_of_def rta_records_def)
  ultimately have "nlmsg_for (?m @ ?z) (lm_msg ?n e (?m @ ?z)) 0 32 t = rbind (lm_msg ?n e (?m @ ?z) 0 t) (foldm (lm_msg ?n e (?m @ ?z)) [])" for e t
    by (simp add: pad4_def align4_def)
  with m obtain M' where M': "lm_main ?n 0 (sample_answers True) [Ready (Some (Some (?m @ ?z, 32))) None (Some (Some SIGTERM))] = Inr (M', True)"
      "FdOpen 6 \<in> set (fd_log M')"
    by (simp add: lm_main_def lm_init_defs sample_answers_def monitor_init_def cleanup_resources_def close_netlink_def
        close_timer_def close_signal_def handle_netlink_link_message_def handle_signal_event_def)
  show ?thesis
    using M M' link_monitor_closes [OF M(1), of 4] link_monitor_closes [OF M'(1), of 6] u by auto
qed

end
