(* ===== verification/Link_Refine.thy ===== *)
theory Link_Refine
  imports Link_Props Netlink_Encode
begin

text \<open>
  What the link monitor promises, on the level of events: links that change or go, ticks of the timer, signals. The
  program refines it: on buffers that hold encoded messages it shows what the specification shows, counts what it
  counts and stops when it stops.
\<close>

section \<open>Specification\<close>

datatype link_note = LinkChanged link_spec | LinkGone link_spec | OtherLinkNote nat bytes

datatype lm_happening = Links "link_note list" | Ticks u64 | Signalled nat

record lm_view =
  v_links :: u64
  v_ticks :: u64
  v_signals :: u64
  v_running :: bool
  v_out :: "lm_out list"

text \<open>An interface is up when it is running (bit 6 of its flags), and administratively up by bit 0.\<close>

definition state_of_flags :: "nat \<Rightarrow> link_state" where
  "state_of_flags flags = (if odd (flags div 64) then LinkUp else if odd flags then LinkUpNotRunning else LinkDown)"

definition lm_attr_lines :: "nat \<times> bytes \<Rightarrow> lm_out list" where
  "lm_attr_lines a = (case a of (t, p) \<Rightarrow>
     if t = IFLA_ADDRESS then [LMac (take 6 p)]
     else if t = IFLA_MTU then (case get32 p 0 of Inr v \<Rightarrow> [LMtu v] | Inl e \<Rightarrow> [])
     else if t = IFLA_QDISC then [LQdisc (text_of p)]
     else if t = IFLA_IFNAME then [LIfname (text_of p)]
     else [])"

definition lm_link_lines :: "(int \<Rightarrow> int \<times> bytes option) \<Rightarrow> nat \<Rightarrow> bool \<Rightarrow> link_spec \<Rightarrow> lm_out list" where
  "lm_link_lines names n new l = (let i = int (ls_index l) in
     LLink n new (fst (get_interface_name (fst (names i)) (snd (names i)) i 16 [])) i (state_of_flags (ls_flags l)) (ls_iftype l)
       # concat (map lm_attr_lines (ls_attrs l)))"

fun link_note_lines :: "(int \<Rightarrow> int \<times> bytes option) \<Rightarrow> nat \<Rightarrow> link_note \<Rightarrow> lm_out list" where
  "link_note_lines names n (LinkChanged l) = lm_link_lines names n True l"
| "link_note_lines names n (LinkGone l) = lm_link_lines names n False l"
| "link_note_lines names n (OtherLinkNote t p) = []"

fun lm_spec :: "(int \<Rightarrow> int \<times> bytes option) \<Rightarrow> lm_happening \<Rightarrow> lm_view \<Rightarrow> lm_view" where
  "lm_spec names (Links ns) v =
     v\<lparr>v_links := v_links v + 1, v_out := v_out v @ concat (map (link_note_lines names (unat (v_links v + 1))) ns)\<rparr>"
| "lm_spec names (Ticks n) v =
     v\<lparr>v_ticks := v_ticks v + n, v_out := v_out v @ [LTimer (unat (v_ticks v + n)) (unat (v_links v)) (unat (v_ticks v + n)) (unat (v_signals v))]\<rparr>"
| "lm_spec names (Signalled sig) v =
     (let v' = v\<lparr>v_signals := v_signals v + 1, v_out := v_out v @ [LSignal (unat (v_signals v + 1)) sig]\<rparr> in
      if sig = SIGINT \<or> sig = SIGTERM then v'\<lparr>v_running := False\<rparr>
      else if sig = SIGUSR1 then v'\<lparr>v_out := v_out v' @ [LStats (unat (v_links v)) (unat (v_ticks v)) (unat (v_signals v'))]\<rparr>
      else if sig = SIGUSR2 then v'\<lparr>v_links := 0, v_ticks := 0, v_signals := 0\<rparr>
      else v')"

text \<open>The happenings of one round of \<open>select\<close> are handled together; then the monitor looks whether to stop.\<close>

fun spec_run :: "(int \<Rightarrow> int \<times> bytes option) \<Rightarrow> lm_happening list list \<Rightarrow> lm_view \<Rightarrow> lm_view" where
  "spec_run names [] v = v"
| "spec_run names (hs # hss) v = (if v_running v then spec_run names hss (fold (lm_spec names) hs v) else v)"

definition spec_boot :: lm_view where
  "spec_boot = \<lparr>v_links = 0, v_ticks = 0, v_signals = 0, v_running = True, v_out = []\<rparr>"

section \<open>What the rounds mean\<close>

fun link_note_msg :: "link_note \<Rightarrow> bytes" where
  "link_note_msg (LinkChanged l) = link_msg_of RTM_NEWLINK l"
| "link_note_msg (LinkGone l) = link_msg_of RTM_DELLINK l"
| "link_note_msg (OtherLinkNote t p) = other_msg t p"

fun wf_link_note :: "link_note \<Rightarrow> bool" where
  "wf_link_note (LinkChanged l) = wf_link l"
| "wf_link_note (LinkGone l) = wf_link l"
| "wf_link_note (OtherLinkNote t p) = (t < 65536 \<and> 16 + length p < 4294967296 \<and> t \<notin> {RTM_NEWLINK, RTM_DELLINK})"

text \<open>
  The buffer holds encoded messages in front of anything; a failed read means nothing, and so does an interrupted
  \<open>select\<close>.
\<close>

inductive nl_means :: "(bytes \<times> nat) option option \<Rightarrow> lm_happening list \<Rightarrow> bool" where
  datagram: "\<forall>n \<in> set ns. wf_link_note n \<Longrightarrow>
     nl_means (Some (Some (records (map link_note_msg ns) @ tail, length (records (map link_note_msg ns))))) [Links ns]"
| no_datagram: "nl_means (Some None) []"
| not_readable: "nl_means None []"

inductive round_means :: "lm_round \<Rightarrow> lm_happening list \<Rightarrow> bool" where
  interrupted: "round_means (SelectFailed True) []"
| ready: "nl_means nl hs \<Longrightarrow> round_means (Ready nl ti si)
     (hs @ (case ti of Some (Some n) \<Rightarrow> [Ticks n] | _ \<Rightarrow> []) @ (case si of Some (Some sig) \<Rightarrow> [Signalled sig] | _ \<Rightarrow> []))"

definition view_of :: "monitor \<Rightarrow> lm_view" where
  "view_of M = \<lparr>v_links = link_events M, v_ticks = timer_ticks M, v_signals = signal_count M, v_running = running M,
     v_out = shown M\<rparr>"

section \<open>Refinement\<close>

lemma get_link_state_flags: "flags < 4294967296 \<Longrightarrow> get_link_state flags = state_of_flags flags"
proof -
  have b: "(of_nat flags :: u32) AND 2 ^ k \<noteq> 0 \<longleftrightarrow> odd (flags div 2 ^ k)" if "k < 32" for k
  proof -
    have "bit (of_nat flags :: u32) k \<longleftrightarrow> bit flags k" using that by (simp add: bit_of_nat_iff)
    then show ?thesis by (simp add: and_exp_eq_0_iff_not_bit bit_iff_odd [of flags k])
  qed
  show ?thesis using b [of 6] b [of 0] by (simp add: get_link_state_def state_of_flags_def)
qed

lemma lm_attr_step:
  assumes "attr_at buf a t p" "wf_link_attr (t, p)"
  shows "lm_attr buf a out = Inr (out @ lm_attr_lines (t, p))"
proof -
  have "get_bytes buf (a + 4) (min (length p) 6) = Inr (take 6 p)"
    using attr_reads(3) [OF assms(1), of "min (length p) 6"] by (simp add: min_def split: if_splits)
  then show ?thesis unfolding lm_attr_def attr_reads(1,2) [OF assms(1)] rbind_Inr
    using assms(2) attr_reads(4,5) [OF assms(1)] by (auto simp: wf_link_attr_def lm_attr_lines_def)
qed

text \<open>The name does not depend on the log, to which the function adds its socket.\<close>

definition name_fds :: "(int \<Rightarrow> int \<times> bytes option) \<Rightarrow> int \<Rightarrow> fd_event list" where
  "name_fds names i = (if fst (names i) < 0 then [] else [FdOpen (fst (names i)), FdClose (fst (names i))])"

fun note_fds :: "(int \<Rightarrow> int \<times> bytes option) \<Rightarrow> link_note \<Rightarrow> fd_event list" where
  "note_fds names (LinkChanged l) = name_fds names (int (ls_index l))"
| "note_fds names (LinkGone l) = name_fds names (int (ls_index l))"
| "note_fds names (OtherLinkNote t p) = []"

lemma get_interface_name_log:
  "get_interface_name (fst (names i)) ioctl i n fds
     = (fst (get_interface_name (fst (names i)) ioctl i n []), fds @ name_fds names i)"
  by (simp add: get_interface_name_def name_fds_def Let_def)

lemma fold_append2:
  "fold (\<lambda>a s. (fst s @ f a, snd s @ g a)) as s = (fst s @ concat (map f as), snd s @ concat (map g as))"
  by (induction as arbitrary: s) auto

lemma lm_msg_link:
  assumes wf: "wf_link l" and "t \<in> {RTM_NEWLINK, RTM_DELLINK}" and buf: "buf = pre @ link_msg_of t l @ post"
  shows "lm_msg names n buf (length pre) s
    = Inr (fst s @ lm_link_lines names n (t = RTM_NEWLINK) l, snd s @ name_fds names (int (ls_index l)))"
proof -
  have "rta_for buf (lm_attr buf) (length pre + 32) (int (length (rta_records (ls_attrs l)))) out
      = Inr (fold (\<lambda>a out. out @ lm_attr_lines a) (ls_attrs l) out)" for out
    using wf by (intro link_attrs_fold [OF buf] lm_attr_step) (auto simp: wf_link_def wf_link_attr_def)
  moreover have s: "sized_link l" using wf by (simp add: wf_link_def)
  then have "get_link_state (ls_flags l) = state_of_flags (ls_flags l)"
    by (intro get_link_state_flags) (simp add: sized_link_def)
  moreover have "t < 65536" using assms(2) by auto
  note link_header [OF s this buf]
  ultimately show ?thesis using assms(2)
    by (simp add: lm_msg_def lm_link_lines_def Let_def fold_append get_interface_name_log [of names _ _ _ "snd s"]
        case_prod_beta)
qed

lemma lm_msg_note:
  assumes "wf_link_note x" "buf = pre @ link_note_msg x @ post"
  shows "lm_msg names n buf (length pre) s = Inr (fst s @ link_note_lines names n x, snd s @ note_fds names x)"
  using assms lm_msg_link [of _ _ buf pre post names n s] other_header(1) [of _ _ buf pre post]
  by (cases x) (auto simp: lm_msg_def case_prod_beta)

lemma link_note_record: "wf_link_note x \<Longrightarrow> nlmsg.wf_record (link_note_msg x)"
  by (cases x) (auto simp: wf_link_def link_msg_record other_msg_record)

lemma link_message_refines:
  assumes "\<forall>x \<in> set ns. wf_link_note x"
  shows "\<exists>M'. handle_netlink_link_message names (Some (records (map link_note_msg ns) @ tail, length (records (map link_note_msg ns)))) M = Inr M'
    \<and> view_of M' = lm_spec names (Links ns) (view_of M) \<and> lm_fds M' = lm_fds M"
proof -
  let ?buf = "records (map link_note_msg ns) @ tail" and ?e = "unat (link_events M + 1)"
  have "nlmsg_for ?buf (lm_msg names ?e ?buf) 0 (int (length (records (map link_note_msg ns)))) (shown M, fd_log M)
      = Inr (fold (\<lambda>x s. (fst s @ link_note_lines names ?e x, snd s @ note_fds names x)) ns (shown M, fd_log M))"
    using assms lm_msg_note link_note_record by (intro messages_fold [OF refl]) auto
  then show ?thesis by (simp add: handle_netlink_link_message_def Let_def view_of_def lm_fds_def fold_append2)
qed

lemma timer_refines:
  "timer_fd M \<ge> 0 \<Longrightarrow> view_of (case ti of Some e \<Rightarrow> if timer_fd M \<ge> 0 then handle_timer_event e M else M | None \<Rightarrow> M)
    = fold (lm_spec names) (case ti of Some (Some n) \<Rightarrow> [Ticks n] | _ \<Rightarrow> []) (view_of M)"
  by (auto simp: handle_timer_event_def view_of_def Let_def split: option.splits)

lemma signal_refines:
  "signal_fd M \<ge> 0 \<Longrightarrow> view_of (case si of Some s \<Rightarrow> if signal_fd M \<ge> 0 then handle_signal_event now s M else M | None \<Rightarrow> M)
    = fold (lm_spec names) (case si of Some (Some sig) \<Rightarrow> [Signalled sig] | _ \<Rightarrow> []) (view_of M)"
  by (auto simp: handle_signal_event_def view_of_def Let_def split: option.splits)

lemma netlink_refines:
  assumes "nl_means nl hs" "netlink_fd M \<ge> 0"
  shows "\<exists>M'. (case nl of Some received \<Rightarrow> if netlink_fd M \<ge> 0 then handle_netlink_link_message names received M else Inr M
      | None \<Rightarrow> Inr M) = Inr M' \<and> view_of M' = fold (lm_spec names) hs (view_of M) \<and> lm_fds M' = lm_fds M"
  using assms(1)
proof (cases rule: nl_means.cases)
  case (datagram ns tail)
  then show ?thesis using link_message_refines [OF datagram(3), of names tail M] assms(2) by simp
qed (use assms(2) in \<open>simp_all add: handle_netlink_link_message_def\<close>)

lemma fds_open_lm_fds: "lm_fds M = lm_fds N \<Longrightarrow> fds_open M = fds_open N"
  by (simp add: lm_fds_def fds_open_def)

text \<open>One round simulates the happenings it means.\<close>

lemma round_refines:
  assumes "round_means r hs" "fds_open M" "running M"
  shows "\<exists>M'. run_main_loop names now (r # rs) M = run_main_loop names now rs M'
    \<and> view_of M' = fold (lm_spec names) hs (view_of M) \<and> fds_open M'"
  using assms(1)
proof (cases rule: round_means.cases)
  case interrupted
  then show ?thesis using assms(2,3) by auto
next
  case (ready nl hl ti si)
  obtain M1 where M1: "(case nl of Some received \<Rightarrow> if netlink_fd M \<ge> 0 then handle_netlink_link_message names received M else Inr M
      | None \<Rightarrow> Inr M) = Inr M1" "view_of M1 = fold (lm_spec names) hl (view_of M)" "lm_fds M1 = lm_fds M"
    using netlink_refines [OF ready(3), of M names] assms(2) by (auto simp: fds_open_def)
  define M2 where "M2 = (case ti of Some e \<Rightarrow> if timer_fd M1 \<ge> 0 then handle_timer_event e M1 else M1 | None \<Rightarrow> M1)"
  define M3 where "M3 = (case si of Some s \<Rightarrow> if signal_fd M2 \<ge> 0 then handle_signal_event now s M2 else M2 | None \<Rightarrow> M2)"
  have o1: "fds_open M1" using fds_open_lm_fds [OF M1(3)] assms(2) by simp
  note o2 = conjunct1 [OF timer_step [OF o1 M2_def]]
  note o3 = conjunct1 [OF signal_step [OF o2 M3_def]]
  have "run_main_loop names now (r # rs) M = run_main_loop names now rs M3"
    unfolding M3_def M2_def ready(1) using assms(3) M1(1) by (simp add: Let_def)
  moreover have "view_of M3 = fold (lm_spec names) hs (view_of M)"
    using timer_refines [of M1 ti names] signal_refines [of M2 now si names] o1 o2 M1(2) ready(2)
    by (simp add: fds_open_def M2_def M3_def)
  ultimately show ?thesis using o3 by blast
qed

lemma run_refines:
  assumes "list_all2 round_means rs hss" "fds_open M"
  shows "\<exists>M'. run_main_loop names now rs M = Inr (M', \<not> running M') \<and> view_of M' = spec_run names hss (view_of M)"
  using assms
proof (induction rs hss arbitrary: M rule: list_all2_induct)
  case (Cons r rs hs hss)
  show ?case
  proof (cases "running M")
    case True
    obtain M1 where M1: "run_main_loop names now (r # rs) M = run_main_loop names now rs M1"
        "view_of M1 = fold (lm_spec names) hs (view_of M)" "fds_open M1"
      using round_refines [OF Cons.hyps(1) Cons.prems True, of names now rs] by blast
    moreover have "v_running (view_of M)" using True by (simp add: view_of_def)
    ultimately show ?thesis using Cons.IH [OF M1(3)] by (simp del: run_main_loop.simps)
  next
    case False
    then show ?thesis using run_ends [OF False] by (simp add: view_of_def)
  qed
qed simp

text \<open>
  C16: the whole program refines its specification: once its descriptors are open, for any sequence of rounds whose
  buffers hold encoded messages (changed and removed links, others among them), whatever follows them in the
  buffer, it shows each link event with the number, name, index, state and type and the address, MTU,
  queueing discipline and name found in its attributes, each tick and each signal with the counters at that
  moment, counts and resets them, and ends exactly when a round brings \<open>SIGINT\<close> or \<open>SIGTERM\<close>.
\<close>

theorem link_monitor_refines:
  assumes "fst (lm_init A (monitor_init\<lparr>start_time := now\<rparr>))" "list_all2 round_means rounds hss"
  shows "\<exists>M. lm_main names now A rounds = Inr (M, \<not> running M) \<and> view_of M = spec_run names hss spec_boot"
proof -
  obtain M0 where init: "lm_init A (monitor_init\<lparr>start_time := now\<rparr>) = (True, M0)"
    using assms(1) by (cases "lm_init A (monitor_init\<lparr>start_time := now\<rparr>)") auto
  have M0: "fds_open M0" "view_of M0 = spec_boot"
    using init by (auto simp: lm_init_defs monitor_init_def fds_open_def view_of_def spec_boot_def split: prod.splits if_splits)
  obtain M where M: "run_main_loop names now rounds M0 = Inr (M, \<not> running M)" "view_of M = spec_run names hss spec_boot"
    using run_refines [OF assms(2) M0(1), of names now] M0(2) by auto
  have c: "view_of (cleanup_resources M) = view_of M" "running (cleanup_resources M) = running M"
    by (simp_all add: cleanup_resources_def close_netlink_def close_timer_def close_signal_def lm_close_def view_of_def)
  show ?thesis using init M c by (intro exI [of _ "if running M then M else cleanup_resources M"]) (auto simp: lm_main_def)
qed

definition sample_iface :: link_spec where
  "sample_iface = \<lparr>ls_index = 2, ls_flags = 0x43, ls_iftype = 1,
     ls_attrs = [(3, [101, 116, 104, 48, 0]), (4, [220, 5, 0, 0]), (1, [2, 0, 0, 0, 0, 1])]\<rparr>"

theorem link_monitor_refines_witness:
  "\<exists>M. lm_main (\<lambda>i. (6, Some [101, 116, 104, 48])) 7 (sample_answers True)
      [Ready (Some (Some (records [link_msg_of RTM_NEWLINK sample_iface] @ replicate 4000 255, length (records [link_msg_of RTM_NEWLINK sample_iface]))))
         (Some (Some 1)) None, SelectFailed True, Ready None None (Some (Some SIGTERM))] = Inr (M, True)
    \<and> shown M = [LLink 1 True [101, 116, 104, 48] 2 LinkUp 1, LIfname [101, 116, 104, 48], LMtu 1500, LMac [2, 0, 0, 0, 0, 1],
         LTimer 1 1 1 0, LSignal 1 SIGTERM]"
proof -
  let ?ns = "[LinkChanged sample_iface]" and ?names = "\<lambda>i :: int. (6 :: int, Some [101 :: u8, 116, 104, 48])"
  have al: "align4 8 = 8" "align4 9 = 12" "align4 10 = 12" by (simp_all add: align4_def)
  have m: "get32 [220, 5, 0, 0] 0 = Inr 1500" by (simp add: get32_def)
  have "\<forall>n \<in> set ?ns. wf_link_note n"
    by (simp add: wf_link_def sample_iface_def wf_link_attr_def wf_rta_def sized_link_def rta_records_def rta_bytes_def al m)
  note r = round_means.ready [OF nl_means.datagram [OF this, of "replicate 4000 255"], of "Some (Some 1)" None]
    round_means.interrupted round_means.ready [OF nl_means.not_readable, of None "Some (Some SIGTERM)"]
  let ?rounds = "[Ready (Some (Some (records (map link_note_msg ?ns) @ replicate 4000 255, length (records (map link_note_msg ?ns))))) (Some (Some 1)) None,
    SelectFailed True, Ready None None (Some (Some SIGTERM))]" and ?hss = "[[Links ?ns, Ticks 1], [], [Signalled SIGTERM]]"
  have "list_all2 round_means ?rounds ?hss" using r by simp
  moreover have "fst (lm_init (sample_answers True) (monitor_init\<lparr>start_time := 7\<rparr>))"
    by (simp add: lm_init_defs sample_answers_def)
  ultimately obtain M where M: "lm_main ?names 7 (sample_answers True) ?rounds = Inr (M, \<not> running M)"
      "view_of M = spec_run ?names ?hss spec_boot"
    using link_monitor_refines [of "sample_answers True" 7 ?rounds ?hss ?names] by blast
  have "\<not> running M" "shown M = v_out (spec_run ?names [[Links ?ns, Ticks 1], [], [Signalled SIGTERM]] spec_boot)"
    using M(2) by (auto simp: view_of_def spec_boot_def)
  with M(1) show ?thesis
    by (intro exI [of _ M])
      (simp add: spec_boot_def lm_link_lines_def lm_attr_lines_def get_interface_name_def state_of_flags_def sample_iface_def text_of_def m)
qed

end
