(* ===== verification/Netfilter.thy ===== *)
theory Netfilter
  imports Cstrings
begin

unbundle bit_operations_syntax

text \<open>
  The netfilter examples: three kernel modules that look at packets (\<open>netfilter/test1/netfilter_ipaddr.c\<close>,
  \<open>netfilter/test2/netfilter_ipaddr2.c\<close>, \<open>netfilter/test3/nf_blockpkt.c\<close>), and the pair \<open>netfilter/test4\<close>, a
  module that queues ICMP packets and the program that gives the verdict on them.

  \<^item> A packet is the linear part of its \<open>sk_buff\<close> with the offsets of the network and transport header; a read
    outside the linear part is a fault. Integers in memory are little-endian.
  \<^item> What the modules log and the program prints are lists of \<open>nf_log\<close> values.
  \<^item> \<open>nf_register_net_hook\<close>, \<open>kmalloc\<close> and libnetfilter\_queue answer through arguments.
\<close>

section \<open>Packets and verdicts\<close>

record nf_skb =
  nf_head :: bytes
  network_header :: nat
  transport_header :: nat

abbreviation NF_DROP :: u32 where "NF_DROP \<equiv> 0"
abbreviation NF_ACCEPT :: u32 where "NF_ACCEPT \<equiv> 1"
abbreviation NF_QUEUE :: u32 where "NF_QUEUE \<equiv> 3"
abbreviation NF_VERDICT_QMASK :: u32 where "NF_VERDICT_QMASK \<equiv> 0xffff0000"
abbreviation NF_VERDICT_FLAG_QUEUE_BYPASS :: u32 where "NF_VERDICT_FLAG_QUEUE_BYPASS \<equiv> 0x00008000"

text \<open>The macro \<open>NF_QUEUE_NR\<close> on an \<open>int\<close>.\<close>

definition NF_QUEUE_NR :: "int \<Rightarrow> u32" where
  "NF_QUEUE_NR x = (push_bit 16 (of_int x) AND NF_VERDICT_QMASK) OR NF_QUEUE"

datatype nf_log =
    LogAddrs bytes bytes
  | LogPorts bytes nat bytes nat nat
  | LogBlocked nat nat
  | PrintId "32 word option"
  | PrintIcmp nat nat bytes bytes

text \<open>\<open>ntohs\<close> and \<open>ntohl\<close> of a field of the packet.\<close>

definition get_be16 :: "bytes \<Rightarrow> nat \<Rightarrow> u16 res" where
  "get_be16 buf i = rbind (get_bytes buf i 2) (\<lambda>b. Inr (be16_at b 0))"

definition get_be32 :: "bytes \<Rightarrow> nat \<Rightarrow> u32 res" where
  "get_be32 buf i = rbind (get_bytes buf i 4) (\<lambda>b. Inr (be32_at b 0))"

text \<open>\<open>iph->version\<close> and \<open>iph->ihl\<close> share the first byte; \<open>protocol\<close> is at offset 9, the addresses at 12 and 16.\<close>

definition ip_version :: "nat \<Rightarrow> nat" where
  "ip_version b = b div 16"

definition ip_ihl :: "nat \<Rightarrow> nat" where
  "ip_ihl b = b mod 16"

text \<open>The header pointers are computed from the head of the buffer, so they are never NULL.\<close>

definition ip_hdr :: "nf_skb \<Rightarrow> nat option" where
  "ip_hdr skb = Some (network_header skb)"

definition transport_hdr :: "nf_skb \<Rightarrow> nat option" where
  "transport_hdr skb = Some (transport_header skb)"

text \<open>\<open>NIPQUAD\<close>: the bytes of an integer in memory, the last first; printed with \<open>%u.%u.%u.%u\<close>.\<close>

definition mem_byte :: "u32 \<Rightarrow> nat \<Rightarrow> u8" where
  "mem_byte w k = ucast (drop_bit (8 * k) w)"

definition NIPQUAD :: "u32 \<Rightarrow> bytes" where
  "NIPQUAD addr = [mem_byte addr 3, mem_byte addr 2, mem_byte addr 1, mem_byte addr 0]"

definition print_quad :: "bytes \<Rightarrow> bytes" where
  "print_quad q = decimal (unat (q ! 0)) @ [46] @ decimal (unat (q ! 1)) @ [46]
                @ decimal (unat (q ! 2)) @ [46] @ decimal (unat (q ! 3))"

section \<open>The hooks\<close>

definition nf_ipaddr_show :: "nf_skb option \<Rightarrow> (u32 \<times> nf_log list) res" where
  "nf_ipaddr_show skb =
     (case skb of None \<Rightarrow> Inr (NF_ACCEPT, [])
      | Some skb \<Rightarrow>
      case ip_hdr skb of None \<Rightarrow> Inr (NF_ACCEPT, [])
      | Some iph \<Rightarrow>
      rbind (get8 (nf_head skb) iph) (\<lambda>b.
        if ip_version b \<noteq> 4 then Inr (NF_ACCEPT, [])
        else
          rbind (get_be32 (nf_head skb) (iph + 12)) (\<lambda>sip.
          rbind (get_be32 (nf_head skb) (iph + 16)) (\<lambda>dip.
            Inr (NF_ACCEPT, [LogAddrs (print_quad (NIPQUAD sip)) (print_quad (NIPQUAD dip))])))))"

text \<open>The two ports are at offsets 0 and 2 of both the TCP and the UDP header.\<close>

definition transport_ports :: "nf_skb \<Rightarrow> (u16 \<times> u16) res" where
  "transport_ports skb =
     (case transport_hdr skb of None \<Rightarrow> Inr (0, 0)
      | Some th \<Rightarrow>
          rbind (get_be16 (nf_head skb) th) (\<lambda>sport.
          rbind (get_be16 (nf_head skb) (th + 2)) (\<lambda>dport. Inr (sport, dport))))"

definition nf_local_out_show :: "nf_skb option \<Rightarrow> (u32 \<times> nf_log list) res" where
  "nf_local_out_show skb =
     (case skb of None \<Rightarrow> Inr (NF_ACCEPT, [])
      | Some skb \<Rightarrow>
      case ip_hdr skb of None \<Rightarrow> Inr (NF_ACCEPT, [])
      | Some iph \<Rightarrow>
      rbind (get8 (nf_head skb) iph) (\<lambda>b.
        if ip_version b \<noteq> 4 then Inr (NF_ACCEPT, [])
        else
          rbind (get_be32 (nf_head skb) (iph + 12)) (\<lambda>sip.
          rbind (get_be32 (nf_head skb) (iph + 16)) (\<lambda>dip.
          rbind (get8 (nf_head skb) (iph + 9)) (\<lambda>protocol.
          rbind (if protocol = unat IPPROTO_TCP then transport_ports skb
                 else if protocol = unat IPPROTO_UDP then transport_ports skb
                 else Inr (0, 0)) (\<lambda>(sport, dport).
            Inr (NF_ACCEPT, [LogPorts (print_quad (NIPQUAD sip)) (unat sport) (print_quad (NIPQUAD dip)) (unat dport)
              protocol])))))))"

definition nf_blockpkt_handler :: "nf_skb option \<Rightarrow> (u32 \<times> nf_log list) res" where
  "nf_blockpkt_handler skb =
     (case skb of None \<Rightarrow> Inr (NF_ACCEPT, [])
      | Some skb \<Rightarrow>
      case ip_hdr skb of None \<Rightarrow> Inr (NF_ACCEPT, [])
      | Some iph \<Rightarrow>
      rbind (get8 (nf_head skb) iph) (\<lambda>b.
        if ip_version b \<noteq> 4 then Inr (NF_ACCEPT, [])
        else
          rbind (get8 (nf_head skb) (iph + 9)) (\<lambda>protocol.
            if protocol = unat IPPROTO_ICMP then
              (case transport_hdr skb of
                 None \<Rightarrow> Inr (NF_DROP, [])
               | Some icmph \<Rightarrow>
                   rbind (get8 (nf_head skb) icmph) (\<lambda>type. rbind (get8 (nf_head skb) (icmph + 1)) (\<lambda>code.
                     Inr (NF_DROP, [LogBlocked type code]))))
            else Inr (NF_ACCEPT, []))))"

definition nf_queue_pkt :: "int \<Rightarrow> nf_skb option \<Rightarrow> (u32 \<times> nf_log list) res" where
  "nf_queue_pkt queue_num skb =
     (case skb of None \<Rightarrow> Inr (NF_ACCEPT, [])
      | Some skb \<Rightarrow>
      case ip_hdr skb of None \<Rightarrow> Inr (NF_ACCEPT, [])
      | Some iph \<Rightarrow>
      rbind (get8 (nf_head skb) iph) (\<lambda>b.
        if ip_version b \<noteq> 4 then Inr (NF_ACCEPT, [])
        else
          rbind (get8 (nf_head skb) (iph + 9)) (\<lambda>protocol.
            if protocol = unat IPPROTO_ICMP then Inr (NF_QUEUE_NR queue_num, []) else Inr (NF_ACCEPT, []))))"

section \<open>Loading and unloading\<close>

datatype hook_point = NF_INET_PRE_ROUTING | NF_INET_LOCAL_IN | NF_INET_LOCAL_OUT

datatype hook_fn = HookIpaddr | HookLocalOut | HookBlock | HookQueue

abbreviation NFPROTO_IPV4 :: nat where "NFPROTO_IPV4 \<equiv> 2"

record nf_hook_ops =
  hook :: hook_fn
  pf :: nat
  hooknum :: hook_point
  priority :: int

text \<open>The hooks of the namespace, and the blocks of memory the modules hold.\<close>

record nf_world =
  hooks :: "nf_hook_ops list"
  blocks :: nat

abbreviation NF_IP_PRI_FIRST :: int where "NF_IP_PRI_FIRST \<equiv> - 2147483648"
abbreviation NF_IP_PRI_FILTER :: int where "NF_IP_PRI_FILTER \<equiv> 0"

text \<open>\<open>reg\<close> is what \<open>nf_register_net_hook\<close> returns; when it is 0 the hook is in place.\<close>

definition nf_register_net_hook :: "int \<Rightarrow> nf_hook_ops \<Rightarrow> nf_world \<Rightarrow> int \<times> nf_world" where
  "nf_register_net_hook reg ops w = (reg, if reg = 0 then w\<lparr>hooks := ops # hooks w\<rparr> else w)"

definition nf_unregister_net_hook :: "nf_hook_ops \<Rightarrow> nf_world \<Rightarrow> nf_world" where
  "nf_unregister_net_hook ops w = w\<lparr>hooks := remove1 ops (hooks w)\<rparr>"

definition nf_ipaddr_show_ops :: nf_hook_ops where
  "nf_ipaddr_show_ops = \<lparr>hook = HookIpaddr, pf = NFPROTO_IPV4, hooknum = NF_INET_PRE_ROUTING, priority = NF_IP_PRI_FIRST\<rparr>"

definition nf_ipaddr_show_init :: "int \<Rightarrow> nf_world \<Rightarrow> int \<times> nf_world" where
  "nf_ipaddr_show_init reg w =
     (case nf_register_net_hook reg nf_ipaddr_show_ops w of (ret, w) \<Rightarrow>
        if ret \<noteq> 0 then (ret, w) else (0, w))"

definition nf_ipaddr_show_exit :: "nf_world \<Rightarrow> nf_world" where
  "nf_ipaddr_show_exit w = nf_unregister_net_hook nf_ipaddr_show_ops w"

definition nf_local_out_ops :: nf_hook_ops where
  "nf_local_out_ops = \<lparr>hook = HookLocalOut, pf = NFPROTO_IPV4, hooknum = NF_INET_LOCAL_OUT, priority = NF_IP_PRI_FILTER + 2\<rparr>"

definition nf_local_out_init :: "int \<Rightarrow> nf_world \<Rightarrow> int \<times> nf_world" where
  "nf_local_out_init reg w =
     (case nf_register_net_hook reg nf_local_out_ops w of (ret, w) \<Rightarrow>
        if ret \<noteq> 0 then (ret, w) else (0, w))"

definition nf_local_out_exit :: "nf_world \<Rightarrow> nf_world" where
  "nf_local_out_exit w = nf_unregister_net_hook nf_local_out_ops w"

text \<open>In \<open>nf_blockpkt.c\<close> the structure is allocated, and the pointer to it is a global.\<close>

definition blockpkt_fields :: nf_hook_ops where
  "blockpkt_fields = \<lparr>hook = HookBlock, pf = NFPROTO_IPV4, hooknum = NF_INET_PRE_ROUTING, priority = NF_IP_PRI_FIRST\<rparr>"

definition nf_blockpkt_init :: "bool \<Rightarrow> int \<Rightarrow> nf_world \<Rightarrow> int \<times> nf_hook_ops option \<times> nf_world" where
  "nf_blockpkt_init kmalloc reg w =
     (if \<not> kmalloc then (- ENOMEM, None, w)
      else
        let w = w\<lparr>blocks := blocks w + 1\<rparr>; ops = blockpkt_fields in
        case nf_register_net_hook reg ops w of (ret, w) \<Rightarrow>
          if ret \<noteq> 0 then (ret, None, w\<lparr>blocks := blocks w - 1\<rparr>) else (0, Some ops, w))"

definition nf_blockpkt_exit :: "nf_hook_ops option \<Rightarrow> nf_world \<Rightarrow> nf_hook_ops option \<times> nf_world" where
  "nf_blockpkt_exit nf_blockpkt_ops w =
     (case nf_blockpkt_ops of
        None \<Rightarrow> (None, w)
      | Some ops \<Rightarrow>
          let w = nf_unregister_net_hook ops w; w = w\<lparr>blocks := blocks w - 1\<rparr> in (None, w))"

definition nf_queue_pkt_ops :: nf_hook_ops where
  "nf_queue_pkt_ops = \<lparr>hook = HookQueue, pf = NFPROTO_IPV4, hooknum = NF_INET_LOCAL_IN, priority = NF_IP_PRI_FIRST\<rparr>"

definition my_nfqueue_init :: "int \<Rightarrow> nf_world \<Rightarrow> int \<times> nf_world" where
  "my_nfqueue_init reg w =
     (case nf_register_net_hook reg nf_queue_pkt_ops w of (ret, w) \<Rightarrow>
        if ret \<noteq> 0 then (ret, w) else (0, w))"

definition my_nfqueue_exit :: "nf_world \<Rightarrow> nf_world" where
  "my_nfqueue_exit w = nf_unregister_net_hook nf_queue_pkt_ops w"

section \<open>nfqueue\_userspace.c\<close>

text \<open>
  What libnetfilter\_queue hands to the callback: the four bytes of the packet id, if there is a packet
  header, and the payload, if it could be had.
\<close>

record nfq_data =
  packet_id :: "bytes option"
  payload :: "bytes option"

text \<open>
  The strings in memory by their address, that of the static buffer of \<open>inet_ntoa\<close>, what is printed and the
  verdicts given.
\<close>

record nfq_state =
  strings :: "nat \<Rightarrow> bytes"
  ntoa_buf :: nat
  printed :: "nf_log list"
  verdicts :: "(u32 \<times> u32) list"

text \<open>\<open>inet_ntoa\<close> writes the text into its static buffer and returns a pointer to it.\<close>

definition inet_ntoa :: "bytes \<Rightarrow> nfq_state \<Rightarrow> nat \<times> nfq_state" where
  "inet_ntoa a S = (ntoa_buf S, S\<lparr>strings := (strings S)(ntoa_buf S := inet_ntop a)\<rparr>)"

definition nfq_set_verdict :: "u32 \<Rightarrow> u32 \<Rightarrow> nfq_state \<Rightarrow> nfq_state" where
  "nfq_set_verdict qid verdict S = S\<lparr>verdicts := verdicts S @ [(qid, verdict)]\<rparr>"

text \<open>The two \<open>%s\<close> of the line are read through the pointers \<open>printf\<close> is given.\<close>

definition printf_icmp :: "nat \<Rightarrow> nat \<Rightarrow> nat \<Rightarrow> nat \<Rightarrow> nfq_state \<Rightarrow> nfq_state" where
  "printf_icmp type code p1 p2 S = S\<lparr>printed := printed S @ [PrintIcmp type code (strings S p1) (strings S p2)]\<rparr>"

text \<open>The two calls of \<open>inet_ntoa\<close> are arguments of one \<open>printf\<close>: C leaves their order open (\<open>src_first\<close>).\<close>

definition print_addrs :: "bool \<Rightarrow> nat \<Rightarrow> nat \<Rightarrow> bytes \<Rightarrow> bytes \<Rightarrow> nfq_state \<Rightarrow> nfq_state" where
  "print_addrs src_first type code src dst S =
     (if src_first then
        let (p1, S) = inet_ntoa src S; (p2, S) = inet_ntoa dst S in printf_icmp type code p1 p2 S
      else
        let (p2, S) = inet_ntoa dst S; (p1, S) = inet_ntoa src S in printf_icmp type code p1 p2 S)"

definition packet_cb :: "bool \<Rightarrow> nfq_data \<Rightarrow> nfq_state \<Rightarrow> nfq_state res" where
  "packet_cb src_first nfad S =
     (let (qid, S) = (case packet_id nfad of
            Some b \<Rightarrow> (be32_at b 0, S\<lparr>printed := printed S @ [PrintId (Some (be32_at b 0))]\<rparr>)
          | None \<Rightarrow> (- 1, S\<lparr>printed := printed S @ [PrintId None]\<rparr>)) in
      case payload nfad of
        None \<Rightarrow> Inr (nfq_set_verdict qid NF_ACCEPT S)
      | Some p \<Rightarrow>
          rbind (get8 p 9) (\<lambda>protocol.
            if protocol = unat IPPROTO_ICMP then
              rbind (get8 p 0) (\<lambda>b. let icmph = ip_ihl b * 4 in
              rbind (get_bytes p 12 4) (\<lambda>src. rbind (get_bytes p 16 4) (\<lambda>dst.
              rbind (get8 p icmph) (\<lambda>type. rbind (get8 p (icmph + 1)) (\<lambda>code.
                Inr (nfq_set_verdict qid NF_ACCEPT (print_addrs src_first type code src dst S)))))))
            else Inr (nfq_set_verdict qid NF_ACCEPT S)))"

text \<open>
  The main loop. \<open>handle\<close> is \<open>nfq_handle_packet\<close>: the packets in what was received, for each of which it calls
  the callback. \<open>recv\<close> copies at most the 4096 bytes of \<open>buf\<close>; the rest of a longer message is lost.

  \<open>signal\<close> installs the handler so that an interrupted \<open>recv\<close> is restarted. \<open>NfqSignal\<close> is a signal that arrives
  after the test of \<open>running\<close> and before \<open>recv\<close> returns, \<open>NfqRecv\<close> the return of \<open>recv\<close> (\<open>None\<close>: a negative result)
  with the signals that arrive from there to the next test. The result says whether the loop has ended.
\<close>

datatype nfq_event = NfqSignal nat | NfqRecv "bytes option" "nat list"

fun nfq_callbacks :: "bool \<Rightarrow> nfq_data list \<Rightarrow> nfq_state \<Rightarrow> nfq_state res" where
  "nfq_callbacks src_first [] S = Inr S"
| "nfq_callbacks src_first (d # ds) S = rbind (packet_cb src_first d S) (nfq_callbacks src_first ds)"

definition nfq_signal_handler :: "nat \<Rightarrow> bool \<Rightarrow> bool" where
  "nfq_signal_handler sig running = (if sig = 2 \<or> sig = 15 then False else running)"

fun nfq_loop :: "bool \<Rightarrow> (bytes \<Rightarrow> nfq_data list) \<Rightarrow> nfq_event list \<Rightarrow> bool \<Rightarrow> nfq_state \<Rightarrow> (nfq_state \<times> bool) res"
  and nfq_recv :: "bool \<Rightarrow> (bytes \<Rightarrow> nfq_data list) \<Rightarrow> nfq_event list \<Rightarrow> bool \<Rightarrow> nfq_state \<Rightarrow> (nfq_state \<times> bool) res" where
  "nfq_loop src_first handle es running S =
     (if running then nfq_recv src_first handle es running S else Inr (S, True))"
| "nfq_recv src_first handle [] running S = Inr (S, False)"
| "nfq_recv src_first handle (NfqSignal sig # es) running S =
     nfq_recv src_first handle es (nfq_signal_handler sig running) S"
| "nfq_recv src_first handle (NfqRecv None sigs # es) running S = Inr (S, True)"
| "nfq_recv src_first handle (NfqRecv (Some msg) sigs # es) running S =
     rbind (nfq_callbacks src_first (handle (take 4096 msg)) S) (\<lambda>S.
       nfq_loop src_first handle es (fold nfq_signal_handler sigs running) S)"

record nfq_answers =
  q_open :: bool
  q_bind_pf :: bool
  q_create_queue :: bool
  q_set_mode :: bool

text \<open>
  The exit code (1 is \<open>EXIT_FAILURE\<close>, \<open>None\<close>: still running), and whether queue and handle were released.
  A failing \<open>nfq_unbind_pf\<close> only prints a warning. \<open>early\<close> are the signals that arrive between the installation of
  the handler and the first test of \<open>running\<close>.
\<close>

definition nfq_main ::
  "bool \<Rightarrow> (bytes \<Rightarrow> nfq_data list) \<Rightarrow> nfq_answers \<Rightarrow> nat list \<Rightarrow> nfq_event list \<Rightarrow> nfq_state \<Rightarrow> (int option \<times> bool \<times> nfq_state) res" where
  "nfq_main src_first handle A early events S =
     (if \<not> q_open A then Inr (Some 1, False, S)
      else if \<not> q_bind_pf A then Inr (Some 1, False, S)
      else if \<not> q_create_queue A then Inr (Some 1, False, S)
      else if \<not> q_set_mode A then Inr (Some 1, False, S)
      else rbind (nfq_loop src_first handle events (fold nfq_signal_handler early True) S) (\<lambda>(S, ended).
        if ended then Inr (Some 0, True, S) else Inr (None, False, S)))"

end
