(* ===== verification/Netfilter_Props.thy ===== *)
theory Netfilter_Props
  imports Netfilter
begin

unbundle bit_operations_syntax

text \<open>
  Properties of the netfilter examples: the verdict of every hook, what the two showing hooks log, that loading
  and unloading the modules in any order keeps exactly the right hooks registered, and what the program
  behind the queue does with its packets. The locale \<open>hook_module\<close> is the contract of a module's two entry points.
\<close>

section \<open>Words and bytes\<close>

lemma unat_mem_byte: "unat (mem_byte w k) = unat w div 256 ^ k mod 256"
proof -
  have "(2::nat) ^ (8 * k) = 256 ^ k" by (simp add: power_mult)
  moreover have "unat w mod 4294967296 = unat w" using unsigned_less [of w, where ?'a = nat] by simp
  ultimately show ?thesis
    unfolding mem_byte_def unsigned_ucast_eq unsigned_drop_bit_eq
    by (simp add: take_bit_eq_mod drop_bit_eq_div)
qed

lemma split_byte: "n = 256 * a + x \<Longrightarrow> x < 256 \<Longrightarrow> n div 256 = a \<and> n mod 256 = x" for n :: nat
  by simp

lemma NIPQUAD_be32:
  assumes "length b = 4"
  shows "NIPQUAD (be32_at b 0) = b"
proof -
  obtain b0 b1 b2 b3 where b: "b = [b0, b1, b2, b3]"
    using assms by (auto simp: numeral_eq_Suc length_Suc_conv)
  define x0 x1 x2 x3 where x: "x0 = unat b0" "x1 = unat b1" "x2 = unat b2" "x3 = unat b3"
  have u: "x0 < 256" "x1 < 256" "x2 < 256" "x3 < 256" unfolding x by (rule unat_byte_less)+
  define n where "n = 16777216 * x0 + 65536 * x1 + 256 * x2 + x3"
  have "n < 4294967296" using u unfolding n_def by linarith
  then have v: "unat (of_nat n :: u32) = n" by (simp add: unat_of_nat)
  have w: "be32_at [b0, b1, b2, b3] 0 = of_nat n" by (simp add: be32_at_def n_def x nth_Cons')
  have q1: "n div 256 = 65536 * x0 + 256 * x1 + x2 \<and> n mod 256 = x3" using u by (intro split_byte) (simp_all add: n_def)
  have q2: "n div 65536 = 256 * x0 + x1 \<and> n div 256 mod 256 = x2"
    using div_mult2_eq [of n 256 256] u q1 split_byte [of "n div 256" "256 * x0 + x1" x2] by simp
  have q3: "n div 16777216 = x0 \<and> n div 65536 mod 256 = x1"
    using div_mult2_eq [of n 65536 256] u q2 split_byte [of "n div 65536" x0 x1] by simp
  have "unat (mem_byte (of_nat n) 3) = x0" "unat (mem_byte (of_nat n) 2) = x1" "unat (mem_byte (of_nat n) 1) = x2"
      "unat (mem_byte (of_nat n) 0) = x3"
    using u q1 q2 q3 by (simp_all add: unat_mem_byte v)
  then show ?thesis unfolding NIPQUAD_def b w x by (simp add: word_unat_eq_iff)
qed

lemma verdict_words: "(0xffff0000 :: u32) = push_bit 16 (mask 16)" "(3 :: u32) = mask 2" "(0xffff :: u32) = mask 16"
   by (simp_all add: mask_numeral)

lemma verdict_kind: "NF_QUEUE_NR q AND 0xffff = NF_QUEUE"
  unfolding NF_QUEUE_NR_def verdict_words by (rule bit_eqI) (auto simp: bit_simps)

lemma verdict_queue: "drop_bit 16 (NF_QUEUE_NR q) = (of_int (q mod 65536) :: u32)"
proof -
  have "drop_bit 16 (NF_QUEUE_NR q) = take_bit 16 (of_int q :: u32)"
    unfolding NF_QUEUE_NR_def verdict_words by (rule bit_eqI) (auto simp: bit_simps)
  also have "\<dots> = of_int (take_bit 16 q)" by (rule bit_eqI) (auto simp: bit_simps)
  also have "take_bit 16 q = q mod 65536" by (simp add: take_bit_eq_mod)
  finally show ?thesis .
qed

lemma verdict_no_bypass: "NF_QUEUE_NR q AND NF_VERDICT_FLAG_QUEUE_BYPASS = 0"
proof -
  have "NF_QUEUE_NR q AND NF_VERDICT_FLAG_QUEUE_BYPASS = (NF_QUEUE_NR q AND 0xffff) AND NF_VERDICT_FLAG_QUEUE_BYPASS"
    by (simp add: and.assoc)
  then show ?thesis by (simp add: verdict_kind)
qed

section \<open>Verdicts\<close>

text \<open>The IP header, and four bytes of the next, are in the linear part.\<close>

definition headers_linear :: "nf_skb \<Rightarrow> bool" where
  "headers_linear skb \<longleftrightarrow> network_header skb + 20 \<le> length (nf_head skb) \<and> transport_header skb + 4 \<le> length (nf_head skb)"

definition skb_version :: "nf_skb \<Rightarrow> nat" where
  "skb_version skb = unat (nf_head skb ! network_header skb) div 16"

definition skb_protocol :: "nf_skb \<Rightarrow> u8" where
  "skb_protocol skb = nf_head skb ! (network_header skb + 9)"

definition is_icmp4 :: "nf_skb \<Rightarrow> bool" where
  "is_icmp4 skb \<longleftrightarrow> skb_version skb = 4 \<and> skb_protocol skb = IPPROTO_ICMP"

lemma get8_in: "i < length buf \<Longrightarrow> get8 buf i = Inr (unat (buf ! i))"
  by (simp add: get8_def)

lemma get_be_in:
  "i + 2 \<le> length buf \<Longrightarrow> get_be16 buf i = Inr (be16_at (slice buf i 2) 0)"
  "i + 4 \<le> length buf \<Longrightarrow> get_be32 buf i = Inr (be32_at (slice buf i 4) 0)"
  by (simp_all add: get_be16_def get_be32_def get_bytes_def)

lemma unat_eq_byte: "unat (x :: u8) = unat y \<longleftrightarrow> x = y"
  by (rule word_unat_eq_iff [symmetric])

lemma unat_icmp: "unat (x :: u8) = Suc 0 \<longleftrightarrow> x = 1"
  using unat_eq_byte [of x 1] by simp

lemmas nf_reads = get8_in get_be_in ip_hdr_def transport_hdr_def transport_ports_def ip_version_def

text \<open>The queue verdict, decoded the way the kernel decodes it.\<close>

lemma queue_verdict:
  "NF_QUEUE_NR q AND 0xff = NF_QUEUE \<and> drop_bit 16 (NF_QUEUE_NR q) = of_int (q mod 65536)
    \<and> (int (unat (drop_bit 16 (NF_QUEUE_NR q))) = q \<longleftrightarrow> 0 \<le> q \<and> q < 65536)
    \<and> NF_QUEUE_NR q AND NF_VERDICT_FLAG_QUEUE_BYPASS = 0"
proof -
  have "NF_QUEUE_NR q AND 0xff = (NF_QUEUE_NR q AND 0xffff) AND 0xff" by (simp add: and.assoc)
  then have "NF_QUEUE_NR q AND 0xff = NF_QUEUE" by (simp add: verdict_kind)
  moreover have "q mod 65536 < 65536" "0 \<le> q mod 65536" by simp_all
  then have "int (unat (of_int (q mod 65536) :: u32)) = q mod 65536" by (simp add: uint_word_of_int)
  then have "int (unat (drop_bit 16 (NF_QUEUE_NR q))) = q \<longleftrightarrow> 0 \<le> q \<and> q < 65536"
    unfolding verdict_queue by auto
  ultimately show ?thesis using verdict_queue verdict_no_bypass by blast
qed

lemma nf_queue_pkt_linear:
  assumes "headers_linear skb"
  shows "nf_queue_pkt q (Some skb) = Inr (if is_icmp4 skb then NF_QUEUE_NR q else NF_ACCEPT, [])"
  using assms by (auto simp: nf_queue_pkt_def nf_reads is_icmp4_def skb_version_def skb_protocol_def unat_icmp headers_linear_def)

text \<open>
  C19: for every packet whose headers are in the linear part, the two showing hooks accept; the blocking hook
  drops exactly the IPv4 packets with ICMP and accepts the rest; the queueing hook queues exactly those and
  accepts the rest. Its queue verdict names the queue \<open>queue_num\<close> modulo 65536, so the queue meant exactly when the
  parameter is in range, and never carries the bypass flag that the comment beside it mentions. Without a
  packet every hook accepts.
\<close>

theorem nf_hook_verdicts:
  assumes "headers_linear skb"
  shows "map_sum id fst (nf_ipaddr_show (Some skb)) = Inr NF_ACCEPT
    \<and> map_sum id fst (nf_local_out_show (Some skb)) = Inr NF_ACCEPT
    \<and> map_sum id fst (nf_blockpkt_handler (Some skb)) = Inr (if is_icmp4 skb then NF_DROP else NF_ACCEPT)
    \<and> (\<exists>v. nf_queue_pkt q (Some skb) = Inr (v, []) \<and> (\<not> is_icmp4 skb \<longrightarrow> v = NF_ACCEPT)
        \<and> (is_icmp4 skb \<longrightarrow> v AND 0xff = NF_QUEUE \<and> drop_bit 16 v = of_int (q mod 65536)
            \<and> (int (unat (drop_bit 16 v)) = q \<longleftrightarrow> 0 \<le> q \<and> q < 65536) \<and> v AND NF_VERDICT_FLAG_QUEUE_BYPASS = 0))
    \<and> nf_ipaddr_show None = Inr (NF_ACCEPT, []) \<and> nf_local_out_show None = Inr (NF_ACCEPT, [])
    \<and> nf_blockpkt_handler None = Inr (NF_ACCEPT, []) \<and> nf_queue_pkt q None = Inr (NF_ACCEPT, [])"
proof -
  have l: "network_header skb + 20 \<le> length (nf_head skb)" "transport_header skb + 4 \<le> length (nf_head skb)"
    using assms by (auto simp: headers_linear_def)
  have "\<exists>v. nf_queue_pkt q (Some skb) = Inr (v, []) \<and> (\<not> is_icmp4 skb \<longrightarrow> v = NF_ACCEPT)
        \<and> (is_icmp4 skb \<longrightarrow> v AND 0xff = NF_QUEUE \<and> drop_bit 16 v = of_int (q mod 65536)
            \<and> (int (unat (drop_bit 16 v)) = q \<longleftrightarrow> 0 \<le> q \<and> q < 65536) \<and> v AND NF_VERDICT_FLAG_QUEUE_BYPASS = 0)"
    unfolding nf_queue_pkt_linear [OF assms] using queue_verdict [of q]
    by (cases "is_icmp4 skb"; simp only: if_True if_False; blast)
  moreover have "map_sum id fst (nf_ipaddr_show (Some skb)) = Inr NF_ACCEPT"
      "map_sum id fst (nf_local_out_show (Some skb)) = Inr NF_ACCEPT"
      "map_sum id fst (nf_blockpkt_handler (Some skb)) = Inr (if is_icmp4 skb then NF_DROP else NF_ACCEPT)"
    using l by (auto simp: nf_ipaddr_show_def nf_local_out_show_def nf_blockpkt_handler_def nf_reads
        is_icmp4_def skb_version_def skb_protocol_def unat_icmp)
  ultimately show ?thesis
    by (simp add: nf_ipaddr_show_def nf_local_out_show_def nf_blockpkt_handler_def nf_queue_pkt_def)
qed

definition sample_packet :: "u8 \<Rightarrow> nf_skb" where
  "sample_packet proto = \<lparr>nf_head = [0x45, 0, 0, 28, 0, 0, 0, 0, 64, proto, 0, 0, 10, 0, 0, 2, 10, 0, 0, 1, 8, 0, 0, 80],
     network_header = 0, transport_header = 20\<rparr>"

theorem nf_hook_verdicts_witness:
  "map_sum id fst (nf_blockpkt_handler (Some (sample_packet 1))) = Inr NF_DROP
   \<and> map_sum id fst (nf_blockpkt_handler (Some (sample_packet 6))) = Inr NF_ACCEPT
   \<and> (\<exists>v. nf_queue_pkt 65538 (Some (sample_packet 1)) = Inr (v, []) \<and> drop_bit 16 v = 2)"
proof -
  have "headers_linear (sample_packet p)" for p by (simp add: headers_linear_def sample_packet_def)
  moreover have "is_icmp4 (sample_packet 1)" "\<not> is_icmp4 (sample_packet 6)"
    by (simp_all add: is_icmp4_def skb_version_def skb_protocol_def sample_packet_def)
  ultimately show ?thesis
    using nf_hook_verdicts [of "sample_packet 1" 65538] nf_hook_verdicts [of "sample_packet 6" 65538] by auto
qed

section \<open>What the hooks show\<close>

lemma print_quad_inet_ntop: "print_quad q = inet_ntop q"
  by (simp add: print_quad_def inet_ntop_def)

text \<open>
  C20: on an IPv4 packet the showing hooks print the source and destination address exactly as \<open>inet_ntop\<close>
  would, through \<open>ntohl\<close> and \<open>NIPQUAD\<close> on a little-endian machine; the second prints the ports of TCP and UDP
  packets and 0 for others. On other packets they print nothing.
\<close>

theorem nf_show_equiv_inet_ntop:
  assumes "headers_linear skb" "n = network_header skb" "t = transport_header skb" "h = nf_head skb"
  shows "nf_ipaddr_show (Some skb) = Inr (NF_ACCEPT,
      if skb_version skb = 4 then [LogAddrs (inet_ntop (slice h (n + 12) 4)) (inet_ntop (slice h (n + 16) 4))] else [])
    \<and> nf_local_out_show (Some skb) = Inr (NF_ACCEPT,
      if skb_version skb = 4 then
        let ports = skb_protocol skb \<in> {IPPROTO_TCP, IPPROTO_UDP} in
        [LogPorts (inet_ntop (slice h (n + 12) 4)) (if ports then unat (be16_at (slice h t 2) 0) else 0)
           (inet_ntop (slice h (n + 16) 4)) (if ports then unat (be16_at (slice h (t + 2) 2) 0) else 0)
           (unat (skb_protocol skb))]
      else [])"
proof -
  have l: "n + 20 \<le> length h" "t + 4 \<le> length h" using assms by (auto simp: headers_linear_def)
  have q: "print_quad (NIPQUAD (be32_at (slice h i 4) 0)) = inet_ntop (slice h i 4)" if "i + 4 \<le> length h" for i
    using that by (simp add: NIPQUAD_be32 print_quad_inet_ntop)
  have p: "unat (skb_protocol skb) = 6 \<longleftrightarrow> skb_protocol skb = 6" "unat (skb_protocol skb) = 17 \<longleftrightarrow> skb_protocol skb = 17"
    using unat_eq_byte [of "skb_protocol skb" 6] unat_eq_byte [of "skb_protocol skb" 17] by simp_all
  note r = assms(2-4) [symmetric] skb_version_def skb_protocol_def
  show ?thesis using l p
    by (auto simp: nf_ipaddr_show_def nf_local_out_show_def nf_reads Let_def q r)
qed

theorem nf_show_equiv_inet_ntop_witness:
  "nf_ipaddr_show (Some (sample_packet 6)) = Inr (NF_ACCEPT, [LogAddrs (inet_ntop [10, 0, 0, 2]) (inet_ntop [10, 0, 0, 1])])"
proof -
  have "headers_linear (sample_packet 6)" by (simp add: headers_linear_def sample_packet_def)
  from nf_show_equiv_inet_ntop [OF this refl refl refl] show ?thesis
    by (simp add: skb_version_def sample_packet_def slice_def)
qed

section \<open>Loading and unloading\<close>

text \<open>
  The system with all four modules: which are loaded, the global pointer of \<open>nf_blockpkt.c\<close>, and the kernel.
  \<open>insmod\<close> runs a module's init function when the module is not loaded and keeps it only if that
  returns 0; \<open>rmmod\<close> runs its exit function.
\<close>

record nf_system =
  loaded :: "hook_fn set"
  nf_blockpkt_ops :: "nf_hook_ops option"
  world :: nf_world

definition ops_of :: "hook_fn \<Rightarrow> nf_hook_ops" where
  "ops_of m = (case m of HookIpaddr \<Rightarrow> nf_ipaddr_show_ops | HookLocalOut \<Rightarrow> nf_local_out_ops
     | HookBlock \<Rightarrow> blockpkt_fields | HookQueue \<Rightarrow> nf_queue_pkt_ops)"

definition lift_init :: "(nf_world \<Rightarrow> int \<times> nf_world) \<Rightarrow> nf_system \<Rightarrow> int \<times> nf_system" where
  "lift_init f s = (case f (world s) of (ret, w) \<Rightarrow> (ret, s\<lparr>world := w\<rparr>))"

definition module_init :: "hook_fn \<Rightarrow> bool \<Rightarrow> int \<Rightarrow> nf_system \<Rightarrow> int \<times> nf_system" where
  "module_init m kmalloc reg s = (case m of
     HookIpaddr \<Rightarrow> lift_init (nf_ipaddr_show_init reg) s
   | HookLocalOut \<Rightarrow> lift_init (nf_local_out_init reg) s
   | HookBlock \<Rightarrow> (case nf_blockpkt_init kmalloc reg (world s) of (ret, ops, w) \<Rightarrow>
       (ret, s\<lparr>nf_blockpkt_ops := ops, world := w\<rparr>))
   | HookQueue \<Rightarrow> lift_init (my_nfqueue_init reg) s)"

definition module_exit :: "hook_fn \<Rightarrow> nf_system \<Rightarrow> nf_system" where
  "module_exit m s = (case m of
     HookIpaddr \<Rightarrow> s\<lparr>world := nf_ipaddr_show_exit (world s)\<rparr>
   | HookLocalOut \<Rightarrow> s\<lparr>world := nf_local_out_exit (world s)\<rparr>
   | HookBlock \<Rightarrow> (case nf_blockpkt_exit (nf_blockpkt_ops s) (world s) of (ops, w) \<Rightarrow>
       s\<lparr>nf_blockpkt_ops := ops, world := w\<rparr>)
   | HookQueue \<Rightarrow> s\<lparr>world := my_nfqueue_exit (world s)\<rparr>)"

inductive nf_step :: "nf_system \<Rightarrow> nf_system \<Rightarrow> bool" where
  insmod_ok: "m \<notin> loaded s \<Longrightarrow> module_init m kmalloc reg s = (0, s') \<Longrightarrow> nf_step s (s'\<lparr>loaded := insert m (loaded s)\<rparr>)"
| insmod_fails: "m \<notin> loaded s \<Longrightarrow> module_init m kmalloc reg s = (ret, s') \<Longrightarrow> ret \<noteq> 0 \<Longrightarrow> nf_step s s'"
| rmmod: "m \<in> loaded s \<Longrightarrow> nf_step s ((module_exit m s)\<lparr>loaded := loaded s - {m}\<rparr>)"

definition nf_boot :: nf_system where
  "nf_boot = \<lparr>loaded = {}, nf_blockpkt_ops = None, world = \<lparr>hooks = [], blocks = 0\<rparr>\<rparr>"

text \<open>
  The contract of a module: \<open>mem\<close> says whether it holds memory while loaded. A failing init leaves no trace, a
  successful one adds the hook in front and takes the memory, and the exit function undoes that.
\<close>

definition take_mem :: "bool \<Rightarrow> nf_hook_ops \<Rightarrow> nf_system \<Rightarrow> nf_system" where
  "take_mem mem ops s = (if mem then s\<lparr>nf_blockpkt_ops := Some ops, world := (world s)\<lparr>blocks := blocks (world s) + 1\<rparr>\<rparr> else s)"

definition give_mem :: "bool \<Rightarrow> nf_system \<Rightarrow> nf_system" where
  "give_mem mem s = (if mem then s\<lparr>nf_blockpkt_ops := None, world := (world s)\<lparr>blocks := blocks (world s) - 1\<rparr>\<rparr> else s)"

definition set_hooks :: "nf_hook_ops list \<Rightarrow> nf_system \<Rightarrow> nf_system" where
  "set_hooks hs s = s\<lparr>world := (world s)\<lparr>hooks := hs\<rparr>\<rparr>"

locale hook_module =
  fixes init :: "bool \<Rightarrow> int \<Rightarrow> nf_system \<Rightarrow> int \<times> nf_system"
    and exit :: "nf_system \<Rightarrow> nf_system"
    and ops :: nf_hook_ops
    and mem :: bool
  assumes init_fails: "init k reg s = (ret, s') \<Longrightarrow> ret \<noteq> 0 \<Longrightarrow> (mem \<Longrightarrow> nf_blockpkt_ops s = None) \<Longrightarrow> s' = s"
    and init_ok: "init k reg s = (0, s') \<Longrightarrow> s' = set_hooks (ops # hooks (world s)) (take_mem mem ops s)"
    and exit_undoes: "(mem \<Longrightarrow> nf_blockpkt_ops s = Some ops) \<Longrightarrow>
      exit s = set_hooks (remove1 ops (hooks (world s))) (give_mem mem s)"
begin

definition ready :: "nf_system \<Rightarrow> bool" where
  "ready s \<longleftrightarrow> (mem \<longrightarrow> nf_blockpkt_ops s = None)"

text \<open>Loading a module and unloading it again is the identity.\<close>

lemma load_unload: "ready s \<Longrightarrow> init k reg s = (0, s') \<Longrightarrow> exit s' = s"
  using init_ok [of k reg s s'] exit_undoes [of s']
  by (cases s; cases "world s") (auto simp: ready_def set_hooks_def take_mem_def give_mem_def)

lemma exit_hooks: "(mem \<Longrightarrow> nf_blockpkt_ops s = Some ops) \<Longrightarrow> hooks (world (exit s)) = remove1 ops (hooks (world s))"
  using exit_undoes [of s] by (simp add: set_hooks_def)

lemma init_hooks: "init k reg s = (0, s') \<Longrightarrow> hooks (world s') = ops # hooks (world s)"
  using init_ok [of k reg s s'] by (simp add: set_hooks_def)

end

lemmas plain_module_defs = module_init_def module_exit_def lift_init_def nf_register_net_hook_def nf_unregister_net_hook_def
  nf_ipaddr_show_init_def nf_ipaddr_show_exit_def nf_local_out_init_def nf_local_out_exit_def my_nfqueue_init_def
  my_nfqueue_exit_def set_hooks_def take_mem_def give_mem_def

interpretation ipaddr: hook_module "module_init HookIpaddr" "module_exit HookIpaddr" nf_ipaddr_show_ops False
  by unfold_locales (auto simp: plain_module_defs split: if_splits)

interpretation local_out: hook_module "module_init HookLocalOut" "module_exit HookLocalOut" nf_local_out_ops False
  by unfold_locales (auto simp: plain_module_defs split: if_splits)

interpretation queue: hook_module "module_init HookQueue" "module_exit HookQueue" nf_queue_pkt_ops False
  by unfold_locales (auto simp: plain_module_defs split: if_splits)

interpretation blockpkt: hook_module "module_init HookBlock" "module_exit HookBlock" blockpkt_fields True
  by unfold_locales
    (auto simp: plain_module_defs nf_blockpkt_init_def nf_blockpkt_exit_def Let_def split: if_splits)

lemma module_contract: "hook_module (module_init m) (module_exit m) (ops_of m) (m = HookBlock)"
  using ipaddr.hook_module_axioms local_out.hook_module_axioms queue.hook_module_axioms blockpkt.hook_module_axioms
  by (cases m) (simp_all add: ops_of_def)

interpretation nf: hook_module "module_init m" "module_exit m" "ops_of m" "m = HookBlock" for m
  by (rule module_contract)

definition nf_inv :: "nf_system \<Rightarrow> bool" where
  "nf_inv s \<longleftrightarrow> distinct (hooks (world s)) \<and> set (hooks (world s)) = ops_of ` loaded s
     \<and> nf_blockpkt_ops s = (if HookBlock \<in> loaded s then Some (ops_of HookBlock) else None)
     \<and> blocks (world s) = (if HookBlock \<in> loaded s then 1 else 0)"

lemma inj_ops_of: "ops_of a = ops_of b \<longleftrightarrow> a = b"
  by (cases a; cases b)
    (simp_all add: ops_of_def nf_ipaddr_show_ops_def nf_local_out_ops_def blockpkt_fields_def nf_queue_pkt_ops_def)

lemma nf_step_inv:
  assumes "nf_step s t" "nf_inv s"
  shows "nf_inv t"
  using assms
proof (induction rule: nf_step.induct)
  case (insmod_ok m s kmalloc reg s')
  have "s' = set_hooks (ops_of m # hooks (world s)) (take_mem (m = HookBlock) (ops_of m) s)"
    using insmod_ok by (intro nf.init_ok)
  then show ?case using insmod_ok by (auto simp: nf_inv_def set_hooks_def take_mem_def inj_ops_of)
next
  case (insmod_fails m s kmalloc reg ret s')
  then have "s' = s" by (intro nf.init_fails) (auto simp: nf_inv_def)
  then show ?case using insmod_fails by simp
next
  case (rmmod m s)
  have "module_exit m s = set_hooks (remove1 (ops_of m) (hooks (world s))) (give_mem (m = HookBlock) s)"
    using rmmod by (intro nf.exit_undoes) (auto simp: nf_inv_def)
  then show ?case using rmmod
    by (auto simp: nf_inv_def set_hooks_def give_mem_def inj_ops_of set_remove1_eq)
qed

text \<open>
  C21: whatever the order in which the four modules are loaded and unloaded, and whichever of those loads fail for
  lack of memory or because the hook is refused, the hooks registered are those of the loaded modules, each once,
  and the only memory held is the one block of \<open>nf_blockpkt\<close> while it is loaded.
\<close>

theorem nf_modules_balanced:
  assumes "nf_step\<^sup>*\<^sup>* nf_boot s"
  shows "distinct (hooks (world s)) \<and> set (hooks (world s)) = ops_of ` loaded s
    \<and> blocks (world s) = (if HookBlock \<in> loaded s then 1 else 0)"
proof -
  have "nf_inv nf_boot" by (simp add: nf_inv_def nf_boot_def)
  with assms have "nf_inv s" by (induction rule: rtranclp_induct) (blast intro: nf_step_inv)+
  then show ?thesis by (simp add: nf_inv_def)
qed

theorem nf_modules_balanced_witness:
  "\<exists>s :: nf_system. nf_step\<^sup>*\<^sup>* nf_boot s \<and> loaded s = {HookBlock} \<and> set (hooks (world s)) = {blockpkt_fields} \<and> blocks (world s) = 1"
proof -
  let ?s = "\<lparr>loaded = {HookBlock}, nf_blockpkt_ops = Some blockpkt_fields, world = \<lparr>hooks = [blockpkt_fields], blocks = 1\<rparr>\<rparr>"
  have "module_init HookBlock True 0 nf_boot = (0, ?s\<lparr>loaded := {}\<rparr>)"
    by (simp add: module_init_def nf_blockpkt_init_def nf_register_net_hook_def nf_boot_def)
  from nf_step.insmod_ok [OF _ this] have "nf_step nf_boot ?s" by (simp add: nf_boot_def)
  then have r: "nf_step\<^sup>*\<^sup>* nf_boot ?s" by blast
  from nf_modules_balanced [OF r] show ?thesis using r by (intro exI [of _ ?s]) simp
qed

section \<open>The program behind the queue\<close>

text \<open>What the callback needs of a packet: its IP header, and two bytes after it for ICMP.\<close>

definition nfq_ok :: "nfq_data \<Rightarrow> bool" where
  "nfq_ok d \<longleftrightarrow> (case payload d of None \<Rightarrow> True
     | Some p \<Rightarrow> 20 \<le> length p \<and> (p ! 9 = IPPROTO_ICMP \<longrightarrow> ip_ihl (unat (p ! 0)) * 4 + 2 \<le> length p))"

definition nfq_id :: "nfq_data \<Rightarrow> u32" where
  "nfq_id d = (case packet_id d of Some b \<Rightarrow> be32_at b 0 | None \<Rightarrow> 0xffffffff)"

lemma packet_reads:
  assumes "nfq_ok d" "payload d = Some p"
  shows "get8 p 0 = Inr (unat (p ! 0))" "get8 p 9 = Inr (unat (p ! 9))"
    "get_bytes p 12 4 = Inr (slice p 12 4)" "get_bytes p 16 4 = Inr (slice p 16 4)"
    "p ! 9 = IPPROTO_ICMP \<Longrightarrow> get8 p (ip_ihl (unat (p ! 0)) * 4) = Inr (unat (p ! (ip_ihl (unat (p ! 0)) * 4)))"
    "p ! 9 = IPPROTO_ICMP \<Longrightarrow> get8 p (ip_ihl (unat (p ! 0)) * 4 + 1) = Inr (unat (p ! (ip_ihl (unat (p ! 0)) * 4 + 1)))"
proof -
  have "20 \<le> length p" "p ! 9 = IPPROTO_ICMP \<Longrightarrow> ip_ihl (unat (p ! 0)) * 4 + 2 \<le> length p"
    using assms by (auto simp: nfq_ok_def)
  then show "get8 p 0 = Inr (unat (p ! 0))" "get8 p 9 = Inr (unat (p ! 9))"
    "get_bytes p 12 4 = Inr (slice p 12 4)" "get_bytes p 16 4 = Inr (slice p 16 4)"
    "p ! 9 = IPPROTO_ICMP \<Longrightarrow> get8 p (ip_ihl (unat (p ! 0)) * 4) = Inr (unat (p ! (ip_ihl (unat (p ! 0)) * 4)))"
    "p ! 9 = IPPROTO_ICMP \<Longrightarrow> get8 p (ip_ihl (unat (p ! 0)) * 4 + 1) = Inr (unat (p ! (ip_ihl (unat (p ! 0)) * 4 + 1)))"
    by (auto intro!: get8_in simp: get_bytes_def)
qed

lemma packet_cb_ok:
  assumes "nfq_ok d"
  shows "\<exists>S'. packet_cb src_first d S = Inr S' \<and> verdicts S' = verdicts S @ [(nfq_id d, NF_ACCEPT)]"
proof (cases "payload d")
  case None
  then show ?thesis by (auto simp: packet_cb_def nfq_set_verdict_def nfq_id_def split: option.splits)
next
  case (Some p)
  then show ?thesis using packet_reads [OF assms Some]
    by (auto simp: packet_cb_def nfq_set_verdict_def nfq_id_def print_addrs_def printf_icmp_def inet_ntoa_def Let_def unat_icmp
        split: option.splits)
qed

lemma nfq_callbacks_ok:
  assumes "\<forall>d \<in> set ds. nfq_ok d"
  shows "\<exists>S'. nfq_callbacks src_first ds S = Inr S' \<and> verdicts S' = verdicts S @ map (\<lambda>d. (nfq_id d, NF_ACCEPT)) ds"
  using assms
proof (induction ds arbitrary: S)
  case (Cons d ds)
  obtain S1 where S1: "packet_cb src_first d S = Inr S1" "verdicts S1 = verdicts S @ [(nfq_id d, NF_ACCEPT)]"
    using packet_cb_ok [of d src_first S] Cons.prems by auto
  then show ?case using Cons.IH [of S1] Cons.prems by auto
qed simp

text \<open>The packets the library finds in what \<open>recv\<close> leaves of the messages, and the verdicts on them.\<close>

definition found :: "(bytes \<Rightarrow> nfq_data list) \<Rightarrow> bytes list \<Rightarrow> nfq_data list" where
  "found handle msgs = concat (map (\<lambda>msg. handle (take 4096 msg)) msgs)"

definition accepted :: "nfq_data list \<Rightarrow> (u32 \<times> u32) list" where
  "accepted ds = map (\<lambda>d. (nfq_id d, NF_ACCEPT)) ds"

definition quiet_recv :: "bytes \<Rightarrow> nfq_event" where
  "quiet_recv msg = NfqRecv (Some msg) []"

lemma found_simps [simp]:
  "found handle [] = []" "found handle (msg # msgs) = handle (take 4096 msg) @ found handle msgs"
  "found handle (msgs @ msgs') = found handle msgs @ found handle msgs'"
  by (simp_all add: found_def)

lemma accepted_simps [simp]: "accepted [] = []" "accepted (ds @ ds') = accepted ds @ accepted ds'"
  by (simp_all add: accepted_def)

lemma fold_signal_handler: "fold nfq_signal_handler sigs running \<longleftrightarrow> running \<and> 2 \<notin> set sigs \<and> 15 \<notin> set sigs"
  by (induction sigs arbitrary: running) (auto simp: nfq_signal_handler_def)

lemma nfq_loop_msgs:
  assumes "\<forall>d \<in> set (found handle msgs). nfq_ok d"
  shows "\<exists>S'. (\<forall>es. nfq_loop src_first handle (map quiet_recv msgs @ es) True S = nfq_recv src_first handle es True S')
    \<and> verdicts S' = verdicts S @ accepted (found handle msgs)"
  using assms
proof (induction msgs arbitrary: S)
  case (Cons msg msgs)
  obtain S1 where S1: "nfq_callbacks src_first (handle (take 4096 msg)) S = Inr S1"
      "verdicts S1 = verdicts S @ accepted (handle (take 4096 msg))"
    using nfq_callbacks_ok [of "handle (take 4096 msg)" src_first S] Cons.prems by (auto simp: accepted_def)
  then show ?case using Cons.IH [of S1] Cons.prems by (auto simp: quiet_recv_def)
qed auto

definition all_answers :: nfq_answers where
  "all_answers = \<lparr>q_open = True, q_bind_pf = True, q_create_queue = True, q_set_mode = True\<rparr>"

lemma nfq_main_msgs:
  assumes "\<forall>d \<in> set (found handle msgs). nfq_ok d"
  shows "\<exists>S'. (\<forall>es. nfq_main src_first handle all_answers [] (map quiet_recv msgs @ es) S =
        rbind (nfq_recv src_first handle es True S') (\<lambda>(S, ended). if ended then Inr (Some 0, True, S) else Inr (None, False, S)))
    \<and> verdicts S' = verdicts S @ accepted (found handle msgs)"
  using nfq_loop_msgs [OF assms, of src_first S] by (auto simp: nfq_main_def all_answers_def simp del: nfq_loop.simps)

text \<open>
  C30: the program gives every packet that the library finds in the first 4096 bytes of a message exactly one
  verdict, to accept it, in order, and runs on. When \<open>SIGINT\<close> or \<open>SIGTERM\<close> arrives

  \<^item> while it waits in \<open>recv\<close>, the call is restarted and the program still waits; when one more message arrives it accepts
    that message's packets and then ends; when \<open>recv\<close> fails it ends at once;
  \<^item> while it handles a message, it ends after that message, with no further \<open>recv\<close>;
  \<^item> before the first test of the flag, it ends without receiving anything.

  A failing \<open>recv\<close> ends the program without a signal too. Ending is to release the queue and return 0. The packets
  are assumed to hold the headers that the callback reads (\<open>nfq_ok\<close>).
\<close>

theorem nfqueue_accepts_and_stops_late:
  assumes "\<forall>d \<in> set (found handle (msgs @ [final])). nfq_ok d" "sig = 2 \<or> sig = 15" "sig \<in> set sigs"
  shows "\<exists>S1 S2. nfq_main src_first handle all_answers [] (map quiet_recv msgs) S = Inr (None, False, S1)
    \<and> verdicts S1 = verdicts S @ accepted (found handle msgs)
    \<and> verdicts S2 = verdicts S1 @ accepted (found handle [final])
    \<and> nfq_main src_first handle all_answers [] (map quiet_recv msgs @ [NfqSignal sig]) S = Inr (None, False, S1)
    \<and> nfq_main src_first handle all_answers [] (map quiet_recv msgs @ NfqSignal sig # NfqRecv (Some final) others # rest) S
        = Inr (Some 0, True, S2)
    \<and> nfq_main src_first handle all_answers [] (map quiet_recv msgs @ NfqSignal sig # NfqRecv None others # rest) S
        = Inr (Some 0, True, S1)
    \<and> nfq_main src_first handle all_answers [] (map quiet_recv msgs @ NfqRecv (Some final) sigs # rest) S
        = Inr (Some 0, True, S2)
    \<and> nfq_main src_first handle all_answers [] (map quiet_recv msgs @ NfqRecv None others # rest) S
        = Inr (Some 0, True, S1)
    \<and> nfq_main src_first handle all_answers sigs rest S = Inr (Some 0, True, S)"
proof -
  obtain S1 where S1: "\<And>es. nfq_main src_first handle all_answers [] (map quiet_recv msgs @ es) S =
        rbind (nfq_recv src_first handle es True S1) (\<lambda>(S, ended). if ended then Inr (Some 0, True, S) else Inr (None, False, S))"
      "verdicts S1 = verdicts S @ accepted (found handle msgs)"
    using nfq_main_msgs [of handle msgs src_first S] assms(1) by auto
  obtain S2 where S2: "nfq_callbacks src_first (handle (take 4096 final)) S1 = Inr S2"
      "verdicts S2 = verdicts S1 @ accepted (found handle [final])"
    using nfq_callbacks_ok [of "handle (take 4096 final)" src_first S1] assms(1) by (auto simp: accepted_def)
  have off: "\<not> nfq_signal_handler sig True" "\<not> fold nfq_signal_handler sigs True" "\<not> fold nfq_signal_handler others False"
    using assms(2,3) by (auto simp: nfq_signal_handler_def fold_signal_handler)
  then have "nfq_main src_first handle all_answers sigs rest S = Inr (Some 0, True, S)"
    by (simp add: nfq_main_def all_answers_def)
  moreover have "nfq_main src_first handle all_answers [] (map quiet_recv msgs) S = Inr (None, False, S1)"
    using S1(1) [of "[]"] by simp
  ultimately show ?thesis using S1(2) S2 off by (intro exI [of _ S1] exI [of _ S2]) (simp add: S1(1))
qed

text \<open>A library that finds one packet in every message: the id in front, the packet behind.\<close>

definition one_packet :: "bytes \<Rightarrow> nfq_data list" where
  "one_packet b = [\<lparr>packet_id = Some (take 4 b), payload = Some (drop 4 b)\<rparr>]"

definition sample_state :: nfq_state where
  "sample_state = \<lparr>strings = (\<lambda>p. []), ntoa_buf = 0, printed = [], verdicts = []\<rparr>"

theorem nfqueue_accepts_and_stops_late_witness:
  "\<exists>S1 S2. nfq_main True one_packet all_answers [] [quiet_recv ([0, 0, 0, 1] @ nf_head (sample_packet 1)), NfqSignal 2] sample_state
      = Inr (None, False, S1) \<and> verdicts S1 = [(1, NF_ACCEPT)]
    \<and> nfq_main True one_packet all_answers [] [quiet_recv ([0, 0, 0, 1] @ nf_head (sample_packet 1)), NfqSignal 2,
        NfqRecv (Some ([0, 0, 0, 2] @ nf_head (sample_packet 6))) []] sample_state = Inr (Some 0, True, S2)
    \<and> verdicts S2 = [(1, NF_ACCEPT), (2, NF_ACCEPT)]
    \<and> nfq_main True one_packet all_answers [] [quiet_recv ([0, 0, 0, 1] @ nf_head (sample_packet 1)),
        NfqRecv (Some ([0, 0, 0, 2] @ nf_head (sample_packet 6))) [1, 2]] sample_state = Inr (Some 0, True, S2)"
proof -
  let ?b = "0 # 0 # 0 # 1 # nf_head (sample_packet 1)" and ?f = "0 # 0 # 0 # 2 # nf_head (sample_packet 6)"
  have ok: "\<forall>d \<in> set (found one_packet ([?b] @ [?f])). nfq_ok d"
    by (simp add: one_packet_def nfq_ok_def sample_packet_def ip_ihl_def)
  have i: "accepted (found one_packet [?b]) = [(1, NF_ACCEPT)]" "accepted (found one_packet [?f]) = [(2, NF_ACCEPT)]"
    by (simp_all add: one_packet_def accepted_def nfq_id_def be32_at_def)
  have two: "(2 :: nat) = 2 \<or> (2 :: nat) = 15" "(2 :: nat) \<in> set [1, 2]" by simp_all
  note T = nfqueue_accepts_and_stops_late [OF ok two, of True sample_state "[]" "[]", unfolded i]
  obtain S1 S2 where S: "nfq_main True one_packet all_answers [] (map quiet_recv [?b] @ [NfqSignal 2]) sample_state = Inr (None, False, S1)"
      "verdicts S1 = verdicts sample_state @ [(1, NF_ACCEPT)]" "verdicts S2 = verdicts S1 @ [(2, NF_ACCEPT)]"
      "nfq_main True one_packet all_answers [] (map quiet_recv [?b] @ NfqSignal 2 # NfqRecv (Some ?f) [] # []) sample_state
        = Inr (Some 0, True, S2)"
      "nfq_main True one_packet all_answers [] (map quiet_recv [?b] @ NfqRecv (Some ?f) [1, 2] # []) sample_state
        = Inr (Some 0, True, S2)"
    using T by (elim exE conjE) (rule that; assumption)
  have "verdicts sample_state = []" by (simp add: sample_state_def)
  then show ?thesis using S by (intro exI [of _ S1] exI [of _ S2]) simp
qed

text \<open>
  C35: for an ICMP packet the program prints the id, then the packet's type and code and one address twice, that
  of the \<open>inet_ntoa\<close> call the compiler placed last: both calls return the same static buffer. So the line shows the source
  and the destination of the packet only when they are the same address. The packet is assumed to hold the headers
  that the callback reads (\<open>nfq_ok\<close>).
\<close>

theorem nfqueue_prints_one_address:
  assumes "payload d = Some p" "nfq_ok d" "p ! 9 = IPPROTO_ICMP" "src = slice p 12 4" "dst = slice p 16 4"
    and "icmph = ip_ihl (unat (p ! 0)) * 4" "type = unat (p ! icmph)" "code = unat (p ! (icmph + 1))"
  shows "\<exists>S' line. packet_cb src_first d S = Inr S' \<and> printed S' = printed S @ [PrintId (map_option (\<lambda>b. be32_at b 0) (packet_id d)), line]
    \<and> line = (let a = inet_ntop (if src_first then dst else src) in PrintIcmp type code a a)
    \<and> (line = PrintIcmp type code (inet_ntop src) (inet_ntop dst) \<longleftrightarrow> src = dst)"
proof -
  have "length src = 4" "length dst = 4" using assms(1,2) by (auto simp: nfq_ok_def assms(4,5) slice_def)
  from inet_ntop_inject [OF this] show ?thesis
    using packet_reads [OF assms(2,1)] assms(1,3)
    by (auto simp: packet_cb_def nfq_set_verdict_def print_addrs_def printf_icmp_def inet_ntoa_def Let_def assms(4-8)
        split: option.splits)
qed

theorem nfqueue_prints_one_address_witness:
  "\<exists>S'. packet_cb True \<lparr>packet_id = None, payload = Some (nf_head (sample_packet 1))\<rparr> sample_state = Inr S'
     \<and> printed S' = [PrintId None, PrintIcmp 8 0 (inet_ntop [10, 0, 0, 1]) (inet_ntop [10, 0, 0, 1])]
     \<and> inet_ntop [10, 0, 0, 1] \<noteq> inet_ntop (slice (nf_head (sample_packet 1)) 12 4)"
proof -
  have "nfq_ok \<lparr>packet_id = None, payload = Some (nf_head (sample_packet 1))\<rparr>"
    by (simp add: nfq_ok_def sample_packet_def ip_ihl_def)
  from nfqueue_prints_one_address [OF _ this _ refl refl refl refl refl, of "nf_head (sample_packet 1)" True sample_state]
  show ?thesis by (simp add: sample_packet_def slice_def sample_state_def ip_ihl_def Let_def)
qed

end
