(* ===== verification/Proc_Demo.thy ===== *)
theory Proc_Demo
  imports Cstrings
begin

text \<open>
  \<open>test-proc/proc_demo.c\<close>: a file under \<open>/proc\<close> whose writes fill a kernel buffer and whose reads print it.
  The state is the buffer and the two entries of the file system. The kernel's \<open>copy_from_user\<close> is an argument;
  \<open>copy_documented\<close> is what its documentation says. The \<open>seq_file\<close> layer between \<open>proc_show\<close> and the
  reader is not modelled.
\<close>

abbreviation BUF_SIZE :: nat where "BUF_SIZE \<equiv> 1024"

record proc_state =
  kernel_buffer :: bytes
  proc_dir :: bool
  proc_file :: bool

definition proc_initial :: proc_state where
  "proc_initial = \<lparr>kernel_buffer = replicate BUF_SIZE 0, proc_dir = False, proc_file = False\<rparr>"

section \<open>Reading and writing\<close>

definition proc_show :: "proc_state \<Rightarrow> bytes res" where
  "proc_show s = rbind (cstring (kernel_buffer s)) (\<lambda>text. Inr (ascii ''Message from kernel: '' @ text @ [10]))"

text \<open>
  For a user buffer and a number of bytes, \<open>copy_from_user\<close> gives how many of them could not be copied and the
  bytes it puts into the kernel's buffer: those it could read, and zeros for the rest.
\<close>

type_synonym copy_fn = "bytes \<Rightarrow> nat \<Rightarrow> nat \<times> bytes"

definition copy_documented :: "copy_fn \<Rightarrow> bool" where
  "copy_documented copy_from_user \<longleftrightarrow> (\<forall>from n. n \<le> length from \<longrightarrow>
     (case copy_from_user from n of (left, bs) \<Rightarrow> left \<le> n \<and> bs = take (n - left) from @ replicate left 0))"

text \<open>The user's buffer is \<open>buf\<close>, whose length is \<open>count\<close>.\<close>

definition proc_write :: "copy_fn \<Rightarrow> bytes \<Rightarrow> proc_state \<Rightarrow> (int \<times> proc_state) res" where
  "proc_write copy_from_user buf s =
     (let count = length buf;
          len = (if count \<ge> BUF_SIZE then BUF_SIZE - 1 else count);
          (left, bs) = copy_from_user buf len in
      if length (kernel_buffer s) < length bs then Inl OutOfBounds
      else
        let kb = put 0 bs (kernel_buffer s) in
        if left \<noteq> 0 then Inr (- EFAULT, s\<lparr>kernel_buffer := kb\<rparr>)
        else if len < length kb then Inr (int len, s\<lparr>kernel_buffer := kb[len := 0]\<rparr>)
        else Inl OutOfBounds)"

section \<open>Loading and unloading\<close>

definition default_message :: bytes where
  "default_message = ascii ''Hello from /proc/proc_demo/status!''"

text \<open>\<open>mkdir_ok\<close> and \<open>create_ok\<close> say whether \<open>proc_mkdir\<close> and \<open>proc_create\<close> succeed.\<close>

definition proc_demo_init :: "bool \<Rightarrow> bool \<Rightarrow> proc_state \<Rightarrow> (int \<times> proc_state) res" where
  "proc_demo_init mkdir_ok create_ok s =
     (if \<not> mkdir_ok then Inr (- ENOMEM, s)
      else
        let s = s\<lparr>proc_dir := True\<rparr> in
        if \<not> create_ok then Inr (- ENOMEM, s\<lparr>proc_dir := False\<rparr>)
        else
          let s = s\<lparr>proc_file := True\<rparr> in
          if length (kernel_buffer s) < length default_message + 1 then Inl OutOfBounds
          else Inr (0, s\<lparr>kernel_buffer := put 0 (default_message @ [0]) (kernel_buffer s)\<rparr>))"

definition proc_demo_exit :: "proc_state \<Rightarrow> proc_state" where
  "proc_demo_exit s = s\<lparr>proc_dir := False, proc_file := False\<rparr>"

text \<open>A sequence of writes, each with what \<open>copy_from_user\<close> does in it.\<close>

fun proc_writes :: "(copy_fn \<times> bytes) list \<Rightarrow> proc_state \<Rightarrow> proc_state res" where
  "proc_writes [] s = Inr s"
| "proc_writes ((copy_from_user, buf) # ws) s = rbind (proc_write copy_from_user buf s) (\<lambda>(ret, s). proc_writes ws s)"

section \<open>The buffer is always a terminated string\<close>

definition buffer_wf :: "proc_state \<Rightarrow> bool" where
  "buffer_wf s \<longleftrightarrow> length (kernel_buffer s) = BUF_SIZE \<and> kernel_buffer s ! (BUF_SIZE - 1) = 0"

lemma length_default: "length default_message = 34"
  by (simp add: default_message_def ascii_def)

lemma nth_put_after: "length vs \<le> i \<Longrightarrow> length vs \<le> length bs \<Longrightarrow> put 0 vs bs ! i = bs ! i"
  by (simp add: put_def nth_append)

lemma copied:
  assumes "copy_documented cfu" "cfu buf n = (left, bs)" "n \<le> length buf"
  shows "left \<le> n" "bs = take (n - left) buf @ replicate left 0" "length bs = n"
proof -
  have "left \<le> n \<and> bs = take (n - left) buf @ replicate left 0"
    using assms by (auto simp: copy_documented_def dest!: spec [of _ buf] spec [of _ n])
  then show "left \<le> n" "bs = take (n - left) buf @ replicate left 0" "length bs = n" using assms(3) by auto
qed

text \<open>With \<open>n\<close> the length the code computes:\<close>

lemma write_eq:
  assumes "buffer_wf s" "copy_documented cfu" "cfu buf n = (left, bs)" "n = min (length buf) 1023"
  shows "proc_write cfu buf s = Inr
    (if left \<noteq> 0 then (- EFAULT, s\<lparr>kernel_buffer := put 0 bs (kernel_buffer s)\<rparr>)
     else (int n, s\<lparr>kernel_buffer := (put 0 bs (kernel_buffer s))[n := 0]\<rparr>))"
proof -
  have n: "(if length buf \<ge> BUF_SIZE then BUF_SIZE - 1 else length buf) = n" "n \<le> length buf" using assms(4) by auto
  have "n < length (kernel_buffer s)" using assms(1,4) by (simp add: buffer_wf_def)
  then show ?thesis unfolding proc_write_def Let_def n(1) using copied(3) [OF assms(2,3) n(2)] assms(3) by simp
qed

lemma write_wf:
  assumes "buffer_wf s" "copy_documented cfu"
  shows "\<exists>ret s'. proc_write cfu buf s = Inr (ret, s') \<and> buffer_wf s'"
proof -
  define n where "n = min (length buf) 1023"
  obtain left bs where c: "cfu buf n = (left, bs)" by force
  have l: "length bs \<le> 1023" using copied(3) [OF assms(2) c] by (simp add: n_def)
  have kb: "length (kernel_buffer s) = BUF_SIZE" "kernel_buffer s ! 1023 = 0" using assms(1) by (auto simp: buffer_wf_def)
  have "length (put 0 bs (kernel_buffer s)) = BUF_SIZE" "put 0 bs (kernel_buffer s) ! 1023 = 0"
    using l kb nth_put_after [of bs 1023 "kernel_buffer s"] by simp_all
  then show ?thesis unfolding write_eq [OF assms c n_def] by (cases "n = 1023") (simp_all add: buffer_wf_def)
qed

lemma show_wf:
  assumes "buffer_wf s"
  shows "\<exists>t. proc_show s = Inr (ascii ''Message from kernel: '' @ t @ [10]) \<and> 0 \<notin> set t \<and> length t \<le> BUF_SIZE - 1"
proof -
  let ?kb = "kernel_buffer s" and ?t = "takeWhile (\<lambda>b. b \<noteq> 0) (kernel_buffer s)"
  have kb: "length ?kb = BUF_SIZE" "?kb ! 1023 = 0" using assms by (auto simp: buffer_wf_def)
  then have "0 \<in> set ?kb" using nth_mem [of 1023 ?kb] by simp
  moreover have "0 \<notin> set ?t" using set_takeWhileD by fastforce
  moreover have "length ?t \<noteq> BUF_SIZE" using \<open>0 \<in> set ?kb\<close> kb(1) \<open>0 \<notin> set ?t\<close>
    by (metis takeWhile_eq_all_conv takeWhile_eq_take take_all_iff order_refl)
  moreover have "length ?t \<le> length ?kb" by (rule length_takeWhile_le)
  ultimately show ?thesis using kb(1) by (simp add: proc_show_def cstring_def)
qed

lemma init_wf:
  assumes "proc_demo_init True True proc_initial = Inr (ret, s)"
  shows "ret = 0" "buffer_wf s"
  using assms nth_put_after [of "default_message @ [0]" 1023 "replicate BUF_SIZE 0"]
  by (auto simp: proc_demo_init_def proc_initial_def buffer_wf_def Let_def length_default)

lemma writes_wf:
  "buffer_wf s \<Longrightarrow> \<forall>w \<in> set ws. copy_documented (fst w) \<Longrightarrow> \<exists>s'. proc_writes ws s = Inr s' \<and> buffer_wf s'"
proof (induction ws arbitrary: s)
  case (Cons w ws)
  obtain cfu buf where w: "w = (cfu, buf)" by force
  obtain ret s1 where "proc_write cfu buf s = Inr (ret, s1)" "buffer_wf s1"
    using write_wf [OF Cons.prems(1), of cfu buf] Cons.prems(2) w by auto
  then show ?case using Cons.IH [of s1] Cons.prems(2) w by simp
qed simp

text \<open>
  C36: after the module is loaded, no sequence of writes, of any length and even with unreadable user memory,
  leaves the buffer: it stays 1024 bytes with a final zero, so a read never runs past it and prints a string
  of at most 1023 bytes.
\<close>

theorem proc_buffer_terminated:
  assumes "proc_demo_init True True proc_initial = Inr (ret, s)" "\<forall>w \<in> set ws. copy_documented (fst w)"
  shows "\<exists>s' t. proc_writes ws s = Inr s' \<and> length (kernel_buffer s') = BUF_SIZE \<and> kernel_buffer s' ! (BUF_SIZE - 1) = 0
    \<and> proc_show s' = Inr (ascii ''Message from kernel: '' @ t @ [10]) \<and> 0 \<notin> set t \<and> length t \<le> BUF_SIZE - 1"
proof -
  obtain s' where s': "proc_writes ws s = Inr s'" "buffer_wf s'" using writes_wf init_wf(2) [OF assms(1)] assms(2) by blast
  from show_wf [OF s'(2)] obtain t where "proc_show s' = Inr (ascii ''Message from kernel: '' @ t @ [10])" "0 \<notin> set t"
    "length t \<le> BUF_SIZE - 1" by blast
  then show ?thesis using s' by (auto simp: buffer_wf_def)
qed

text \<open>User memory of which the first \<open>k\<close> bytes can be read.\<close>

definition readable :: "nat \<Rightarrow> copy_fn" where
  "readable k from n = (n - k, take (min n k) from @ replicate (n - k) 0)"

lemma readable_documented: "copy_documented (readable k)"
  by (auto simp: copy_documented_def readable_def min_def)

definition proc_loaded :: proc_state where
  "proc_loaded = \<lparr>kernel_buffer = put 0 (default_message @ [0]) (replicate BUF_SIZE 0), proc_dir = True, proc_file = True\<rparr>"

lemma proc_loaded_init: "proc_demo_init True True proc_initial = Inr (0, proc_loaded)"
  by (simp add: proc_demo_init_def proc_initial_def proc_loaded_def length_default Let_def)

theorem proc_buffer_terminated_witness:
  "\<exists>s' :: proc_state. proc_writes [(readable 5000, replicate 5000 65), (readable 10, replicate 100 66)] proc_loaded = Inr s'
     \<and> kernel_buffer s' ! 1023 = 0"
  using proc_buffer_terminated [OF proc_loaded_init, of "[(readable 5000, replicate 5000 65), (readable 10, replicate 100 66)]"]
    readable_documented by auto

section \<open>What is written is read back\<close>

lemma takeWhile_until: "0 \<notin> set t \<Longrightarrow> takeWhile (\<lambda>b. b \<noteq> 0) (t @ 0 # rest) = t"
  by (induction t) auto

text \<open>
  C37: a write of readable memory stores its first 1023 bytes and returns their number, and the next read prints
  them up to the first zero byte: a text without zeros and shorter than the buffer comes back whole. If the
  memory cannot be read, the write returns \<open>-EFAULT\<close> and what could be read replaces the message.
\<close>

theorem proc_write_read:
  assumes "buffer_wf s" "copy_documented cfu" "t = take 1023 buf" "0 \<notin> set t" "cfu buf (length t) = (left, bs)"
  shows "\<exists>s'. proc_write cfu buf s = Inr (if left = 0 then int (length t) else - EFAULT, s')
    \<and> proc_show s' = Inr (ascii ''Message from kernel: '' @ take (length t - left) t @ [10])"
proof -
  let ?kb = "kernel_buffer s"
  have kb: "length t < length ?kb" using assms(1,3) by (simp add: buffer_wf_def)
  have z: "0 \<notin> set (take (length t - left) t)" using assms(4) by (meson in_set_takeD)
  have n: "length t = min (length buf) 1023" "length t \<le> length buf" using assms(3) by simp_all
  note w = write_eq [OF assms(1,2,5) n(1)] and c = copied [OF assms(2,5) n(2)]
  have tk: "take (length t - left) buf = take (length t - left) t" using assms(3) by (auto simp: min_def)
  show ?thesis
  proof (cases "left = 0")
    case True
    have "drop (length t) ?kb = ?kb ! length t # drop (Suc (length t)) ?kb" using kb by (simp add: Cons_nth_drop_Suc)
    then have "(put 0 bs ?kb)[length t := 0] = t @ 0 # drop (Suc (length t)) ?kb"
      using True c(2) tk by (simp add: put_def list_update_append)
    then show ?thesis using True w z by (simp add: proc_show_def cstring_def takeWhile_until)
  next
    case False
    then obtain j where j: "left = Suc j" by (cases left) auto
    have "put 0 bs ?kb = bs @ drop (length t) ?kb" using c(3) by (simp add: put_def)
    moreover have "bs = take (length t - left) t @ 0 # replicate j 0" using c(2) tk j by simp
    ultimately have "put 0 bs ?kb = take (length t - left) t @ 0 # (replicate j 0 @ drop (length t) ?kb)" by simp
    then show ?thesis using False w z by (simp add: proc_show_def cstring_def takeWhile_until)
  qed
qed

theorem proc_write_read_witness:
  "\<exists>s' :: proc_state. proc_write (readable 2) (ascii ''hi'') proc_loaded = Inr (2, s')
     \<and> proc_show s' = Inr (ascii ''Message from kernel: hi'' @ [10])"
proof -
  have "buffer_wf proc_loaded" by (rule init_wf(2) [OF proc_loaded_init])
  moreover have "0 \<notin> set (ascii ''hi'')" by (simp add: ascii_def)
  moreover have "readable 2 (ascii ''hi'') (length (ascii ''hi'')) = (0, ascii ''hi'')" by (simp add: readable_def ascii_def)
  ultimately show ?thesis
    using proc_write_read [of proc_loaded "readable 2" "ascii ''hi''" "ascii ''hi''" 0 "ascii ''hi''"] readable_documented
    by (simp add: ascii_def)
qed

text \<open>A failed load leaves no entry behind, and unloading removes both.\<close>

lemma proc_load_unload:
  "proc_demo_init mkdir_ok create_ok proc_initial = Inr (ret, s) \<Longrightarrow>
     (ret = 0 \<longleftrightarrow> mkdir_ok \<and> create_ok) \<and> proc_dir s = (ret = 0) \<and> proc_file s = (ret = 0)
     \<and> \<not> proc_dir (proc_demo_exit s) \<and> \<not> proc_file (proc_demo_exit s)"
  by (auto simp: proc_demo_init_def proc_demo_exit_def proc_initial_def Let_def split: if_splits)

end
