(* ===== verification/Sysfs_Demo.thy ===== *)
theory Sysfs_Demo
  imports Cstrings
begin

text \<open>
  \<open>sysfs/sysfs_demo.c\<close>: an integer that is read and written as text through a file. The kernel's \<open>kstrtoint\<close> is an
  argument; \<open>kstrtoint_documented\<close> states its documented behaviour on C strings in base 10 and is the hypothesis of
  the property. The reference counts of the kobject are part of the state.
\<close>

abbreviation ERANGE :: int where "ERANGE \<equiv> 34"

record sysfs_state =
  foo :: int
  kobj_refs :: nat
  group :: bool

definition sysfs_initial :: sysfs_state where
  "sysfs_initial = \<lparr>foo = 0, kobj_refs = 0, group = False\<rparr>"

section \<open>The attribute\<close>

text \<open>\<open>%d\<close>.\<close>

definition print_int :: "int \<Rightarrow> bytes" where
  "print_int i = (if i < 0 then 45 # decimal (nat (- i)) else decimal (nat i))"

definition foo_show :: "sysfs_state \<Rightarrow> int \<times> bytes" where
  "foo_show s = (let buf = print_int (foo s) @ [10] in (int (length buf), buf))"

text \<open>
  \<open>kstrtoint\<close> takes a string and a base; it returns its result and the number it stored, if it stored one. The
  bytes written to the file are followed by a terminator, so the string ends at the first zero byte in them.
\<close>

definition foo_store :: "(bytes \<Rightarrow> nat \<Rightarrow> int \<times> int option) \<Rightarrow> bytes \<Rightarrow> sysfs_state \<Rightarrow> int \<times> sysfs_state" where
  "foo_store kstrtoint buf s =
     (case kstrtoint (takeWhile (\<lambda>b. b \<noteq> 0) buf) 10 of (ret, stored) \<Rightarrow>
        let s = (case stored of None \<Rightarrow> s | Some v \<Rightarrow> s\<lparr>foo := v\<rparr>) in
        if ret < 0 then (ret, s) else (int (length buf), s))"

text \<open>A sequence of writes.\<close>

definition foo_stores :: "(bytes \<Rightarrow> nat \<Rightarrow> int \<times> int option) \<Rightarrow> bytes list \<Rightarrow> sysfs_state \<Rightarrow> sysfs_state" where
  "foo_stores kstrtoint bufs s = fold (\<lambda>buf s. snd (foo_store kstrtoint buf s)) bufs s"

section \<open>Loading and unloading\<close>

text \<open>When the last reference goes, the directory and the files in it go.\<close>

definition kobject_put :: "sysfs_state \<Rightarrow> sysfs_state" where
  "kobject_put s = (let s = s\<lparr>kobj_refs := kobj_refs s - 1\<rparr> in if kobj_refs s = 0 then s\<lparr>group := False\<rparr> else s)"

definition sysfs_demo_init :: "bool \<Rightarrow> int \<Rightarrow> sysfs_state \<Rightarrow> int \<times> sysfs_state" where
  "sysfs_demo_init create_ok create_group s =
     (if \<not> create_ok then (- ENOMEM, s)
      else
        let s = s\<lparr>kobj_refs := 1\<rparr>; ret = create_group;
            s = (if ret = 0 then s\<lparr>group := True\<rparr> else s) in
        if ret \<noteq> 0 then (ret, kobject_put s) else (ret, s))"

definition sysfs_demo_exit :: "sysfs_state \<Rightarrow> sysfs_state" where
  "sysfs_demo_exit s = kobject_put s"

lemma sysfs_load_unload:
  "sysfs_demo_init create_ok create_group sysfs_initial = (ret, s) \<Longrightarrow>
     (ret \<noteq> 0 \<longrightarrow> s = sysfs_initial) \<and> (ret = 0 \<longrightarrow> group s \<and> sysfs_demo_exit s = sysfs_initial)"
  by (auto simp: sysfs_demo_init_def sysfs_demo_exit_def sysfs_initial_def kobject_put_def Let_def split: if_splits)

section \<open>What is shown can be stored\<close>

text \<open>A number as \<open>kstrtoint\<close> takes it: an optional sign, digits, and an optional newline.\<close>

definition number :: "bytes \<Rightarrow> bytes \<Rightarrow> bytes \<Rightarrow> bool" where
  "number sign ds nl \<longleftrightarrow> (sign = [] \<or> sign = [43] \<or> sign = [45]) \<and> ds \<noteq> [] \<and> (\<forall>d \<in> set ds. is_digit d) \<and> (nl = [] \<or> nl = [10])"

definition signed_val :: "bytes \<Rightarrow> bytes \<Rightarrow> int" where
  "signed_val sign ds = (if sign = [45] then - int (digits_val ds) else int (digits_val ds))"

definition int_range :: "int \<Rightarrow> bool" where
  "int_range v \<longleftrightarrow> - 2147483648 \<le> v \<and> v < 2147483648"

text \<open>The number in a string, if it is one and in range.\<close>

definition text_value :: "bytes \<Rightarrow> int \<Rightarrow> bool" where
  "text_value s v \<longleftrightarrow> (\<exists>sign ds nl. number sign ds nl \<and> s = sign @ ds @ nl \<and> v = signed_val sign ds \<and> int_range v)"

text \<open>A number in range is stored and the result is 0; for any other string the result is negative and nothing is stored.\<close>

definition kstrtoint_documented :: "(bytes \<Rightarrow> nat \<Rightarrow> int \<times> int option) \<Rightarrow> bool" where
  "kstrtoint_documented kstrtoint \<longleftrightarrow> (\<forall>s. 0 \<notin> set s \<longrightarrow>
     (\<forall>v. text_value s v \<longrightarrow> kstrtoint s 10 = (0, Some v))
     \<and> ((\<nexists>v. text_value s v) \<longrightarrow> (\<exists>e < 0. kstrtoint s 10 = (e, None))))"

lemma print_int_number:
  "\<exists>sign ds. number sign ds [10] \<and> print_int i @ [10] = sign @ ds @ [10] \<and> signed_val sign ds = i"
proof (cases "i < 0")
  case True
  then show ?thesis using decimal_digits [of "nat (- i)"]
    by (intro exI [of _ "[45]"] exI [of _ "decimal (nat (- i))"]) (auto simp: print_int_def number_def signed_val_def)
next
  case False
  then show ?thesis using decimal_digits [of "nat i"]
    by (intro exI [of _ "[]"] exI [of _ "decimal (nat i)"]) (auto simp: print_int_def number_def signed_val_def)
qed

lemma no_zero_print_int: "0 \<notin> set (print_int i)"
  using no_zero_decimal by (auto simp: print_int_def)

lemma length_print_int: "int_range i \<Longrightarrow> length (print_int i) \<le> 11"
proof -
  assume "int_range i"
  then have "nat (- i) < 10 ^ 10" "nat i < 10 ^ 10" by (auto simp: int_range_def)
  then have "length (decimal (nat (- i))) \<le> 10" "length (decimal (nat i)) \<le> 10"
    using length_decimal [of 10] by simp_all
  then show ?thesis by (simp add: print_int_def)
qed

lemma text_value_print_int: "int_range i \<Longrightarrow> text_value (print_int i @ [10]) i"
  unfolding text_value_def using print_int_number [of i] by blast

lemma takeWhile_print_int: "takeWhile (\<lambda>b. b \<noteq> 0) (print_int i @ 10 # x) = print_int i @ 10 # takeWhile (\<lambda>b. b \<noteq> 0) x"
  using no_zero_print_int [of i] by (subst takeWhile_append2) auto

lemma no_zero_takeWhile: "0 \<notin> set (takeWhile (\<lambda>b. b \<noteq> 0) buf)"
  by (auto dest: set_takeWhileD)

text \<open>What a write does, whatever its bytes.\<close>

lemma foo_store_cases:
  assumes "kstrtoint_documented kstrtoint"
  shows "(\<exists>v. text_value (takeWhile (\<lambda>b. b \<noteq> 0) buf) v \<and> foo_store kstrtoint buf s = (int (length buf), s\<lparr>foo := v\<rparr>))
    \<or> (\<nexists>v. text_value (takeWhile (\<lambda>b. b \<noteq> 0) buf) v) \<and> (\<exists>e < 0. foo_store kstrtoint buf s = (e, s))"
proof (cases "\<exists>v. text_value (takeWhile (\<lambda>b. b \<noteq> 0) buf) v")
  case True
  then obtain v where v: "text_value (takeWhile (\<lambda>b. b \<noteq> 0) buf) v" by blast
  then have "kstrtoint (takeWhile (\<lambda>b. b \<noteq> 0) buf) 10 = (0, Some v)"
    using assms no_zero_takeWhile unfolding kstrtoint_documented_def by blast
  then show ?thesis using v by (auto simp: foo_store_def)
next
  case False
  then obtain e where "e < 0" "kstrtoint (takeWhile (\<lambda>b. b \<noteq> 0) buf) 10 = (e, None)"
    using assms no_zero_takeWhile unfolding kstrtoint_documented_def by blast
  then show ?thesis using False by (auto simp: foo_store_def)
qed

lemma foo_stores_range:
  assumes "kstrtoint_documented kstrtoint" "int_range (foo s)"
  shows "int_range (foo (foo_stores kstrtoint bufs s))"
  using assms(2)
proof (induction bufs arbitrary: s)
  case (Cons buf bufs)
  have "int_range (foo (snd (foo_store kstrtoint buf s)))"
    using foo_store_cases [OF assms(1), of buf s] Cons.prems by (auto simp: text_value_def)
  then show ?case using Cons.IH by (simp add: foo_stores_def)
qed (simp add: foo_stores_def)

lemma foo_store_shown:
  assumes "kstrtoint_documented kstrtoint" "int_range (foo s)" "buf = snd (foo_show s) \<or> buf = snd (foo_show s) @ 0 # tail"
  shows "foo_store kstrtoint buf t = (int (length buf), t\<lparr>foo := foo s\<rparr>)"
proof -
  have "takeWhile (\<lambda>b. b \<noteq> 0) buf = print_int (foo s) @ [10]"
    using assms(3) by (auto simp: foo_show_def Let_def takeWhile_print_int)
  moreover have "kstrtoint (print_int (foo s) @ [10]) 10 = (0, Some (foo s))"
    using assms(1) text_value_print_int [OF assms(2)] no_zero_print_int unfolding kstrtoint_documented_def by simp
  ultimately show ?thesis by (simp add: foo_store_def)
qed

text \<open>
  C38: given a \<open>kstrtoint\<close> with its documented behaviour, after any writes to the file, whatever their bytes, the
  value is an \<open>int\<close> and the text shown has at most 12 bytes; writing that text, with or without a zero byte and anything behind it, into any
  state restores the value and returns the number of bytes written. A write is taken, with all its bytes, exactly when the
  string up to the first zero byte is a decimal number in the range of \<open>int\<close>, and the value is then that number; any
  other write returns a negative error and changes nothing.
\<close>

theorem sysfs_foo_roundtrip:
  assumes "kstrtoint_documented kstrtoint" "s = foo_stores kstrtoint bufs sysfs_initial"
    and "text = snd (foo_show s)" "foo_store kstrtoint buf s = (ret, s')"
  shows "int_range (foo s) \<and> fst (foo_show s) = int (length text) \<and> length text \<le> 12
    \<and> foo_store kstrtoint text t = (int (length text), t\<lparr>foo := foo s\<rparr>)
    \<and> foo_store kstrtoint (text @ 0 # tail) t = (int (length (text @ 0 # tail)), t\<lparr>foo := foo s\<rparr>)
    \<and> (0 \<le> ret \<longleftrightarrow> (\<exists>v. text_value (takeWhile (\<lambda>b. b \<noteq> 0) buf) v))
    \<and> (0 \<le> ret \<longrightarrow> ret = int (length buf) \<and> text_value (takeWhile (\<lambda>b. b \<noteq> 0) buf) (foo s') \<and> s' = s\<lparr>foo := foo s'\<rparr>)
    \<and> (ret < 0 \<longrightarrow> s' = s)"
proof -
  have range: "int_range (foo s)"
    unfolding assms(2) by (rule foo_stores_range [OF assms(1)]) (simp add: int_range_def sysfs_initial_def)
  then have "fst (foo_show s) = int (length text)" "length text \<le> 12"
    using length_print_int [OF range] by (simp_all add: assms(3) foo_show_def Let_def)
  moreover have "foo_store kstrtoint text t = (int (length text), t\<lparr>foo := foo s\<rparr>)"
      "foo_store kstrtoint (text @ 0 # tail) t = (int (length (text @ 0 # tail)), t\<lparr>foo := foo s\<rparr>)"
    using foo_store_shown [OF assms(1) range] assms(3) by blast+
  ultimately show ?thesis using range foo_store_cases [OF assms(1), of buf s] assms(4) by auto
qed

text \<open>An executable function with the documented behaviour.\<close>

definition kstrtoint_ref :: "bytes \<Rightarrow> nat \<Rightarrow> int \<times> int option" where
  "kstrtoint_ref s base =
     (let r = (if s \<noteq> [] \<and> last s = 10 then butlast s else s);
          sign = (if r \<noteq> [] \<and> (hd r = 43 \<or> hd r = 45) then [hd r] else []);
          ds = drop (length sign) r in
      if ds = [] \<or> \<not> list_all is_digit ds then (- EINVAL, None)
      else if int_range (signed_val sign ds) then (0, Some (signed_val sign ds)) else (- ERANGE, None))"

lemma kstrtoint_ref_number:
  assumes "number sign ds nl"
  shows "kstrtoint_ref (sign @ ds @ nl) base =
    (if int_range (signed_val sign ds) then (0, Some (signed_val sign ds)) else (- ERANGE, None))"
proof -
  have ds: "ds \<noteq> []" "\<forall>d \<in> set ds. is_digit d" using assms by (auto simp: number_def)
  have nd: "\<not> is_digit 10" "\<not> is_digit 43" "\<not> is_digit 45" by (simp_all add: is_digit_def)
  have l: "last ds \<noteq> 10" "hd ds \<noteq> 43" "hd ds \<noteq> 45" using ds nd by (metis last_in_set, metis hd_in_set, metis hd_in_set)
  have r: "(if sign @ ds @ nl \<noteq> [] \<and> last (sign @ ds @ nl) = 10 then butlast (sign @ ds @ nl) else sign @ ds @ nl) = sign @ ds"
    using assms ds l by (auto simp: number_def butlast_append)
  have "(if sign @ ds \<noteq> [] \<and> (hd (sign @ ds) = 43 \<or> hd (sign @ ds) = 45) then [hd (sign @ ds)] else []) = sign"
    using assms ds l by (auto simp: number_def hd_append)
  then show ?thesis using ds unfolding kstrtoint_ref_def r Let_def by (simp add: list_all_iff)
qed

lemma kstrtoint_ref_refuses:
  assumes no: "\<nexists>sign ds nl. number sign ds nl \<and> s = sign @ ds @ nl"
  shows "kstrtoint_ref s base = (- EINVAL, None)"
proof -
  define r where "r = (if s \<noteq> [] \<and> last s = 10 then butlast s else s)"
  define nl where "nl = (if s \<noteq> [] \<and> last s = 10 then [10] else [] :: bytes)"
  define sign where "sign = (if r \<noteq> [] \<and> (hd r = 43 \<or> hd r = 45) then [hd r] else [])"
  define ds where "ds = drop (length sign) r"
  have "s \<noteq> [] \<Longrightarrow> last s = 10 \<Longrightarrow> butlast s @ [10] = s" using append_butlast_last_id [of s] by simp
  then have "s = r @ nl" by (auto simp: r_def nl_def)
  moreover have "r = sign @ ds" by (cases r) (auto simp: sign_def ds_def)
  ultimately have "\<not> number sign ds nl" using no by auto
  then have "ds = [] \<or> \<not> list_all is_digit ds" by (auto simp: number_def nl_def sign_def list_all_iff split: if_splits)
  then show ?thesis
    unfolding kstrtoint_ref_def Let_def r_def [symmetric] sign_def [symmetric] ds_def [symmetric] by simp
qed

lemma kstrtoint_ref_documented: "kstrtoint_documented kstrtoint_ref"
  unfolding kstrtoint_documented_def
proof (intro allI impI conjI)
  fix s v assume "text_value s v"
  then show "kstrtoint_ref s 10 = (0, Some v)" unfolding text_value_def using kstrtoint_ref_number by auto
next
  fix s assume no: "\<nexists>v. text_value s v"
  show "\<exists>e < 0. kstrtoint_ref s 10 = (e, None)"
  proof (cases "\<exists>sign ds nl. number sign ds nl \<and> s = sign @ ds @ nl")
    case True
    then obtain sign ds nl where "number sign ds nl" "s = sign @ ds @ nl" by blast
    then have "kstrtoint_ref s 10 = (- ERANGE, None)"
      using no kstrtoint_ref_number [of sign ds nl 10] by (auto simp: text_value_def)
    then show ?thesis by simp
  next
    case False
    then show ?thesis using kstrtoint_ref_refuses [of s 10] by simp
  qed
qed

text \<open>The file after the writes \<open>-42\<close> and \<open>9x\<close>; the second one is refused.\<close>

theorem sysfs_foo_roundtrip_witness:
  "foo (foo_stores kstrtoint_ref [[45, 52, 50], [57, 120]] sysfs_initial) = - 42
   \<and> foo_store kstrtoint_ref (snd (foo_show (foo_stores kstrtoint_ref [[45, 52, 50], [57, 120]] sysfs_initial))) sysfs_initial
       = (4, sysfs_initial\<lparr>foo := - 42\<rparr>)"
proof -
  define s where "s = foo_stores kstrtoint_ref [[45, 52, 50], [57, 120]] sysfs_initial"
  have f: "foo s = - 42"
    by (simp add: s_def foo_stores_def foo_store_def kstrtoint_ref_def is_digit_def signed_val_def digits_val_def
        int_range_def sysfs_initial_def Let_def)
  then have "length (snd (foo_show s)) = 4"
    by (simp add: foo_show_def print_int_def decimal.simps Let_def)
  then show ?thesis
    using sysfs_foo_roundtrip [OF kstrtoint_ref_documented s_def refl prod.collapse [symmetric], of sysfs_initial] f
    unfolding s_def [symmetric] by simp
qed

end
