(* ===== verification/Spec2Isabelle.thy ===== *)
theory Spec2Isabelle
  imports Dummy_Driver Snull_Props Chat_Flow Netlink_Props Netlink_Monitor Netlink_Hello Link_Refine Netfilter_Props Proc_Demo Sysfs_Demo
begin

text \<open>
  Verification of a collection of Linux networking programs: kernel modules and user programs, each in its own
  directory under \<open>src/\<close>. The parts do not call each other except where a directory holds a pair (the simulated
  hardware and its driver, a kernel module and the program that talks to it, a chat server and its client).

  \<^bold>\<open>Parts and theories\<close>

  \<^item> \<^bold>\<open>Shared.\<close> \<open>Prelude\<close>: machine integers, \<open>errno\<close> values, \<open>fault\<close> and the result type \<open>fault + 'a\<close> with its
    sequencing \<open>rbind\<close>, byte buffers. \<open>Checksum\<close>: the Internet checksum. \<open>Cstrings\<close>: C strings in buffers,
    \<open>snprintf\<close>, decimal numbers, \<open>inet_ntop\<close>, checked reads.
  \<^item> \<^bold>\<open>linux-netdevice-driver-test/\<close>: \<open>Dummy_Hw\<close> models \<open>dummy-hw.c\<close> (the queue of frames, the callback, the thread,
    and \<open>hw_step\<close>, its interleaving with transmitters and deregistration); \<open>Dummy_Eth\<close> models \<open>dummy-eth.c\<close>
    (the reflector of ARP and ICMP echo requests, the \<open>net_device_ops\<close>, load and unload); \<open>Dummy_Driver\<close> has the
    properties of both and of their composition. The driver's receive function meets the locale
    \<open>rx_callback\<close>, from which conservation of frames follows.
  \<^item> \<^bold>\<open>snull/\<close>: \<open>Snull\<close> models every function of \<open>snull.c\<close> in source order over a store of linked packet
    buffers. \<open>Snull_Inv\<close> has the locale \<open>buffer_stack\<close> (interpreted for the pool and the receive queue) and the
    buffer invariant; \<open>Snull_Steps\<close>, \<open>Snull_Regular\<close> and \<open>Snull_Load\<close> carry it through the entry points, interrupt
    mode, NAPI mode and loading; \<open>Snull_Driver\<close> defines the calls the kernel makes and the reachable
    states; \<open>Snull_Props\<close> has the properties.
  \<^item> \<^bold>\<open>select/chat-server/\<close>: \<open>Chat_Server\<close> models \<open>server.c\<close> (table, threads, accept loop, one step per point where
    another thread can run, start-up and \<open>SIGINT\<close>) and \<open>client.c\<close>; \<open>Chat_Inv\<close> has the locale \<open>slot_scan\<close> and the
    invariant of the table; \<open>Chat_Props\<close> the properties of the server and of the client; \<open>Chat_Flow\<close> composes them, from
    one client's keyboard to another's screen.
  \<^item> \<^bold>\<open>netlink/\<close>: \<open>Netlink\<close> models the message and attribute loops of \<open>route_show.c\<close> and \<open>route_monitor.c\<close> and
    what they print; \<open>Netlink_Main\<close> their \<open>main\<close> functions and the pair \<open>netlinkKernel.c\<close>, \<open>netlinkUser.c\<close>;
    \<open>Netlink_Walk\<close> the locale \<open>tlv_loop\<close> with both loops as interpretations; \<open>Netlink_Encode\<close> the kernel's
    encoders and what a walk over encoded messages reads; \<open>Netlink_Props\<close> the locale \<open>dump_item\<close>, interpreted for
    routes and interfaces, and what \<open>route_show\<close> prints; \<open>Netlink_Monitor\<close> the properties of \<open>route_monitor\<close>;
    \<open>Netlink_Hello\<close> the exchange of the pair.
  \<^item> \<^bold>\<open>select/link_monitor/\<close>: \<open>Link_Monitor\<close> models \<open>link_monitor.c\<close> (initialisation, the three event handlers,
    the \<open>select\<close> loop, clean-up); \<open>Link_Props\<close> its behaviour on arbitrary bytes and its descriptors; \<open>Link_Refine\<close> its
    specification in terms of events (\<open>lm_spec\<close>, \<open>spec_run\<close>) and the refinement.
  \<^item> \<^bold>\<open>netfilter/\<close>: \<open>Netfilter\<close> models the four hooks, the modules' load and unload, and \<open>nfqueue_userspace.c\<close>;
    \<open>Netfilter_Props\<close> has the locale \<open>hook_module\<close>, interpreted for the four modules, and the properties. This
    theory, below, composes the queueing module with the program behind the queue.
  \<^item> \<^bold>\<open>test-proc/\<close> and \<^bold>\<open>sysfs/\<close>: \<open>Proc_Demo\<close> and \<open>Sysfs_Demo\<close>, definitions and properties.

  \<^bold>\<open>Conventions\<close>

  \<^item> Each C function is a definition of the same name where Isabelle allows it; a \<open>struct\<close> is a record, global
    variables are a record that the function takes and returns. Integers whose width matters are words.
  \<^item> A NULL dereference, an access outside an object, a use after free, a double free, a lock taken twice by
    one thread are values of \<open>fault\<close>. A theorem that a function returns \<open>Inr\<close> says that none of them happens.
  \<^item> What the kernel or a library answers is an argument: a record of answers (\<open>eth_kernel\<close>, \<open>snull_env\<close>,
    \<open>lm_answers\<close>, \<open>show_env\<close>, \<open>nfq_answers\<close>, ...) or a function, with its documented behaviour as a named
    hypothesis (\<open>eth_kernel_ok\<close>, \<open>kmalloc_ok\<close>, \<open>ether_setup_ok\<close>, \<open>kstrtoint_documented\<close>). The environment's
    choices (schedules, signals, datagrams) are lists of events, and the theorems quantify over them.
  \<^item> Loops over data are total functions with a measure (the attribute loops, \<open>decimal\<close>, \<open>fold16\<close>); the event loops
    recurse over the list of events and report whether the loop has ended. Loops over linked lists take
    fuel: \<open>snull_poll\<close> and \<open>snull_teardown_pool\<close> give \<open>OutOfFuel\<close> when it runs out, and the properties show
    that more fuel than there are buffers is enough.
  \<^item> Host integers are little-endian where their bytes are visible (netlink, netfilter).

  \<^bold>\<open>What is shown\<close>

  \<^item> The reflector answers: a transmitted echo request comes back as a valid reply, an ARP request as the
    answer of the specification; both checksums are valid; every access to a frame is checked against its linear
    part and against the head being moved by \<open>pskb_may_pull\<close>; the receive counters count the whole frame, though
    \<open>eth_type_trans\<close> takes the Ethernet header off; each frame is disposed of exactly once on every interleaving of
    the statements of transmitters, thread and \<open>lt_request_irq\<close>; loading is all or nothing, the allocated device
    included.
  \<^item> The snull driver loses no buffer in any mode; in interrupt mode, with a pool that is not empty, it never faults on
    frames that fit and delivers the rewritten frame; polling refines its contract, switches interrupts on again
    exactly when it handled fewer frames than its budget, and terminates.
  \<^item> The chat server's table and counter agree under every interleaving, a broadcast reaches each other client
    once, and what is typed at one client is shown at the others, however the connections cut the bytes into reads
    that leave the buffer a free byte; a read that fills the buffer faults.
  \<^item> The netlink programs print exactly what dumps and notifications encode. On arbitrary bytes \<open>route_monitor\<close> and
    the link monitor stay in their buffers when the datagram leaves 16 bytes of the buffer free (and, for
    the link monitor, a zero byte follows it); without that there are datagrams on which they do not. The link monitor
    refines its specification; its counters are those of the events under the same condition; a log of the
    descriptors opened and closed, the socket of \<open>get_interface_name\<close> included, balances.
  \<^item> The netfilter hooks give the right verdict, print the right addresses and leave no hook behind. The ICMP packets
    they queue are accepted once each by the program when their message fits the 4096 bytes it receives, and never
    when it does not.
  \<^item> The \<open>/proc\<close> and \<open>/sys\<close> files return what was written.
  \<^item> Where the code goes wrong, a theorem says exactly when: stale header pointers and an unchecked length in the
    reflector, the deregistration race, the 1500-byte packet buffer, the empty pool, the double free after a transmit
    timeout, the load error path and the reversed receive queue of snull, the wrong identity of chat clients and the
    lost boundaries of their messages, the full read buffer of the server, the reads behind a datagram that fills
    its buffer, the timer descriptor closed twice, one address printed for two, the queue program that goes on waiting after \<open>SIGINT\<close> and loses long
    messages.

  \<^bold>\<open>Not modelled\<close>

  \<^item> \<open>printk\<close>, debug output and \<open>print_hex_dump\<close>; the text of printed lines is modelled as values where a property needs it.
  \<^item> The kernel's own layers: \<open>seq_file\<close>, the network stack above \<open>netif_rx\<close>, how hooks are called in order,
    scheduling inside a critical section. \<open>nfq_handle_packet\<close> and the rest of libnetfilter\_queue.
  \<^item> The contents of memory after it has been freed or before it has been written, other than by an argument
    that stands for it; time, except as an argument.
  \<^item> Build files, shell scripts and documents.
\<close>

unbundle bit_operations_syntax

section \<open>The queueing module and the program behind the queue\<close>

text \<open>The hook hands the packet to queue \<open>q\<close>, as the kernel reads the verdict.\<close>

definition sent_to_queue :: "int \<Rightarrow> int \<Rightarrow> nf_skb \<Rightarrow> bool" where
  "sent_to_queue queue_num q skb = (case nf_queue_pkt queue_num (Some skb) of
     Inr (v, logged) \<Rightarrow> v AND 0xff = NF_QUEUE \<and> drop_bit 16 v = of_int q
   | Inl e \<Rightarrow> False)"

text \<open>
  What libnetfilter\_queue hands over for a queued packet: the id the kernel gave it, four bytes in network order, and
  the packet from its IP header on, with what it holds outside the linear part (\<open>frags\<close>), of which the program asked
  for the first 65535 bytes.
\<close>

definition queued_data :: "bytes \<Rightarrow> nf_skb \<Rightarrow> bytes \<Rightarrow> nfq_data" where
  "queued_data pid skb frags =
     \<lparr>packet_id = Some pid, payload = Some (take 65535 (drop (network_header skb) (nf_head skb) @ frags))\<rparr>"

text \<open>
  The library and the message \<open>msg\<close> in which the kernel sends that packet: when all of it was received, the packet is
  handed over; a message that is longer than what was received is no message to the library, and nothing is.
\<close>

definition library_law :: "(bytes \<Rightarrow> nfq_data list) \<Rightarrow> (bytes \<times> bytes) \<times> nf_skb \<Rightarrow> bool" where
  "library_law handle = (\<lambda>((pid, msg), skb).
     (\<exists>frags. handle msg = [queued_data pid skb frags]) \<and> (\<forall>n < length msg. handle (take n msg) = []))"

text \<open>The first two bytes of the ICMP header are in the linear part, behind an IP header of the length it claims.\<close>

definition icmp_linear :: "nf_skb \<Rightarrow> bool" where
  "icmp_linear skb \<longleftrightarrow> network_header skb + ip_ihl (unat (nf_head skb ! network_header skb)) * 4 + 2 \<le> length (nf_head skb)"

lemma sent_to_queue_iff:
  assumes "headers_linear skb" "0 \<le> q" "q < 65536"
  shows "sent_to_queue q q skb \<longleftrightarrow> is_icmp4 skb"
proof -
  have "q mod 65536 = q" using assms(2,3) by simp
  then have "NF_QUEUE_NR q AND 0xff = NF_QUEUE \<and> drop_bit 16 (NF_QUEUE_NR q) = of_int q"
    using queue_verdict [of q] by metis
  moreover have "NF_ACCEPT AND 0xff \<noteq> NF_QUEUE" by simp
  ultimately show ?thesis unfolding sent_to_queue_def nf_queue_pkt_linear [OF assms(1)]
    by (cases "is_icmp4 skb") simp_all
qed

lemma queued_data_ok:
  assumes "headers_linear skb" "icmp_linear skb"
  shows "nfq_ok (queued_data pid skb frags)"
proof -
  let ?p = "take 65535 (drop (network_header skb) (nf_head skb) @ frags)"
  have l: "network_header skb + 20 \<le> length (nf_head skb)" using assms(1) by (simp add: headers_linear_def)
  then have "?p ! 0 = nf_head skb ! network_header skb" by (simp add: nth_append)
  moreover have "ip_ihl (unat (nf_head skb ! network_header skb)) < 16" by (simp add: ip_ihl_def)
  ultimately show ?thesis using l assms(2) by (auto simp: nfq_ok_def queued_data_def icmp_linear_def)
qed

text \<open>What the library finds in the messages as \<open>recv\<close> leaves them, and the verdicts on it.\<close>

lemma found_queued:
  assumes "length posted = length queued" "\<forall>x \<in> set (zip posted queued). library_law handle x"
    and "\<forall>skb \<in> set queued. headers_linear skb \<and> icmp_linear skb"
  shows "(\<forall>d \<in> set (found handle (map snd posted)). nfq_ok d)
    \<and> accepted (found handle (map snd posted)) = map (\<lambda>(pid, msg). (be32_at pid 0, NF_ACCEPT)) (filter (\<lambda>(pid, msg). length msg \<le> 4096) posted)"
  using assms
proof (induction posted queued rule: list_induct2)
  case (Cons x posted skb queued)
  obtain pid msg where x: "x = (pid, msg)" by (cases x)
  have law: "\<exists>frags. handle msg = [queued_data pid skb frags]" "\<forall>n < length msg. handle (take n msg) = []"
    using Cons.prems(1) by (simp_all add: x library_law_def)
  then obtain frags where "handle (take 4096 msg) = (if length msg \<le> 4096 then [queued_data pid skb frags] else [])"
    by fastforce
  moreover have "nfq_ok (queued_data pid skb frags)" using Cons.prems(2) by (intro queued_data_ok) simp_all
  ultimately show ?case using Cons by (auto simp: x accepted_def nfq_id_def queued_data_def)
qed simp

text \<open>
  C18: the queueing module and the program behind the queue together. Let every packet have its IP header, and an
  ICMP packet the first two bytes behind it, in the linear part, and let the queue number be in range. Then the hook
  accepts every packet that is not IPv4 with ICMP and sends exactly the others to that queue. Let the kernel send each of
  these, with the id it gave it, in a message of its own, and let the library hand over the packet when it is given
  the whole message and nothing when it is given less. Then the program answers every packet whose message is at most 4096 bytes long
  with one verdict, to accept it, in the order of the queue; a packet whose message is longer gets no verdict, because
  \<open>recv\<close> cuts the message; and the program goes on running.
\<close>

theorem icmp_queue_end_to_end:
  assumes linear: "\<forall>skb \<in> set packets. headers_linear skb \<and> (is_icmp4 skb \<longrightarrow> icmp_linear skb)"
    and q: "0 \<le> q" "q < 65536" and queued: "queued = filter (sent_to_queue q q) packets"
    and posted: "length posted = length queued" and library: "\<forall>x \<in> set (zip posted queued). library_law handle x"
  shows "queued = filter is_icmp4 packets
    \<and> (\<forall>skb \<in> set packets. \<not> is_icmp4 skb \<longrightarrow> nf_queue_pkt q (Some skb) = Inr (NF_ACCEPT, []))
    \<and> (\<exists>S'. nfq_main src_first handle all_answers [] (map (quiet_recv \<circ> snd) posted) S = Inr (None, False, S')
        \<and> verdicts S' = verdicts S @ map (\<lambda>(pid, msg). (be32_at pid 0, NF_ACCEPT)) (filter (\<lambda>(pid, msg). length msg \<le> 4096) posted))"
proof -
  have f: "queued = filter is_icmp4 packets" unfolding queued
    using linear sent_to_queue_iff q by (intro filter_cong) auto
  then have "\<forall>skb \<in> set queued. headers_linear skb \<and> icmp_linear skb" using linear by simp
  note fq = found_queued [OF posted library this]
  obtain S' where S': "\<And>es. nfq_main src_first handle all_answers [] (map quiet_recv (map snd posted) @ es) S =
        rbind (nfq_recv src_first handle es True S') (\<lambda>(S, ended). if ended then Inr (Some 0, True, S) else Inr (None, False, S))"
      "verdicts S' = verdicts S @ accepted (found handle (map snd posted))"
    using nfq_main_msgs [of handle "map snd posted" src_first S] fq by auto
  have "nfq_main src_first handle all_answers [] (map (quiet_recv \<circ> snd) posted) S = Inr (None, False, S')"
    using S'(1) [of "[]"] by simp
  moreover have "\<forall>skb \<in> set packets. \<not> is_icmp4 skb \<longrightarrow> nf_queue_pkt q (Some skb) = Inr (NF_ACCEPT, [])"
    using linear nf_queue_pkt_linear by simp
  ultimately show ?thesis using f S'(2) fq by auto
qed

text \<open>A library for messages with an id in front and a length behind it.\<close>

definition sample_library :: "bytes \<Rightarrow> nfq_data list" where
  "sample_library b = (if length b < 6 \<or> length b \<noteq> unat (be16_at b 4) then []
     else [queued_data (take 4 b) (sample_packet 1) (drop 6 b)])"

lemma sample_library_law:
  assumes "length pid = 4" "n < 65536" "6 \<le> n" "msg = pid @ [of_nat (n div 256), of_nat (n mod 256)] @ replicate (n - 6) 0"
  shows "library_law sample_library ((pid, msg), sample_packet 1)"
proof -
  have l: "length msg = n" using assms by simp
  have "msg ! 4 = of_nat (n div 256)" "msg ! 5 = of_nat (n mod 256)" using assms by (simp_all add: nth_append)
  moreover have "n div 256 < 256" using assms(2) by simp
  ultimately have b: "unat (be16_at msg 4) = n"
    using assms(2) by (simp add: be16_at_def unat_of_nat unat_word_ariths)
  have "sample_library (take k msg) = []" if "k < length msg" for k
    using that b l by (cases "k < 6") (simp_all add: sample_library_def be16_at_def)
  moreover have "sample_library msg = [queued_data pid (sample_packet 1) (drop 6 msg)]"
    using b l assms by (simp add: sample_library_def)
  ultimately show ?thesis unfolding library_law_def by auto
qed

theorem icmp_queue_end_to_end_witness:
  "\<exists>S' short long. length short = 100 \<and> length long = 5000 \<and> nf_queue_pkt 7 (Some (sample_packet 6)) = Inr (NF_ACCEPT, [])
    \<and> filter (sent_to_queue 7 7) [sample_packet 1, sample_packet 6, sample_packet 1] = [sample_packet 1, sample_packet 1]
    \<and> nfq_main True sample_library all_answers [] [quiet_recv short, quiet_recv long] sample_state = Inr (None, False, S')
    \<and> verdicts S' = [(9, NF_ACCEPT)]"
proof -
  let ?packets = "[sample_packet 1, sample_packet 6, sample_packet 1]"
  define msg where "msg pid n = pid @ [of_nat (n div 256), of_nat (n mod 256)] @ replicate (n - 6) (0 :: u8)" for pid :: bytes and n :: nat
  let ?posted = "[([0, 0, 0, 9], msg [0, 0, 0, 9] 100), ([0, 0, 0, 10], msg [0, 0, 0, 10] 5000)]"
  have i: "is_icmp4 (sample_packet 1)" "\<not> is_icmp4 (sample_packet 6)" "headers_linear (sample_packet p)" for p
    by (simp_all add: is_icmp4_def skb_version_def skb_protocol_def sample_packet_def headers_linear_def)
  have l: "\<forall>skb \<in> set ?packets. headers_linear skb \<and> (is_icmp4 skb \<longrightarrow> icmp_linear skb)"
    using i by (simp add: icmp_linear_def sample_packet_def ip_ihl_def)
  have s: "filter (sent_to_queue 7 7) ?packets = [sample_packet 1, sample_packet 1]" using i sent_to_queue_iff by simp
  have len: "length (msg [0, 0, 0, 9] 100) = 100" "length (msg [0, 0, 0, 10] 5000) = 5000" by (simp_all add: msg_def)
  have lib: "\<forall>x \<in> set (zip ?posted [sample_packet 1, sample_packet 1]). library_law sample_library x"
    using sample_library_law [of "[0, 0, 0, 9]" 100] sample_library_law [of "[0, 0, 0, 10]" 5000] by (simp add: msg_def)
  have b: "be32_at [0, 0, 0, 9] 0 = 9" "verdicts sample_state = []" by (simp_all add: be32_at_def sample_state_def)
  note T = icmp_queue_end_to_end [OF l, of 7, OF _ _ s [symmetric], of ?posted sample_library True sample_state, OF _ _ _ lib]
  obtain S' where S': "nfq_main True sample_library all_answers [] (map (quiet_recv \<circ> snd) ?posted) sample_state = Inr (None, False, S')"
      "verdicts S' = verdicts sample_state @ map (\<lambda>(pid, msg). (be32_at pid 0, NF_ACCEPT)) (filter (\<lambda>(pid, msg). length msg \<le> 4096) ?posted)"
      "nf_queue_pkt 7 (Some (sample_packet 6)) = Inr (NF_ACCEPT, [])"
    using T i by auto
  show ?thesis using S' s len b
    by (intro exI [of _ S'] exI [of _ "msg [0, 0, 0, 9] 100"] exI [of _ "msg [0, 0, 0, 10] 5000"]) (simp del: nfq_loop.simps)
qed

end
